(* ===== verification/View_Spec.thy ===== *)
theory View_Spec
  imports Prelude
begin

text \<open>
  The data types of \<open>src/src/definition.rs\<close>: what the validator extracts from a definition and every
  other component works from. SQL expressions stay the deparsed text the code keeps; a select list,
  which the code keeps as one text of the form \<open>item AS alias, ...\<close>, is the list of its items, a
  GROUP BY clause the list of its expressions, and the populate query a record of its clauses.
\<close>

definition hidden_count_column :: string where
  "hidden_count_column = ''_nabla_n''"

definition hidden_sum_counter_prefix :: string where
  "hidden_sum_counter_prefix = ''_nabla_nn_''"

definition hidden_pk_prefix :: string where
  "hidden_pk_prefix = ''_nabla_pk''"

datatype shape = Projection | Aggregate

fun shape_as_str :: "shape \<Rightarrow> string" where
  "shape_as_str Projection = ''projection''"
| "shape_as_str Aggregate = ''aggregate''"

record output_column =
  oc_expr :: string
  oc_alias :: string

record sum_spec =
  su_expr :: string
  su_alias :: string
  su_counter :: string

record base_relation =
  br_oid :: u32
  br_rti :: nat
  br_alias :: string
  br_qualified :: string
  br_pk_columns :: "string list"
  br_columns :: "string list"
  br_column_types :: "string list"
  br_used_columns :: "string list"
  br_used_column_types :: "string list"
  br_join_keys :: "string list"

text \<open>
  The items of a select list: an expression, \<open>count(*)\<close>, \<open>count(expr)\<close>, \<open>sum(expr)\<close>, or the
  column of a relation (\<open>alias.column\<close>, quoted by the validator for the hidden key columns).
\<close>

datatype target =
    TExpr string
  | TCountStar
  | TCount string
  | TSum string
  | TColumn string string

datatype from_item = FTable string string        \<comment> \<open>qualified name, alias\<close>

record query =
  q_select :: "(target \<times> string) list"
  q_from :: "from_item list"
  q_where :: "string option"
  q_group_by :: "string list option"

record view_spec =
  sp_shape :: shape
  sp_base_table :: string
  sp_base_relname :: string
  sp_predicate :: "string option"
  sp_columns :: "output_column list"
  sp_pk_columns :: "string list"
  sp_pk_view_columns :: "string list"
  sp_count_alias :: "string option"
  sp_hidden_count :: bool
  sp_counts :: "output_column list"
  sp_sums :: "sum_spec list"
  sp_populate_sql :: query
  sp_relations :: "base_relation list"
  sp_select_list :: "(target \<times> string) list"
  sp_group_by :: "string list option"
  sp_visible_columns :: "string list"
  sp_hidden_columns :: "string list"

definition is_join :: "view_spec \<Rightarrow> bool" where
  "is_join spec \<longleftrightarrow> length (sp_relations spec) > 1"

text \<open>
  \<open>identity_columns\<close> of \<open>apply.rs\<close>: what identifies a row of the view.
\<close>

definition identity_columns :: "view_spec \<Rightarrow> string list" where
  "identity_columns spec =
     (case sp_shape spec of
        Aggregate \<Rightarrow> map oc_alias (sp_columns spec)
      | Projection \<Rightarrow> sp_pk_view_columns spec)"

end
