(* ===== verification/Sql.thy ===== *)
theory Sql
  imports View_Spec
begin

text \<open>
  The meaning of the SQL the code sends: values, rows, and the one query shape every view has,
  \<open>SELECT items FROM ... [WHERE p] [GROUP BY es]\<close>. PostgreSQL itself is not under \<open>src/\<close>, so what
  it computes is a parameter of the model, the record \<open>pg\<close>: casts of text to a type, the value of a
  deparsed expression in an environment of rows, \<open>to_jsonb(r)::text\<close> and
  \<open>jsonb_populate_record\<close>; each may raise an error (\<open>Inl\<close> with its message).
\<close>

section \<open>Values and rows\<close>

text \<open>
  A datum is NULL, a boolean, a number (exact: counts, integers and numerics), or the text of a
  value of another type. Two data are equal when the type's \<open>=\<close> says so.
\<close>

datatype datum = Null | Bool bool | Num int | Text string

type_synonym row = "(string \<times> datum) list"

text \<open>What the aliases of a FROM list stand for.\<close>

type_synonym env = "(string \<times> row) list"

definition col :: "row \<Rightarrow> string \<Rightarrow> datum" where
  "col r c = (case map_of r c of None \<Rightarrow> Null | Some d \<Rightarrow> d)"

definition env_col :: "env \<Rightarrow> string \<Rightarrow> string \<Rightarrow> datum" where
  "env_col env a c = (case map_of env a of None \<Rightarrow> Null | Some r \<Rightarrow> col r c)"

record pg =
  pg_cast :: "string \<Rightarrow> string \<Rightarrow> string + datum"           \<comment> \<open>type, text\<close>
  pg_eval :: "string \<Rightarrow> env \<Rightarrow> string + datum"             \<comment> \<open>expression\<close>
  pg_text :: "datum \<Rightarrow> string"                           \<comment> \<open>\<open>::text\<close> of a non-null value\<close>
  pg_to_jsonb :: "row \<Rightarrow> string"
  pg_populate :: "string list \<Rightarrow> string \<Rightarrow> string + row"   \<comment> \<open>columns of the table\<close>

text \<open>\<open>a = b\<close> is true, and \<open>a IS NOT DISTINCT FROM b\<close>.\<close>

definition sql_eq :: "datum \<Rightarrow> datum \<Rightarrow> bool" where
  "sql_eq a b \<longleftrightarrow> a \<noteq> Null \<and> a = b"

definition not_distinct :: "datum \<Rightarrow> datum \<Rightarrow> bool" where
  "not_distinct a b \<longleftrightarrow> a = b"

text \<open>\<open>(sign) * d\<close> and \<open>a + b\<close> on numeric columns: NULL if an operand is.\<close>

fun sql_scale :: "int \<Rightarrow> datum \<Rightarrow> datum" where
  "sql_scale s (Num n) = Num (s * n)"
| "sql_scale s d = Null"

fun sql_add :: "datum \<Rightarrow> datum \<Rightarrow> datum" where
  "sql_add (Num a) (Num b) = Num (a + b)"
| "sql_add a b = Null"

section \<open>Queries\<close>

text \<open>The rows of a FROM list: the cross product of its sources.\<close>

fun cross :: "(string \<times> row list) list \<Rightarrow> env list" where
  "cross [] = [[]]"
| "cross ((a, rows) # fs) = concat (map (\<lambda>r. map (\<lambda>env. (a, r) # env) (cross fs)) rows)"

definition where_true :: "pg \<Rightarrow> string option \<Rightarrow> env \<Rightarrow> string + bool" where
  "where_true pg p env =
     (case p of
        None \<Rightarrow> Inr True
      | Some e \<Rightarrow> rbind (pg_eval pg e env) (\<lambda>d. Inr (d = Bool True)))"

definition sql_where :: "pg \<Rightarrow> string option \<Rightarrow> env list \<Rightarrow> string + env list" where
  "sql_where pg p envs =
     rbind (rmap (\<lambda>env. rbind (where_true pg p env) (\<lambda>b. Inr (b, env))) envs)
       (\<lambda>bs. Inr (map snd (filter fst bs)))"

text \<open>
  The groups of a query: one per distinct key, NULLs being equal; without GROUP BY every row is on
  its own.
\<close>

definition split_groups :: "('k \<times> 'e) list \<Rightarrow> 'e list list" where
  "split_groups kes = map (\<lambda>k. map snd (filter (\<lambda>ke. fst ke = k) kes)) (remdups (map fst kes))"

definition sql_group :: "pg \<Rightarrow> string list option \<Rightarrow> env list \<Rightarrow> string + env list list" where
  "sql_group pg gs envs =
     (case gs of
        None \<Rightarrow> Inr (map (\<lambda>env. [env]) envs)
      | Some es \<Rightarrow>
          rbind (rmap (\<lambda>env. rbind (rmap (\<lambda>e. pg_eval pg e env) es) (\<lambda>k. Inr (k, env))) envs)
            (\<lambda>kes. Inr (split_groups kes)))"

definition non_null :: "datum list \<Rightarrow> datum list" where
  "non_null ds = filter (\<lambda>d. d \<noteq> Null) ds"

fun num_of :: "datum \<Rightarrow> int" where
  "num_of (Num n) = n"
| "num_of d = 0"

text \<open>\<open>sum\<close> ignores NULLs and is NULL when nothing else is left.\<close>

definition sql_sum :: "datum list \<Rightarrow> datum" where
  "sql_sum ds = (if non_null ds = [] then Null else Num (sum_list (map num_of (non_null ds))))"

text \<open>
  The value of a select item on one group (a plain row is a group of its own). An expression beside
  aggregates is a grouping key, so any row of the group gives its value.
\<close>

fun item_value :: "pg \<Rightarrow> target \<Rightarrow> env list \<Rightarrow> string + datum" where
  "item_value pg (TExpr e) envs = (case envs of [] \<Rightarrow> Inr Null | env # _ \<Rightarrow> pg_eval pg e env)"
| "item_value pg (TColumn a c) envs = (case envs of [] \<Rightarrow> Inr Null | env # _ \<Rightarrow> Inr (env_col env a c))"
| "item_value pg TCountStar envs = Inr (Num (int (length envs)))"
| "item_value pg (TCount e) envs =
     rbind (rmap (pg_eval pg e) envs) (\<lambda>ds. Inr (Num (int (length (non_null ds)))))"
| "item_value pg (TSum e) envs = rbind (rmap (pg_eval pg e) envs) (\<lambda>ds. Inr (sql_sum ds))"

definition select_row :: "pg \<Rightarrow> (target \<times> string) list \<Rightarrow> env list \<Rightarrow> string + row" where
  "select_row pg items envs = rmap (\<lambda>(t, a). rbind (item_value pg t envs) (\<lambda>d. Inr (a, d))) items"

definition sql_select :: "pg \<Rightarrow> (target \<times> string) list \<Rightarrow> string option \<Rightarrow> string list option \<Rightarrow>
    env list \<Rightarrow> string + row list" where
  "sql_select pg items p gs envs =
     rbind (sql_where pg p envs) (\<lambda>envs. rbind (sql_group pg gs envs) (rmap (select_row pg items)))"

section \<open>Queries without errors\<close>

text \<open>
  When no expression raises an error, a query has a plain value: \<open>ev\<close> is the value of an
  expression, \<open>holds\<close> the truth of the predicate, \<open>item\<close> and \<open>out_row\<close> those of a select item
  and of a result row.
\<close>

definition ev :: "pg \<Rightarrow> string \<Rightarrow> env \<Rightarrow> datum" where
  "ev pg e env = (case pg_eval pg e env of Inl m \<Rightarrow> Null | Inr d \<Rightarrow> d)"

definition holds :: "pg \<Rightarrow> string option \<Rightarrow> env \<Rightarrow> bool" where
  "holds pg p env = (case p of None \<Rightarrow> True | Some e \<Rightarrow> ev pg e env = Bool True)"

fun item :: "pg \<Rightarrow> target \<Rightarrow> env list \<Rightarrow> datum" where
  "item pg (TExpr e) envs = (case envs of [] \<Rightarrow> Null | env # _ \<Rightarrow> ev pg e env)"
| "item pg (TColumn a c) envs = (case envs of [] \<Rightarrow> Null | env # _ \<Rightarrow> env_col env a c)"
| "item pg TCountStar envs = Num (int (length envs))"
| "item pg (TCount e) envs = Num (int (length (non_null (map (ev pg e) envs))))"
| "item pg (TSum e) envs = sql_sum (map (ev pg e) envs)"

definition out_row :: "pg \<Rightarrow> (target \<times> string) list \<Rightarrow> env list \<Rightarrow> row" where
  "out_row pg items envs = map (\<lambda>(t, a). (a, item pg t envs)) items"

definition group_key :: "pg \<Rightarrow> string list \<Rightarrow> env \<Rightarrow> datum list" where
  "group_key pg es env = map (\<lambda>e. ev pg e env) es"

definition group_rows :: "pg \<Rightarrow> string list option \<Rightarrow> env list \<Rightarrow> env list list" where
  "group_rows pg gs envs =
     (case gs of
        None \<Rightarrow> map (\<lambda>env. [env]) envs
      | Some es \<Rightarrow> split_groups (map (\<lambda>env. (group_key pg es env, env)) envs))"

fun target_exprs :: "target \<Rightarrow> string list" where
  "target_exprs (TExpr e) = [e]"
| "target_exprs (TCount e) = [e]"
| "target_exprs (TSum e) = [e]"
| "target_exprs TCountStar = []"
| "target_exprs (TColumn a c) = []"

definition query_exprs :: "(target \<times> string) list \<Rightarrow> string list option \<Rightarrow> string set" where
  "query_exprs items gs =
     \<Union> ((\<lambda>(t, a). set (target_exprs t)) ` set items) \<union> (case gs of None \<Rightarrow> {} | Some es \<Rightarrow> set es)"

definition evaluates :: "pg \<Rightarrow> string \<Rightarrow> env \<Rightarrow> bool" where
  "evaluates pg e env \<longleftrightarrow> (\<exists>d. pg_eval pg e env = Inr d)"

text \<open>No expression the query evaluates on these rows raises an error.\<close>

definition no_errors :: "pg \<Rightarrow> (target \<times> string) list \<Rightarrow> string option \<Rightarrow> string list option \<Rightarrow>
    env list \<Rightarrow> bool" where
  "no_errors pg items p gs envs \<longleftrightarrow>
     (\<forall>env \<in> set envs. (\<forall>e. p = Some e \<longrightarrow> evaluates pg e env) \<and>
        (holds pg p env \<longrightarrow> (\<forall>e \<in> query_exprs items gs. evaluates pg e env)))"

lemma evaluates_ev: "evaluates pg e env \<Longrightarrow> pg_eval pg e env = Inr (ev pg e env)"
  by (auto simp: evaluates_def ev_def)

lemma sql_where_total:
  assumes "\<forall>env \<in> set envs. \<forall>e. p = Some e \<longrightarrow> evaluates pg e env"
  shows "sql_where pg p envs = Inr (filter (holds pg p) envs)"
proof -
  have "rmap (\<lambda>env. rbind (where_true pg p env) (\<lambda>b. Inr (b, env))) envs =
    Inr (map (\<lambda>env. (holds pg p env, env)) envs)"
    using assms
    by (intro rmap_all_ok) (auto simp: where_true_def holds_def evaluates_ev split: option.splits)
  then show ?thesis by (simp add: sql_where_def filter_map comp_def)
qed

lemma sql_group_total:
  assumes "\<forall>env \<in> set envs. \<forall>e \<in> query_exprs items gs. evaluates pg e env"
  shows "sql_group pg gs envs = Inr (group_rows pg gs envs)"
proof (cases gs)
  case None
  then show ?thesis by (simp add: sql_group_def group_rows_def)
next
  case (Some es)
  have "rmap (\<lambda>e. pg_eval pg e env) es = Inr (group_key pg es env)" if "env \<in> set envs" for env
    unfolding group_key_def using assms Some that
    by (intro rmap_all_ok evaluates_ev) (auto simp: query_exprs_def)
  then have "rmap (\<lambda>env. rbind (rmap (\<lambda>e. pg_eval pg e env) es) (\<lambda>k. Inr (k, env))) envs =
    Inr (map (\<lambda>env. (group_key pg es env, env)) envs)"
    by (intro rmap_all_ok) simp
  with Some show ?thesis by (simp add: sql_group_def group_rows_def)
qed

lemma item_value_total:
  assumes "\<forall>env \<in> set envs. \<forall>e \<in> set (target_exprs t). evaluates pg e env"
  shows "item_value pg t envs = Inr (item pg t envs)"
proof -
  have "rmap (pg_eval pg e) envs = Inr (map (ev pg e) envs)" if "e \<in> set (target_exprs t)" for e
    using assms that by (intro rmap_all_ok evaluates_ev) auto
  with assms show ?thesis
    by (cases t) (auto simp: evaluates_ev split: list.splits)
qed

lemma select_row_total:
  assumes "\<forall>env \<in> set envs. \<forall>e \<in> query_exprs items gs. evaluates pg e env"
  shows "select_row pg items envs = Inr (out_row pg items envs)"
  unfolding select_row_def out_row_def
proof (rule rmap_all_ok)
  fix ta
  assume "ta \<in> set items"
  then have "\<forall>env \<in> set envs. \<forall>e \<in> set (target_exprs (fst ta)). evaluates pg e env"
    using assms by (force simp: query_exprs_def)
  from item_value_total [OF this]
  show "(case ta of (t, a) \<Rightarrow> rbind (item_value pg t envs) (\<lambda>d. Inr (a, d))) =
    Inr (case ta of (t, a) \<Rightarrow> (a, item pg t envs))"
    by (cases ta) simp
qed

lemma set_split_groups: "g \<in> set (split_groups kes) \<Longrightarrow> set g \<subseteq> snd ` set kes"
  by (auto simp: split_groups_def)

lemma set_group_rows: "g \<in> set (group_rows pg gs envs) \<Longrightarrow> set g \<subseteq> set envs"
  by (cases gs) (auto simp: group_rows_def dest!: set_split_groups)

lemma sql_select_total:
  assumes "no_errors pg items p gs envs"
  shows "sql_select pg items p gs envs =
    Inr (map (out_row pg items) (group_rows pg gs (filter (holds pg p) envs)))"
proof -
  let ?envs = "filter (holds pg p) envs"
  have total: "\<forall>env \<in> set ?envs. \<forall>e \<in> query_exprs items gs. evaluates pg e env"
    using assms by (auto simp: no_errors_def)
  have "sql_where pg p envs = Inr ?envs"
    using assms by (intro sql_where_total) (auto simp: no_errors_def)
  moreover have "sql_group pg gs ?envs = Inr (group_rows pg gs ?envs)"
    using total by (rule sql_group_total)
  moreover have "rmap (select_row pg items) (group_rows pg gs ?envs) =
    Inr (map (out_row pg items) (group_rows pg gs ?envs))"
    using total set_group_rows by (intro rmap_all_ok select_row_total) blast
  ultimately show ?thesis by (simp add: sql_select_def)
qed

end
