(* ===== verification/Net.thy ===== *)
theory Net
  imports View_Spec
begin

text \<open>
  \<open>net\<close> of \<open>src/src/apply.rs\<close>: the deltas of one source transaction reduced to their net effect per
  identity key. JSON values are \<open>serde_json::Value\<close>s; \<open>parse\<close> and \<open>print\<close> stand for
  \<open>serde_json::from_str\<close> and \<open>Value::to_string\<close>, a third-party package, and are parameters. What
  a subscriber does with deltas is \<open>replay\<close>.
\<close>

section \<open>JSON values\<close>

text \<open>
  An object is the list of its entries in \<open>serde_json\<close>'s map order (sorted, without duplicates), so
  equality of lists is equality of maps; a number is its text.
\<close>

datatype json =
    JNull
  | JBool bool
  | JNumber string
  | JString string
  | JArray "json list"
  | JObject "(string \<times> json) list"

text \<open>\<open>Value::get(name)\<close>: only objects answer to a string.\<close>

fun json_get :: "json \<Rightarrow> string \<Rightarrow> json option" where
  "json_get (JObject kvs) c = map_of kvs c"
| "json_get v c = None"

section \<open>Netting\<close>

record delta =
  d_op :: char
  d_row_json :: string

fun visible :: "view_spec \<Rightarrow> json \<Rightarrow> json" where
  "visible spec (JObject kvs) =
     JObject (fold (\<lambda>h m. filter (\<lambda>kv. fst kv \<noteq> h) m) (sp_hidden_columns spec) kvs)"
| "visible spec v = v"

definition net_key :: "view_spec \<Rightarrow> json \<Rightarrow> json list" where
  "net_key spec row =
     map (\<lambda>c. case json_get row c of None \<Rightarrow> JNull | Some v \<Rightarrow> v) (identity_columns spec)"

record net_state =
  ns_before :: "json option"
  ns_after :: "json option"

text \<open>One iteration of the loop over the deltas, on the parsed row.\<close>

definition net_step :: "view_spec \<Rightarrow> char \<times> json \<Rightarrow> json list list \<times> net_state list \<Rightarrow>
    json list list \<times> net_state list" where
  "net_step spec ev st = (case (ev, st) of ((op, row), (order, states)) \<Rightarrow>
     let key = net_key spec row;
         (index, order, states) =
           (case position (\<lambda>k. k = key) order of
              Some i \<Rightarrow> (i, order, states)
            | None \<Rightarrow>
                (length states, order @ [key],
                 states @ [\<lparr>ns_before = (if op = CHR ''D'' then Some row else None), ns_after = None\<rparr>]))
     in (order,
         states[index := (states ! index)\<lparr>ns_after := (if op = CHR ''I'' then Some row else None)\<rparr>]))"

text \<open>The loop over the states.\<close>

definition net_out :: "view_spec \<Rightarrow> net_state \<Rightarrow> (char \<times> json) list" where
  "net_out spec s =
     (if map_option (visible spec) (ns_before s) = map_option (visible spec) (ns_after s) then []
      else (case ns_before s of None \<Rightarrow> [] | Some b \<Rightarrow> [(CHR ''D'', b)]) @
           (case ns_after s of None \<Rightarrow> [] | Some a \<Rightarrow> [(CHR ''I'', a)]))"

definition net_events :: "view_spec \<Rightarrow> (char \<times> json) list \<Rightarrow> (char \<times> json) list" where
  "net_events spec evs = concat (map (net_out spec) (snd (fold (net_step spec) evs ([], []))))"

text \<open>Rows that do not parse are skipped (\<open>continue\<close>).\<close>

definition parsed :: "(string \<Rightarrow> json option) \<Rightarrow> delta list \<Rightarrow> (char \<times> json) list" where
  "parsed parse ds = List.map_filter (\<lambda>d. map_option (\<lambda>row. (d_op d, row)) (parse (d_row_json d))) ds"

definition net :: "(string \<Rightarrow> json option) \<Rightarrow> (json \<Rightarrow> string) \<Rightarrow> view_spec \<Rightarrow> delta list \<Rightarrow> delta list" where
  "net parse print spec ds =
     map (\<lambda>(op, row). \<lparr>d_op = op, d_row_json = print row\<rparr>) (net_events spec (parsed parse ds))"

section \<open>Replaying deltas\<close>

text \<open>
  A subscriber keeps the rows by key. Each row is held as \<open>f row\<close>: \<open>f\<close> is the identity for the
  view table itself and \<open>visible spec\<close> for a subscriber. A delete must name the row that is held,
  an insert a key that is free; anything else is a protocol violation (\<open>None\<close>).
\<close>

definition replay_step :: "('r \<Rightarrow> 'v) \<Rightarrow> ('r \<Rightarrow> 'k) \<Rightarrow> char \<times> 'r \<Rightarrow> ('k \<rightharpoonup> 'v) \<Rightarrow> ('k \<rightharpoonup> 'v) option" where
  "replay_step f key ev s = (case ev of (op, row) \<Rightarrow>
     if op = CHR ''D'' then (if s (key row) = Some (f row) then Some (s(key row := None)) else None)
     else if op = CHR ''I'' then (if s (key row) = None then Some (s(key row \<mapsto> f row)) else None)
     else None)"

fun replay :: "('r \<Rightarrow> 'v) \<Rightarrow> ('r \<Rightarrow> 'k) \<Rightarrow> (char \<times> 'r) list \<Rightarrow> ('k \<rightharpoonup> 'v) \<Rightarrow> ('k \<rightharpoonup> 'v) option" where
  "replay f key [] s = Some s"
| "replay f key (ev # evs) s = Option.bind (replay_step f key ev s) (replay f key evs)"

lemma replay_append:
  "replay f key (xs @ ys) s = Option.bind (replay f key xs s) (replay f key ys)"
  by (induction xs arbitrary: s) (auto split: Option.bind_splits)

section \<open>The loop computes first and last rows per key\<close>

text \<open>The events of one key, its first row if it starts with a delete, its last if it ends with an insert.\<close>

definition events_of :: "view_spec \<Rightarrow> json list \<Rightarrow> (char \<times> json) list \<Rightarrow> (char \<times> json) list" where
  "events_of spec k evs = filter (\<lambda>ev. net_key spec (snd ev) = k) evs"

definition summary :: "(char \<times> json) list \<Rightarrow> net_state" where
  "summary evs =
     \<lparr>ns_before = (if fst (hd evs) = CHR ''D'' then Some (snd (hd evs)) else None),
      ns_after = (if fst (last evs) = CHR ''I'' then Some (snd (last evs)) else None)\<rparr>"

definition first_keys :: "view_spec \<Rightarrow> (char \<times> json) list \<Rightarrow> json list list" where
  "first_keys spec evs = rev (remdups (rev (map (\<lambda>ev. net_key spec (snd ev)) evs)))"

lemma first_keys_snoc:
  "first_keys spec (evs @ [ev]) =
     (if net_key spec (snd ev) \<in> set (first_keys spec evs) then first_keys spec evs
      else first_keys spec evs @ [net_key spec (snd ev)])"
  by (simp add: first_keys_def image_image)

lemma first_keys_Nil [simp]: "first_keys spec [] = []"
  by (simp add: first_keys_def)

lemma set_first_keys: "set (first_keys spec evs) = (\<lambda>ev. net_key spec (snd ev)) ` set evs"
  by (simp add: first_keys_def)

lemma distinct_first_keys [simp]: "distinct (first_keys spec evs)"
  by (simp add: first_keys_def)

lemma events_of_snoc:
  "events_of spec k (evs @ [ev]) = events_of spec k evs @ (if net_key spec (snd ev) = k then [ev] else [])"
  by (simp add: events_of_def)

lemma events_of_eq_Nil: "events_of spec k evs = [] \<longleftrightarrow> k \<notin> set (first_keys spec evs)"
  by (auto simp: events_of_def set_first_keys filter_empty_conv)

lemma summary_snoc:
  "evs \<noteq> [] \<Longrightarrow> summary (evs @ [ev]) =
     (summary evs)\<lparr>ns_after := (if fst ev = CHR ''I'' then Some (snd ev) else None)\<rparr>"
  by (simp add: summary_def)

lemma net_loop:
  "fold (net_step spec) evs ([], []) =
     (first_keys spec evs, map (\<lambda>k. summary (events_of spec k evs)) (first_keys spec evs))"
proof (induction evs rule: rev_induct)
  case Nil
  show ?case by simp
next
  case (snoc ev evs)
  let ?ks = "first_keys spec evs" and ?key = "net_key spec (snd ev)"
  have others: "map (\<lambda>k. summary (events_of spec k (evs @ [ev]))) ks = map (\<lambda>k. summary (events_of spec k evs)) ks"
    if "?key \<notin> set ks" for ks
    using that by (auto simp: events_of_snoc)
  show ?case
  proof (cases "?key \<in> set ?ks")
    case False
    then have "position (\<lambda>k. k = ?key) ?ks = None" by (auto simp: position_None_iff)
    moreover from False have "events_of spec ?key evs = []" by (simp add: events_of_eq_Nil)
    ultimately show ?thesis
      using False others [OF False] snoc
      by (cases ev) (simp add: net_step_def Let_def first_keys_snoc events_of_snoc summary_def)
  next
    case True
    then obtain i where i: "i < length ?ks" "?ks ! i = ?key" by (auto simp: in_set_conv_nth)
    have "position (\<lambda>k. k = ?key) ?ks = Some i"
      using position_distinct_key [of "\<lambda>k. k" ?ks i] i by simp
    moreover have "summary (events_of spec ?key (evs @ [ev])) = (summary (events_of spec ?key evs))
        \<lparr>ns_after := (if fst ev = CHR ''I'' then Some (snd ev) else None)\<rparr>"
      using True by (simp add: events_of_snoc summary_snoc events_of_eq_Nil)
    moreover have "events_of spec (?ks ! j) (evs @ [ev]) = events_of spec (?ks ! j) evs"
      if "j < length ?ks" "j \<noteq> i" for j
      using that i by (auto simp: events_of_snoc nth_eq_iff_index_eq)
    ultimately show ?thesis
      using True snoc i
      by (cases ev) (auto simp: net_step_def Let_def first_keys_snoc nth_list_update intro!: nth_equalityI)
  qed
qed

lemma net_events_eq:
  "net_events spec evs =
     concat (map (\<lambda>k. net_out spec (summary (events_of spec k evs))) (first_keys spec evs))"
  by (simp add: net_events_def net_loop comp_def)

section \<open>Replaying the net deltas\<close>

lemma replay_step_key:
  "replay_step f key ev s = Some t \<Longrightarrow> key (snd ev) \<noteq> k \<Longrightarrow> t k = s k"
  by (auto simp: replay_step_def split: prod.splits if_splits)

lemma replay_summary:
  assumes "replay id (net_key spec) evs s = Some t"
  shows "\<forall>k \<in> set (first_keys spec evs). s k = ns_before (summary (events_of spec k evs)) \<and>
      t k = ns_after (summary (events_of spec k evs))"
    and "\<forall>k. k \<notin> set (first_keys spec evs) \<longrightarrow> t k = s k"
  using assms
proof (induction evs arbitrary: t rule: rev_induct)
  case Nil
  { case 1 then show ?case by simp }
  { case 2 then show ?case by simp }
next
  case (snoc ev evs)
  let ?key = "net_key spec (snd ev)"
  have step: "\<exists>u. replay id (net_key spec) evs s = Some u \<and> replay_step id (net_key spec) ev u = Some t"
    if "replay id (net_key spec) (evs @ [ev]) s = Some t" for t
    using that by (auto simp: replay_append split: Option.bind_splits)
  { case 1
    then obtain u where u: "replay id (net_key spec) evs s = Some u"
      "replay_step id (net_key spec) ev u = Some t" using step by blast
    have old: "s k = ns_before (summary (events_of spec k evs))" "u k = ns_after (summary (events_of spec k evs))"
      if "k \<in> set (first_keys spec evs)" for k
      using snoc.IH(1) [OF u(1)] that by auto
    have new: "u k = s k" if "k \<notin> set (first_keys spec evs)" for k
      using snoc.IH(2) [OF u(1)] that by auto
    show ?case
    proof
      fix k
      assume k: "k \<in> set (first_keys spec (evs @ [ev]))"
      show "s k = ns_before (summary (events_of spec k (evs @ [ev]))) \<and>
        t k = ns_after (summary (events_of spec k (evs @ [ev])))"
      proof (cases "k = ?key")
        case False
        then show ?thesis
          using k old [of k] replay_step_key [OF u(2), of k]
          by (auto simp: first_keys_snoc events_of_snoc split: if_splits)
      next
        case True
        show ?thesis
        proof (cases "k \<in> set (first_keys spec evs)")
          case True
          with u(2) old [OF True] \<open>k = ?key\<close> show ?thesis
            by (cases ev) (auto simp: events_of_snoc summary_snoc events_of_eq_Nil replay_step_def
                split: if_splits)
        next
          case False
          then have "events_of spec k evs = []" by (simp add: events_of_eq_Nil)
          with u(2) new [OF False] \<open>k = ?key\<close> show ?thesis
            by (cases ev) (auto simp: events_of_snoc summary_def replay_step_def split: if_splits)
        qed
      qed
    qed }
  { case 2
    then obtain u where u: "replay id (net_key spec) evs s = Some u"
      "replay_step id (net_key spec) ev u = Some t" using step by blast
    show ?case
    proof (intro allI impI)
      fix k
      assume "k \<notin> set (first_keys spec (evs @ [ev]))"
      then have "k \<notin> set (first_keys spec evs)" and "?key \<noteq> k"
        by (auto simp: first_keys_snoc split: if_splits)
      then show "t k = s k"
        using snoc.IH(2) [OF u(1)] replay_step_key [OF u(2)] by simp
    qed }
qed

text \<open>One key: its net deltas take the held row from before to after.\<close>

lemma replay_net_out:
  assumes "s k = map_option (visible spec) (ns_before st)"
    and "\<And>b. ns_before st = Some b \<Longrightarrow> net_key spec b = k"
    and "\<And>a. ns_after st = Some a \<Longrightarrow> net_key spec a = k"
  shows "replay (visible spec) (net_key spec) (net_out spec st) s =
    Some (s(k := map_option (visible spec) (ns_after st)))"
  using assms
  by (auto simp: net_out_def replay_step_def fun_upd_idem split: option.splits)

lemma summary_keys:
  assumes "k \<in> set (first_keys spec evs)"
  shows "ns_before (summary (events_of spec k evs)) = Some b \<Longrightarrow> net_key spec b = k"
    and "ns_after (summary (events_of spec k evs)) = Some a \<Longrightarrow> net_key spec a = k"
proof -
  have ne: "events_of spec k evs \<noteq> []" using assms by (simp add: events_of_eq_Nil)
  then have "hd (events_of spec k evs) \<in> set (events_of spec k evs)"
    and "last (events_of spec k evs) \<in> set (events_of spec k evs)" by simp_all
  then show "ns_before (summary (events_of spec k evs)) = Some b \<Longrightarrow> net_key spec b = k"
    and "ns_after (summary (events_of spec k evs)) = Some a \<Longrightarrow> net_key spec a = k"
    by (auto simp: summary_def events_of_def split: if_splits)
qed

lemma replay_keys:
  assumes "distinct ks" and "set ks \<subseteq> set (first_keys spec evs)"
    and "\<forall>k \<in> set ks. s k = map_option (visible spec) (ns_before (summary (events_of spec k evs)))"
  shows "replay (visible spec) (net_key spec)
      (concat (map (\<lambda>k. net_out spec (summary (events_of spec k evs))) ks)) s =
    Some (\<lambda>k. if k \<in> set ks then map_option (visible spec) (ns_after (summary (events_of spec k evs))) else s k)"
  using assms
proof (induction ks arbitrary: s)
  case Nil
  then show ?case by simp
next
  case (Cons k ks)
  let ?s = "s(k := map_option (visible spec) (ns_after (summary (events_of spec k evs))))"
  have "replay (visible spec) (net_key spec) (net_out spec (summary (events_of spec k evs))) s = Some ?s"
    using Cons.prems summary_keys [of k spec evs] by (intro replay_net_out) auto
  moreover have "\<forall>k' \<in> set ks. ?s k' = map_option (visible spec) (ns_before (summary (events_of spec k' evs)))"
    using Cons.prems by auto
  ultimately have "replay (visible spec) (net_key spec)
      (concat (map (\<lambda>k. net_out spec (summary (events_of spec k evs))) (k # ks))) s =
    Some (\<lambda>k. if k \<in> set ks then map_option (visible spec) (ns_after (summary (events_of spec k evs))) else ?s k)"
  proof -
    assume "replay (visible spec) (net_key spec) (net_out spec (summary (events_of spec k evs))) s = Some ?s"
      and "\<forall>k' \<in> set ks. ?s k' = map_option (visible spec) (ns_before (summary (events_of spec k' evs)))"
    moreover from this(2) have "replay (visible spec) (net_key spec)
        (concat (map (\<lambda>k. net_out spec (summary (events_of spec k evs))) ks)) ?s =
      Some (\<lambda>k. if k \<in> set ks then map_option (visible spec) (ns_after (summary (events_of spec k evs))) else ?s k)"
      using Cons.prems by (intro Cons.IH) simp_all
    ultimately show ?thesis
      by (simp only: list.map concat.simps replay_append Option.bind.bind_lunit)
  qed
  then show ?case by (auto simp: fun_eq_iff)
qed

lemma replay_net_events:
  assumes "replay id (net_key spec) evs s = Some t"
  shows "replay (visible spec) (net_key spec) (net_events spec evs) (map_option (visible spec) \<circ> s) =
    Some (map_option (visible spec) \<circ> t)"
proof -
  have "\<forall>k \<in> set (first_keys spec evs). (map_option (visible spec) \<circ> s) k =
      map_option (visible spec) (ns_before (summary (events_of spec k evs)))"
    using replay_summary(1) [OF assms] by simp
  then show ?thesis
    unfolding net_events_eq
    using replay_summary [OF assms] by (subst replay_keys) (auto intro!: ext)
qed

section \<open>Shape of the net deltas\<close>

lemma net_out_summary: "net_out spec st \<noteq> [] \<Longrightarrow> summary (net_out spec st) = st"
  by (auto simp: net_out_def summary_def split: option.splits if_splits)

lemma net_out_keys:
  assumes "k \<in> set (first_keys spec evs)" and "ev \<in> set (net_out spec (summary (events_of spec k evs)))"
  shows "net_key spec (snd ev) = k"
  using assms summary_keys [OF assms(1)]
  by (auto simp: net_out_def split: option.splits if_splits)

lemma first_keys_block:
  assumes "\<And>ev. ev \<in> set b \<Longrightarrow> net_key spec (snd ev) = k" and "k \<notin> set (first_keys spec evs)"
  shows "first_keys spec (evs @ b) = first_keys spec evs @ (if b = [] then [] else [k])"
  using assms
proof (induction b rule: rev_induct)
  case Nil
  then show ?case by simp
next
  case (snoc ev b)
  then show ?case
    using first_keys_snoc [of spec "evs @ b" ev] by auto
qed

lemma net_blocks:
  assumes "distinct ks" and "\<And>k ev. k \<in> set ks \<Longrightarrow> ev \<in> set (out k) \<Longrightarrow> net_key spec (snd ev) = k"
  shows "first_keys spec (concat (map out ks)) = filter (\<lambda>k. out k \<noteq> []) ks \<and>
    (\<forall>k \<in> set ks. events_of spec k (concat (map out ks)) = out k)"
  using assms
proof (induction ks rule: rev_induct)
  case Nil
  show ?case by simp
next
  case (snoc k' ks)
  have IH: "first_keys spec (concat (map out ks)) = filter (\<lambda>k. out k \<noteq> []) ks"
    "\<forall>k \<in> set ks. events_of spec k (concat (map out ks)) = out k"
    using snoc by auto
  have k': "k' \<notin> set (first_keys spec (concat (map out ks)))" using snoc.prems(1) IH(1) by simp
  have "first_keys spec (concat (map out (ks @ [k']))) = filter (\<lambda>k. out k \<noteq> []) (ks @ [k'])"
    using first_keys_block [of "out k'" spec k' "concat (map out ks)"] k' snoc.prems(2) IH(1) by simp
  moreover have "events_of spec k (concat (map out (ks @ [k']))) = out k" if "k \<in> set (ks @ [k'])" for k
  proof (cases "k = k'")
    case True
    have "events_of spec k' (concat (map out ks)) = []"
      using k' by (simp add: events_of_eq_Nil)
    moreover have "events_of spec k' (out k') = out k'"
      using snoc.prems(2) [of k'] by (simp add: events_of_def filter_id_conv)
    ultimately show ?thesis using True by (simp add: events_of_def)
  next
    case False
    then have "events_of spec k (out k') = []"
      using snoc.prems(2) [of k'] by (auto simp: events_of_def filter_empty_conv)
    moreover have "events_of spec k (concat (map out ks)) = out k"
      using IH(2) that False by simp
    ultimately show ?thesis by (simp add: events_of_def)
  qed
  ultimately show ?case by blast
qed

lemma concat_map_nonempty: "concat (map f (filter (\<lambda>x. f x \<noteq> []) xs)) = concat (map f xs)"
  by (induction xs) auto

lemma net_events_idem: "net_events spec (net_events spec evs) = net_events spec evs"
proof -
  let ?out = "\<lambda>k. net_out spec (summary (events_of spec k evs))" and ?ks = "first_keys spec evs"
  have "net_key spec (snd ev) = k" if "k \<in> set ?ks" "ev \<in> set (?out k)" for k ev
    using that by (rule net_out_keys)
  then have blocks: "first_keys spec (concat (map ?out ?ks)) = filter (\<lambda>k. ?out k \<noteq> []) ?ks"
    "\<forall>k \<in> set ?ks. events_of spec k (concat (map ?out ?ks)) = ?out k"
    using net_blocks [of ?ks ?out spec] by auto
  have "net_events spec (net_events spec evs) =
    concat (map (\<lambda>k. net_out spec (summary (events_of spec k (concat (map ?out ?ks)))))
      (filter (\<lambda>k. ?out k \<noteq> []) ?ks))"
    by (simp add: net_events_eq [of spec "concat (map ?out ?ks)"] net_events_eq [of spec evs] blocks(1))
  also have "\<dots> = concat (map ?out (filter (\<lambda>k. ?out k \<noteq> []) ?ks))"
    by (intro arg_cong [of _ _ concat] map_cong refl) (simp add: blocks(2) net_out_summary)
  also have "\<dots> = concat (map ?out ?ks)"
    by (rule concat_map_nonempty)
  finally show ?thesis by (simp add: net_events_eq)
qed

lemma net_events_rows: "snd ` set (net_events spec evs) \<subseteq> snd ` set evs"
proof -
  have "snd ev \<in> snd ` set evs" if k: "k \<in> set (first_keys spec evs)"
    and ev: "ev \<in> set (net_out spec (summary (events_of spec k evs)))" for k ev
  proof -
    have "events_of spec k evs \<noteq> []" using k by (simp add: events_of_eq_Nil)
    then have "hd (events_of spec k evs) \<in> set evs" "last (events_of spec k evs) \<in> set evs"
      by (metis events_of_def filter_is_subset hd_in_set last_in_set subsetD)+
    with ev show ?thesis
      by (auto simp: net_out_def summary_def split: option.splits if_splits)
  qed
  then show ?thesis by (auto simp: net_events_eq)
qed

lemma parsed_print:
  "\<forall>ev \<in> set evs. parse (print (snd ev)) = Some (snd ev) \<Longrightarrow>
   parsed parse (map (\<lambda>(op, row). \<lparr>d_op = op, d_row_json = print row\<rparr>) evs) = evs"
  by (induction evs) (auto simp: parsed_def List.map_filter_simps)

lemma parsed_net:
  assumes "\<forall>ev \<in> set (parsed parse ds). parse (print (snd ev)) = Some (snd ev)"
  shows "parsed parse (net parse print spec ds) = net_events spec (parsed parse ds)"
proof -
  have "\<forall>ev \<in> set (net_events spec (parsed parse ds)). parse (print (snd ev)) = Some (snd ev)"
  proof
    fix ev
    assume "ev \<in> set (net_events spec (parsed parse ds))"
    then have "snd ev \<in> snd ` set (parsed parse ds)" using net_events_rows by fast
    with assms show "parse (print (snd ev)) = Some (snd ev)" by auto
  qed
  then show ?thesis unfolding net_def by (rule parsed_print)
qed

section \<open>Properties\<close>

text \<open>
  C7. Netting is invisible to subscribers. Let a transaction's deltas take the keyed content of the
  view table from \<open>s\<close> to \<open>t\<close>, each delete naming the row that is there and each insert a free key.
  Then the netted deltas take a subscriber holding the visible columns of \<open>s\<close> to the visible columns
  of \<open>t\<close>, again without a protocol violation.
\<close>

theorem net_preserves_replay:
  assumes "\<forall>ev \<in> set (parsed parse ds). parse (print (snd ev)) = Some (snd ev)"
    and "replay id (net_key spec) (parsed parse ds) s = Some t"
  shows "replay (visible spec) (net_key spec) (parsed parse (net parse print spec ds))
      (map_option (visible spec) \<circ> s) = Some (map_option (visible spec) \<circ> t)"
  unfolding parsed_net [OF assms(1)] using assms(2) by (rule replay_net_events)

definition example_parse :: "string \<Rightarrow> json option" where
  "example_parse s = (if s = [] then None else Some (JObject [(''k'', JNumber s), (''n'', JNumber s)]))"

fun example_print :: "json \<Rightarrow> string" where
  "example_print (JObject ((_, JNumber s) # _)) = s"
| "example_print v = []"

definition example_spec :: view_spec where
  "example_spec =
     \<lparr>sp_shape = Aggregate, sp_base_table = ''t'', sp_base_relname = ''t'', sp_predicate = None,
      sp_columns = [\<lparr>oc_expr = ''k'', oc_alias = ''k''\<rparr>], sp_pk_columns = [], sp_pk_view_columns = [],
      sp_count_alias = Some ''n'', sp_hidden_count = False, sp_counts = [], sp_sums = [],
      sp_populate_sql = \<lparr>q_select = [(TExpr ''k'', ''k''), (TCountStar, ''n'')], q_from = [FTable ''t'' ''t''],
        q_where = None, q_group_by = Some [''k'']\<rparr>,
      sp_relations = [], sp_select_list = [(TExpr ''k'', ''k''), (TCountStar, ''n'')],
      sp_group_by = Some [''k''], sp_visible_columns = [''k'', ''n''], sp_hidden_columns = []\<rparr>"

definition example_deltas :: "delta list" where
  "example_deltas =
     [\<lparr>d_op = CHR ''I'', d_row_json = ''1''\<rparr>, \<lparr>d_op = CHR ''I'', d_row_json = ''2''\<rparr>,
      \<lparr>d_op = CHR ''D'', d_row_json = ''1''\<rparr>]"

lemma example_parsed:
  "parsed example_parse example_deltas =
     [(CHR ''I'', JObject [(''k'', JNumber ''1''), (''n'', JNumber ''1'')]),
      (CHR ''I'', JObject [(''k'', JNumber ''2''), (''n'', JNumber ''2'')]),
      (CHR ''D'', JObject [(''k'', JNumber ''1''), (''n'', JNumber ''1'')])]"
  by (simp add: parsed_def example_deltas_def example_parse_def List.map_filter_simps)

theorem net_preserves_replay_witness:
  "replay (visible example_spec) (net_key example_spec)
      (parsed example_parse (net example_parse example_print example_spec example_deltas))
      (map_option (visible example_spec) \<circ> Map.empty) =
    Some (map_option (visible example_spec) \<circ>
      [[JNumber ''2''] \<mapsto> JObject [(''k'', JNumber ''2''), (''n'', JNumber ''2'')]])"
proof (rule net_preserves_replay)
  show "\<forall>ev \<in> set (parsed example_parse example_deltas). example_parse (example_print (snd ev)) = Some (snd ev)"
    by (simp add: example_parsed example_parse_def)
  show "replay id (net_key example_spec) (parsed example_parse example_deltas) Map.empty =
    Some [[JNumber ''2''] \<mapsto> JObject [(''k'', JNumber ''2''), (''n'', JNumber ''2'')]]"
    by (simp add: example_parsed replay_step_def net_key_def identity_columns_def example_spec_def)
qed


text \<open>
  Netting is idempotent: netted deltas contain nothing left to net, so each key appears at most
  once as a delete followed by at most one insert, with different visible columns.
\<close>

theorem net_idempotent:
  assumes "\<forall>ev \<in> set (parsed parse ds). parse (print (snd ev)) = Some (snd ev)"
  shows "net parse print spec (net parse print spec ds) = net parse print spec ds"
  using parsed_net [OF assms, of spec] net_events_idem unfolding net_def by simp

theorem net_idempotent_witness:
  "net example_parse example_print example_spec (net example_parse example_print example_spec example_deltas) =
   net example_parse example_print example_spec example_deltas"
  by (rule net_idempotent) (simp add: example_parsed example_parse_def)

end
