(* ===== verification/Pgoutput.thy ===== *)
theory Pgoutput
  imports Prelude
begin

unbundle bit_operations_syntax

text \<open>
  \<open>src/src/pgoutput.rs\<close>, first half: the byte reader and \<open>decode\<close>, which turns one message of the
  \<open>pgoutput\<close> protocol (version 1) into a \<open>message\<close>. Bytes are \<open>u8\<close> words, lengths and counts are
  read as the signed integers the code reads, and every \<open>Err\<close> is a constructor of
  \<open>decode_error\<close> carrying the values the code formats into the message.
\<close>

section \<open>UTF-8\<close>

text \<open>
  \<open>String::from_utf8_lossy\<close>: the standard library walks the bytes, keeps well-formed sequences and
  replaces every maximal ill-formed piece by U+FFFD. \<open>byte_at\<close> is its \<open>safe_get\<close> (0 past the
  end); \<open>utf8_step\<close> inspects the sequence at the head: whether it is well formed and how many
  bytes it took (at least one).
\<close>

definition byte_at :: "u8 list \<Rightarrow> nat \<Rightarrow> nat" where
  "byte_at bs i = (if i < length bs then unat (bs ! i) else 0)"

definition is_cont :: "nat \<Rightarrow> bool" where
  "is_cont b \<longleftrightarrow> 0x80 \<le> b \<and> b \<le> 0xBF"

definition second3 :: "nat \<Rightarrow> nat \<Rightarrow> bool" where
  "second3 a b \<longleftrightarrow>
     (a = 0xE0 \<and> 0xA0 \<le> b \<and> b \<le> 0xBF) \<or> (0xE1 \<le> a \<and> a \<le> 0xEC \<and> is_cont b) \<or>
     (a = 0xED \<and> 0x80 \<le> b \<and> b \<le> 0x9F) \<or> (0xEE \<le> a \<and> a \<le> 0xEF \<and> is_cont b)"

definition second4 :: "nat \<Rightarrow> nat \<Rightarrow> bool" where
  "second4 a b \<longleftrightarrow>
     (a = 0xF0 \<and> 0x90 \<le> b \<and> b \<le> 0xBF) \<or> (0xF1 \<le> a \<and> a \<le> 0xF3 \<and> is_cont b) \<or>
     (a = 0xF4 \<and> 0x80 \<le> b \<and> b \<le> 0x8F)"

definition utf8_step :: "u8 list \<Rightarrow> bool \<times> nat" where
  "utf8_step bs =
     (let a = byte_at bs 0; b = byte_at bs 1; c = byte_at bs 2; d = byte_at bs 3 in
      if a < 0x80 then (True, 1)
      else if 0xC2 \<le> a \<and> a \<le> 0xDF then (if is_cont b then (True, 2) else (False, 1))
      else if 0xE0 \<le> a \<and> a \<le> 0xEF then
        (if \<not> second3 a b then (False, 1) else if is_cont c then (True, 3) else (False, 2))
      else if 0xF0 \<le> a \<and> a \<le> 0xF4 then
        (if \<not> second4 a b then (False, 1)
         else if \<not> is_cont c then (False, 2)
         else if is_cont d then (True, 4) else (False, 3))
      else (False, 1))"

lemma utf8_step_pos: "utf8_step bs = (ok, n) \<Longrightarrow> 0 < n"
  by (auto simp: utf8_step_def Let_def split: if_splits)

definition replacement_char :: "u8 list" where
  "replacement_char = [0xEF, 0xBF, 0xBD]"

function from_utf8_lossy :: "u8 list \<Rightarrow> u8 list" where
  "from_utf8_lossy bs =
     (if bs = [] then []
      else case utf8_step bs of
             (ok, n) \<Rightarrow> (if ok then take n bs else replacement_char) @ from_utf8_lossy (drop n bs))"
  by pat_completeness auto
termination
  by (relation "measure length") (auto dest!: sym [THEN utf8_step_pos])

declare from_utf8_lossy.simps [simp del]

text \<open>A Rust \<open>String\<close> is modelled by its UTF-8 bytes as a HOL \<open>string\<close>.\<close>

definition bytes_text :: "u8 list \<Rightarrow> string" where
  "bytes_text bs = map (\<lambda>b. char_of (unat b)) bs"

definition lossy_text :: "u8 list \<Rightarrow> string" where
  "lossy_text bs = bytes_text (from_utf8_lossy bs)"

section \<open>Data\<close>

record relation_column =
  rc_name :: string
  rc_is_key :: bool
  rc_typid :: u32
  rc_typmod :: u32
  rc_type_name :: "string option"

record relation =
  rel_id :: u32
  rel_namespace :: string
  rel_name :: string
  rel_replident :: u8
  rel_columns :: "relation_column list"

datatype column_value = CNull | CUnchanged | CText string

type_synonym tuple = "column_value list"

datatype message =
    Begin u64 u32                          \<comment> \<open>\<open>final_lsn\<close>, \<open>xid\<close>\<close>
  | Commit u64 u64                         \<comment> \<open>\<open>commit_lsn\<close>, \<open>end_lsn\<close>\<close>
  | MRelation relation
  | MInsert u32 tuple
  | MUpdate u32 "(u8 \<times> tuple) option" tuple
  | MDelete u32 u8 tuple
  | MTruncate "u32 list"
  | MIgnored u8

datatype decode_error =
    Truncated nat nat nat                  \<comment> \<open>wanted, offset, have\<close>
  | UnterminatedString
  | UnknownTag u8
  | InsertExpectedN u8
  | UpdateExpectedN u8
  | DeleteExpectedKO u8
  | UnknownKind u8

section \<open>The reader\<close>

record reader =
  rd_data :: "u8 list"
  rd_pos :: nat

type_synonym 'a parser = "reader \<Rightarrow> decode_error + ('a \<times> reader)"

definition pret :: "'a \<Rightarrow> 'a parser" where
  "pret x r = Inr (x, r)"

definition pbind :: "'a parser \<Rightarrow> ('a \<Rightarrow> 'b parser) \<Rightarrow> 'b parser" where
  "pbind p f r = rbind (p r) (\<lambda>(x, r'). f x r')"

definition pfail :: "decode_error \<Rightarrow> 'a parser" where
  "pfail e r = Inl e"

definition rd_take :: "nat \<Rightarrow> u8 list parser" where
  "rd_take n r =
     (if rd_pos r + n > length (rd_data r)
      then Inl (Truncated n (rd_pos r) (length (rd_data r)))
      else Inr (take n (drop (rd_pos r) (rd_data r)), r\<lparr>rd_pos := rd_pos r + n\<rparr>))"

text \<open>\<open>from_be_bytes\<close>.\<close>

definition be_value :: "u8 list \<Rightarrow> int" where
  "be_value bs = foldl (\<lambda>a b. a * 256 + uint b) 0 bs"

definition rd_u8 :: "u8 parser" where
  "rd_u8 = pbind (rd_take 1) (\<lambda>bs. pret (bs ! 0))"

definition rd_i16 :: "int parser" where
  "rd_i16 = pbind (rd_take 2) (\<lambda>bs. pret (sint (of_int (be_value bs) :: u16)))"

definition rd_i32 :: "int parser" where
  "rd_i32 = pbind (rd_take 4) (\<lambda>bs. pret (sint (of_int (be_value bs) :: u32)))"

definition rd_u32 :: "u32 parser" where
  "rd_u32 = pbind (rd_take 4) (\<lambda>bs. pret (of_int (be_value bs)))"

definition rd_u64 :: "u64 parser" where
  "rd_u64 = pbind (rd_take 8) (\<lambda>bs. pret (of_int (be_value bs)))"

definition rd_cstring :: "string parser" where
  "rd_cstring r =
     (let rest = drop (rd_pos r) (rd_data r) in
      case position (\<lambda>b. b = 0) rest of
        None \<Rightarrow> Inl UnterminatedString
      | Some e \<Rightarrow> Inr (lossy_text (take e rest), r\<lparr>rd_pos := rd_pos r + (e + 1)\<rparr>))"

text \<open>\<open>for _ in 0..n { values.push(p()?) }\<close>.\<close>

fun prepeat :: "nat \<Rightarrow> 'a parser \<Rightarrow> 'a list parser" where
  "prepeat 0 p = pret []"
| "prepeat (Suc n) p = pbind p (\<lambda>x. pbind (prepeat n p) (\<lambda>xs. pret (x # xs)))"

definition rd_column :: "column_value parser" where
  "rd_column =
     pbind rd_u8 (\<lambda>tag.
       if tag = 0x6E then pret CNull
       else if tag = 0x75 then pret CUnchanged
       else if tag = 0x74 then
         pbind rd_i32 (\<lambda>len. pbind (rd_take (nat len)) (\<lambda>bs. pret (CText (lossy_text bs))))
       else pfail (UnknownTag tag))"

definition rd_tuple :: "tuple parser" where
  "rd_tuple = pbind rd_i16 (\<lambda>ncols. prepeat (nat ncols) rd_column)"

definition rd_relation_column :: "relation_column parser" where
  "rd_relation_column =
     pbind rd_u8 (\<lambda>flags. pbind rd_cstring (\<lambda>name. pbind rd_u32 (\<lambda>typid. pbind rd_u32 (\<lambda>typmod.
       pret \<lparr>rc_name = name, rc_is_key = (flags AND 1 = 1), rc_typid = typid, rc_typmod = typmod,
             rc_type_name = None\<rparr>))))"

section \<open>Decoding a message\<close>

text \<open>The arms of \<open>decode\<close>, one per message kind, in the source's order.\<close>

definition rd_begin :: "message parser" where
  "rd_begin = pbind rd_u64 (\<lambda>final_lsn. pbind rd_u64 (\<lambda>commit_ts. pbind rd_u32 (\<lambda>xid.
     pret (Begin final_lsn xid))))"

definition rd_commit :: "message parser" where
  "rd_commit = pbind rd_u8 (\<lambda>flags. pbind rd_u64 (\<lambda>commit_lsn. pbind rd_u64 (\<lambda>end_lsn.
     pbind rd_u64 (\<lambda>ts. pret (Commit commit_lsn end_lsn)))))"

definition rd_relation :: "message parser" where
  "rd_relation = pbind rd_u32 (\<lambda>id. pbind rd_cstring (\<lambda>namespace. pbind rd_cstring (\<lambda>name.
     pbind rd_u8 (\<lambda>replident. pbind rd_i16 (\<lambda>ncols.
       pbind (prepeat (nat ncols) rd_relation_column) (\<lambda>columns.
         pret (MRelation \<lparr>rel_id = id, rel_namespace = namespace, rel_name = name,
                          rel_replident = replident, rel_columns = columns\<rparr>)))))))"

definition rd_insert :: "message parser" where
  "rd_insert = pbind rd_u32 (\<lambda>relid. pbind rd_u8 (\<lambda>tag.
     if tag \<noteq> 0x4E then pfail (InsertExpectedN tag)
     else pbind rd_tuple (\<lambda>new. pret (MInsert relid new))))"

definition rd_update :: "message parser" where
  "rd_update = pbind rd_u32 (\<lambda>relid. pbind rd_u8 (\<lambda>tag0.
     pbind (if tag0 = 0x4B \<or> tag0 = 0x4F
            then pbind rd_tuple (\<lambda>t. pbind rd_u8 (\<lambda>tag. pret (Some (tag0, t), tag)))
            else pret (None, tag0))
       (\<lambda>(old, tag).
          if tag \<noteq> 0x4E then pfail (UpdateExpectedN tag)
          else pbind rd_tuple (\<lambda>new. pret (MUpdate relid old new)))))"

definition rd_delete :: "message parser" where
  "rd_delete = pbind rd_u32 (\<lambda>relid. pbind rd_u8 (\<lambda>key_kind.
     if key_kind \<noteq> 0x4B \<and> key_kind \<noteq> 0x4F then pfail (DeleteExpectedKO key_kind)
     else pbind rd_tuple (\<lambda>old. pret (MDelete relid key_kind old))))"

definition rd_truncate :: "message parser" where
  "rd_truncate = pbind rd_i32 (\<lambda>n. pbind rd_u8 (\<lambda>flags.
     pbind (prepeat (nat n) rd_u32) (\<lambda>relids. pret (MTruncate relids))))"

definition rd_message :: "message parser" where
  "rd_message = pbind rd_u8 (\<lambda>kind.
     if kind = 0x42 then rd_begin
     else if kind = 0x43 then rd_commit
     else if kind = 0x52 then rd_relation
     else if kind = 0x49 then rd_insert
     else if kind = 0x55 then rd_update
     else if kind = 0x44 then rd_delete
     else if kind = 0x54 then rd_truncate
     else if kind = 0x4F \<or> kind = 0x4D \<or> kind = 0x59 then pret (MIgnored kind)
     else pfail (UnknownKind kind))"

definition decode :: "u8 list \<Rightarrow> decode_error + message" where
  "decode data = rbind (rd_message \<lparr>rd_data = data, rd_pos = 0\<rparr>) (\<lambda>(msg, r). Inr msg)"

end
