(* ===== verification/Errors.thy ===== *)
theory Errors
  imports Prelude
begin

unbundle bit_operations_syntax

text \<open>
  \<open>src/src/errors.rs\<close>: the SQLSTATEs a client branches on, PostgreSQL's packing of a SQLSTATE into
  an integer, and the user-facing reports. A raised report is a value of \<open>report\<close>; the functions
  that raise (Rust's \<open>-> !\<close>) return it.
\<close>

section \<open>SQLSTATEs\<close>

definition sqlstate_lagged :: string where "sqlstate_lagged = ''NB001''"
definition sqlstate_stale :: string where "sqlstate_stale = ''NB002''"
definition sqlstate_epoch_changed :: string where "sqlstate_epoch_changed = ''NB003''"
definition sqlstate_unsupported_definition :: string where "sqlstate_unsupported_definition = ''NB004''"
definition sqlstate_failed :: string where "sqlstate_failed = ''NB006''"

lemmas sqlstate_defs = sqlstate_lagged_def sqlstate_stale_def sqlstate_epoch_changed_def
  sqlstate_unsupported_definition_def sqlstate_failed_def

text \<open>
  \<open>make_sqlstate\<close>: \<open>None\<close> is the failed assertion. The code computes on \<open>i32\<close>; the five fields are
  six bits wide each, so the sum stays below \<open>2 ^ 30\<close> and cannot overflow.
\<close>

definition sqlstate_field :: "nat \<Rightarrow> char \<Rightarrow> u32" where
  "sqlstate_field i c = push_bit (6 * i) ((of_char c - 0x30) AND 0x3F)"

definition make_sqlstate :: "string \<Rightarrow> u32 option" where
  "make_sqlstate code =
     (if length code = 5
      then Some (sum_list (map (\<lambda>(i, c). sqlstate_field i c) (enumerate 0 code)))
      else None)"

text \<open>PostgreSQL's \<open>unpack_sql_state\<close>, which every client library relies on.\<close>

definition unpack_sqlstate :: "u32 \<Rightarrow> string" where
  "unpack_sqlstate v = map (\<lambda>i. char_of (uint (drop_bit (6 * i) v AND 0x3F) + 0x30)) [0..<5]"

section \<open>Numbers as text\<close>

text \<open>Rust's \<open>Display\<close> of an \<open>i64\<close> or \<open>i32\<close>, and \<open>str::parse\<close> of the same types.\<close>

function nat_text :: "int \<Rightarrow> string" where
  "nat_text n = (if n < 10 then [char_of (n + 48)] else nat_text (n div 10) @ [char_of (n mod 10 + 48)])"
  by pat_completeness auto
termination
  by (relation "measure nat") (auto simp: nat_less_eq_zless)

declare nat_text.simps [simp del]

definition int_text :: "int \<Rightarrow> string" where
  "int_text n = (if n < 0 then CHR ''-'' # nat_text (- n) else nat_text n)"

definition digit_value :: "char \<Rightarrow> int option" where
  "digit_value c =
     (let n = of_char c :: int in if 48 \<le> n \<and> n \<le> 57 then Some (n - 48) else None)"

text \<open>
  The digit loop of \<open>from_str\<close> on a signed type of \<open>w\<close> bits: each digit is added (or subtracted
  after a minus sign) with an overflow check.
\<close>

fun parse_digits :: "nat \<Rightarrow> int \<Rightarrow> int \<Rightarrow> string \<Rightarrow> int option" where
  "parse_digits w sign acc [] = Some acc"
| "parse_digits w sign acc (c # cs) =
     (case digit_value c of
        None \<Rightarrow> None
      | Some d \<Rightarrow>
          (let v = acc * 10 + sign * d in
           if - (2 ^ (w - 1)) \<le> v \<and> v < 2 ^ (w - 1) then parse_digits w sign v cs else None))"

definition parse_int :: "nat \<Rightarrow> string \<Rightarrow> int option" where
  "parse_int w s =
     (if s = [] \<or> s = ''+'' \<or> s = ''-'' then None
      else if hd s = CHR ''-'' then parse_digits w (- 1) 0 (tl s)
      else parse_digits w 1 0 (if hd s = CHR ''+'' then tl s else s))"

section \<open>Reports\<close>

record report =
  rp_sqlstate :: string
  rp_message :: string
  rp_detail :: "string option"
  rp_hint :: "string option"

definition quoted :: "string \<Rightarrow> string" where
  "quoted name = CHR 0x22 # name @ [CHR 0x22]"

definition sql_quoted :: "string \<Rightarrow> string" where
  "sql_quoted name = CHR 0x27 # name @ [CHR 0x27]"

text \<open>
  \<open>CString::new(s).unwrap_or_default()\<close>: a text with a NUL byte becomes the empty text.
  \<open>raise_sqlstate\<close> hands the packed code to \<open>errcode\<close>; the client sees it unpacked. A code that is
  not five characters long fails the assertion of \<open>make_sqlstate\<close>; the code passes only constants.
\<close>

definition c_string :: "string \<Rightarrow> string" where
  "c_string s = (if CHR 0x00 \<in> set s then [] else s)"

definition sent_sqlstate :: "string \<Rightarrow> string" where
  "sent_sqlstate code = (case make_sqlstate code of None \<Rightarrow> [] | Some v \<Rightarrow> unpack_sqlstate v)"

definition raise_sqlstate :: "string \<Rightarrow> string \<Rightarrow> string option \<Rightarrow> string option \<Rightarrow> report" where
  "raise_sqlstate code message detail hint =
     \<lparr>rp_sqlstate = sent_sqlstate code, rp_message = c_string message,
      rp_detail = map_option c_string detail, rp_hint = map_option c_string hint\<rparr>"

text \<open>\<open>raise\<close> goes through pgrx's own report, with a code of PostgreSQL's list.\<close>

definition raise_error :: "string \<Rightarrow> string \<Rightarrow> string option \<Rightarrow> report" where
  "raise_error code message hint =
     \<lparr>rp_sqlstate = code, rp_message = message, rp_detail = None, rp_hint = hint\<rparr>"

definition shapes_hint :: string where
  "shapes_hint = ''Accepted shapes: (1) projection: SELECT expr [AS alias][, ...] FROM table [JOIN ...] '' @
     ''[WHERE predicate], where a single table'' @ [CHR 0x27] @
     ''s primary key columns are selected as plain columns; (2) aggregate: SELECT key [AS alias][, ...], '' @
     ''count(*) [AS a][, sum(expr) [AS b]]... FROM table [JOIN ...] [WHERE predicate] GROUP BY key[, ...]. '' @
     ''Expressions may only use IMMUTABLE functions and operators over the base tables'' @ [CHR 0x27] @ '' columns.''"

definition unsupported_definition :: "string \<Rightarrow> report" where
  "unsupported_definition reason =
     raise_sqlstate sqlstate_unsupported_definition (''nabla: unsupported view definition: '' @ reason) None
       (Some shapes_hint)"

definition invalid :: "string \<Rightarrow> string option \<Rightarrow> report" where
  "invalid message hint = raise_error ''22023'' message hint"

definition prerequisite :: "string \<Rightarrow> string option \<Rightarrow> report" where
  "prerequisite message hint = raise_error ''55000'' message hint"

definition lagged :: "string \<Rightarrow> int \<Rightarrow> report" where
  "lagged name oldest_retained_seq =
     raise_sqlstate sqlstate_lagged
       (''nabla: subscriber lagged behind retention for view '' @ quoted name)
       (Some (''oldest retained seq is '' @ int_text oldest_retained_seq))
       (Some ''resync from the view and continue from nabla.status(...).current_seq'')"

definition or_unrecorded :: "string option \<Rightarrow> string" where
  "or_unrecorded reason = (case reason of None \<Rightarrow> ''reason not recorded'' | Some r \<Rightarrow> r)"

definition stale :: "string \<Rightarrow> string option \<Rightarrow> report" where
  "stale name reason =
     raise_sqlstate sqlstate_stale (''nabla: view '' @ quoted name @ '' is stale'')
       (Some (or_unrecorded reason))
       (Some (''run nabla.refresh('' @ sql_quoted name @ '') after fixing the cause''))"

definition epoch_changed :: "string \<Rightarrow> int \<Rightarrow> int \<Rightarrow> report" where
  "epoch_changed name frm to =
     raise_sqlstate sqlstate_epoch_changed (''nabla: view '' @ quoted name @ '' epoch changed'')
       (Some (''epoch '' @ int_text frm @ '' -> '' @ int_text to)) (Some ''resync from the view'')"

definition failed :: "string \<Rightarrow> string option \<Rightarrow> report" where
  "failed name reason =
     raise_sqlstate sqlstate_failed (''nabla: view '' @ quoted name @ '' failed to build'')
       (Some (or_unrecorded reason))
       (Some (''fix the cause, then run nabla.refresh('' @ sql_quoted name @
          '') or nabla.drop_view('' @ sql_quoted name @ '')''))"

section \<open>Text round trips\<close>

definition is_digit :: "char \<Rightarrow> bool" where
  "is_digit c \<longleftrightarrow> digit_value c \<noteq> None"

lemma digit_value_char [simp]: "0 \<le> d \<Longrightarrow> d < 10 \<Longrightarrow> digit_value (char_of (d + 48)) = Some d"
  by (simp add: digit_value_def Let_def)

lemma nat_text_digits: "0 \<le> n \<Longrightarrow> c \<in> set (nat_text n) \<Longrightarrow> is_digit c"
proof (induction n rule: nat_text.induct)
  case (1 n)
  then show ?case
    by (subst (asm) nat_text.simps) (auto simp: is_digit_def split: if_splits)
qed

lemma nat_text_neq_Nil [simp]: "nat_text n \<noteq> []"
  by (subst nat_text.simps) simp

lemma parse_digits_append:
  "parse_digits w sign acc (s @ t) = Option.bind (parse_digits w sign acc s) (\<lambda>n. parse_digits w sign n t)"
  by (induction w sign acc s rule: parse_digits.induct) (auto simp: Let_def split: option.splits)

lemma parse_digits_nat_text:
  assumes "0 \<le> n" and "sign = 1 \<or> sign = - 1" and "- (2 ^ (w - 1)) \<le> sign * n" and "sign * n < 2 ^ (w - 1)"
  shows "parse_digits w sign 0 (nat_text n) = Some (sign * n)"
  using assms
proof (induction n rule: nat_text.induct)
  case (1 n)
  show ?case
  proof (cases "n < 10")
    case True
    with "1.prems" show ?thesis by (subst nat_text.simps) simp
  next
    case False
    define q where "q = n div 10"
    have q: "0 \<le> q" "q \<le> n" and n: "n = q * 10 + n mod 10" using False by (auto simp: q_def)
    have "- (2 ^ (w - 1)) \<le> sign * q" "sign * q < 2 ^ (w - 1)"
      using "1.prems" q by auto
    with 1 False q have "parse_digits w sign 0 (nat_text q) = Some (sign * q)"
      unfolding q_def by simp
    moreover have "sign * q * 10 + sign * (n mod 10) = sign * n"
      using n by (metis distrib_left mult.assoc)
    ultimately show ?thesis
      using False "1.prems" by (simp add: nat_text.simps [of n] parse_digits_append flip: q_def)
  qed
qed

lemma not_digit [simp]: "\<not> is_digit (CHR ''-'')" "\<not> is_digit (CHR ''+'')" "\<not> is_digit (CHR '' '')"
  by (simp_all add: is_digit_def digit_value_def)

lemma nat_text_plain:
  assumes "0 \<le> n"
  shows "hd (nat_text n) \<noteq> CHR ''-''" "hd (nat_text n) \<noteq> CHR ''+''"
    "nat_text n \<noteq> ''-''" "nat_text n \<noteq> ''+''"
proof -
  have "is_digit (hd (nat_text n))" by (rule nat_text_digits [OF assms]) simp
  then show "hd (nat_text n) \<noteq> CHR ''-''" "hd (nat_text n) \<noteq> CHR ''+''" by auto
  then show "nat_text n \<noteq> ''-''" "nat_text n \<noteq> ''+''" by auto
qed

lemma parse_int_text:
  assumes "- (2 ^ (w - 1)) \<le> n" and "n < 2 ^ (w - 1)"
  shows "parse_int w (int_text n) = Some n"
proof (cases "n < 0")
  case True
  then have "parse_digits w (- 1) 0 (nat_text (- n)) = Some (- 1 * - n)"
    using assms by (intro parse_digits_nat_text) auto
  with True show ?thesis by (simp add: parse_int_def int_text_def)
next
  case False
  then have "parse_digits w 1 0 (nat_text n) = Some (1 * n)"
    using assms by (intro parse_digits_nat_text) (auto intro: order_trans [of _ 0])
  with False nat_text_plain [of n] show ?thesis by (simp add: parse_int_def int_text_def)
qed

lemma int_text_no_space: "CHR '' '' \<notin> set (int_text n)"
  using nat_text_digits [of n "CHR '' ''"] nat_text_digits [of "- n" "CHR '' ''"]
  by (auto simp: int_text_def)

section \<open>Packing\<close>

lemma sqlstate_field_value:
  assumes "0x30 \<le> (of_char c :: int)" and "(of_char c :: int) < 0x70"
  shows "(of_char c - 0x30 :: u32) AND 0x3F = of_int (of_char c - 0x30)"
proof -
  have "(of_char c - 0x30 :: u32) = of_int (of_char c - 0x30)"
    by (simp add: of_int_of_char)
  moreover have "(of_int (of_char c - 0x30) :: u32) AND 0x3F = of_int ((of_char c - 0x30) AND 0x3F)"
    using of_int_and_eq [of "of_char c - 0x30" "0x3F"] by (metis of_int_numeral)
  moreover have "(of_char c - 0x30 :: int) AND 0x3F = take_bit 6 (of_char c - 0x30)"
    by (simp add: take_bit_eq_mask mask_eq_exp_minus_1)
  moreover have "take_bit 6 (of_char c - 0x30 :: int) = of_char c - 0x30"
    using assms by (intro take_bit_int_eq_self) auto
  ultimately show ?thesis by simp
qed

text \<open>Five digits in base 64, read back one by one.\<close>

lemma digit_step:
  fixes d x :: int
  assumes "0 \<le> d" "d < 64"
  shows "(d + 64 * x) mod 64 = d" and "(d + 64 * x) div 64 = x"
  using assms by simp_all

lemma base64_digit:
  fixes d0 d1 d2 d3 d4 :: int
  assumes "0 \<le> d0" "d0 < 64" "0 \<le> d1" "d1 < 64" "0 \<le> d2" "d2 < 64" "0 \<le> d3" "d3 < 64"
    "0 \<le> d4" "d4 < 64"
  defines "v \<equiv> d0 + 64 * (d1 + 64 * (d2 + 64 * (d3 + 64 * d4)))"
  shows "v mod 64 = d0" "v div 64 mod 64 = d1" "v div 4096 mod 64 = d2" "v div 262144 mod 64 = d3"
    "v div 16777216 mod 64 = d4" "0 \<le> v" "v < 2 ^ 32"
proof -
  have 1: "v div 64 = d1 + 64 * (d2 + 64 * (d3 + 64 * d4))"
    unfolding v_def using assms by (simp only: digit_step)
  have 2: "v div 4096 = d2 + 64 * (d3 + 64 * d4)"
    using zdiv_zmult2_eq [of 64 v 64] digit_step(2) [OF assms(3,4)] unfolding 1 by simp
  have 3: "v div 262144 = d3 + 64 * d4"
    using zdiv_zmult2_eq [of 64 v 4096] digit_step(2) [OF assms(5,6)] unfolding 2 by simp
  have 4: "v div 16777216 = d4"
    using zdiv_zmult2_eq [of 64 v 262144] digit_step(2) [OF assms(7,8)] unfolding 3 by simp
  show "v mod 64 = d0" "v div 64 mod 64 = d1" "v div 4096 mod 64 = d2" "v div 262144 mod 64 = d3"
    "v div 16777216 mod 64 = d4"
    unfolding 1 2 3 4 using assms by (simp_all only: v_def digit_step) simp
  show "0 \<le> v" "v < 2 ^ 32"
    using assms unfolding v_def by simp_all
qed

lemma unpack_field:
  assumes "0 \<le> v" and "v < 2 ^ 32"
  shows "uint (drop_bit n (of_int v :: u32) AND 0x3F) = v div 2 ^ n mod 64"
proof -
  have v: "uint (of_int v :: u32) = v"
    using assms by (simp add: unsigned_of_int take_bit_int_eq_self)
  have "uint (drop_bit n (of_int v :: u32) AND 0x3F) = drop_bit n v AND 0x3F"
    by (simp only: unsigned_and_eq uint_drop_bit v) simp
  also have "\<dots> = take_bit 6 (drop_bit n v)"
    by (simp add: take_bit_eq_mask mask_eq_exp_minus_1)
  finally show ?thesis by (simp add: take_bit_eq_mod drop_bit_eq_div)
qed

text \<open>The characters PostgreSQL uses in SQLSTATEs lie in the six-bit range above \<open>0\<close>.\<close>

definition sqlstate_char :: "char \<Rightarrow> bool" where
  "sqlstate_char c \<longleftrightarrow> 0x30 \<le> (of_char c :: int) \<and> (of_char c :: int) < 0x70"

lemma sqlstate_field_int:
  "sqlstate_char c \<Longrightarrow> sqlstate_field i c = of_int ((of_char c - 0x30) * 2 ^ (6 * i))"
  unfolding sqlstate_char_def sqlstate_field_def
  by (subst sqlstate_field_value) (simp_all add: push_bit_eq_mult)

lemma make_unpack_sqlstate:
  assumes "length code = 5" and "\<forall>c \<in> set code. sqlstate_char c"
  shows "\<exists>v. make_sqlstate code = Some v \<and> uint v < 2 ^ 30 \<and> unpack_sqlstate v = code"
proof -
  obtain c0 c1 c2 c3 c4 where code: "code = [c0, c1, c2, c3, c4]"
    using assms(1) by (auto simp: length_Suc_conv eval_nat_numeral)
  define d where "d c = (of_char c - 0x30 :: int)" for c
  have d: "0 \<le> d c" "d c < 64" if "c \<in> set code" for c
    using assms(2) that by (auto simp: d_def sqlstate_char_def)
  define v where "v = d c0 + 64 * (d c1 + 64 * (d c2 + 64 * (d c3 + 64 * d c4)))"
  note digit = base64_digit [of "d c0" "d c1" "d c2" "d c3" "d c4", folded v_def]
  have dig: "v mod 64 = d c0" "v div 64 mod 64 = d c1" "v div 4096 mod 64 = d c2"
    "v div 262144 mod 64 = d c3" "v div 16777216 mod 64 = d c4" "0 \<le> v" "v < 2 ^ 32"
    by (rule digit; use d in \<open>simp add: code\<close>)+
  have field: "sqlstate_field i c = of_int (d c * 2 ^ (6 * i))" if "c \<in> {c0, c1, c2, c3, c4}" for i c
    using assms(2) that unfolding d_def by (intro sqlstate_field_int) (auto simp: code)
  have made: "make_sqlstate code = Some (of_int v)"
  proof -
    have "sum_list (map (\<lambda>(i, c). sqlstate_field i c) (enumerate 0 code)) =
      of_int (d c0 * 2 ^ 0 + (d c1 * 2 ^ 6 + (d c2 * 2 ^ 12 + (d c3 * 2 ^ 18 + d c4 * 2 ^ 24))))"
      by (simp add: code field)
    also have "\<dots> = of_int v" by (simp add: v_def)
    finally show ?thesis using assms(1) by (simp add: make_sqlstate_def)
  qed
  have "d c0 \<le> 63" "d c1 \<le> 63" "d c2 \<le> 63" "d c3 \<le> 63" "d c4 \<le> 63"
    using d(2) [of c0] d(2) [of c1] d(2) [of c2] d(2) [of c3] d(2) [of c4] by (auto simp: code)
  then have "v < 1073741824"
    unfolding v_def by simp
  then have "uint (of_int v :: u32) < 2 ^ 30"
    using dig(6,7) by (simp add: unsigned_of_int take_bit_int_eq_self)
  moreover have "unpack_sqlstate (of_int v) = code"
  proof -
    have "[0..<5] = [0, 1, 2, 3, 4 :: nat]" by (simp add: upt_rec)
    then have "unpack_sqlstate (of_int v) = map (\<lambda>c. char_of (d c + 0x30)) code"
      unfolding unpack_sqlstate_def unpack_field [OF dig(6,7)] code by (simp add: dig(1-5))
    then show ?thesis by (simp add: d_def map_idI)
  qed
  ultimately show ?thesis using made by blast
qed

lemma sent_sqlstates [simp]:
  "sent_sqlstate sqlstate_lagged = ''NB001''" "sent_sqlstate sqlstate_stale = ''NB002''"
  "sent_sqlstate sqlstate_epoch_changed = ''NB003''" "sent_sqlstate sqlstate_unsupported_definition = ''NB004''"
  "sent_sqlstate sqlstate_failed = ''NB006''"
proof -
  have sent: "sent_sqlstate code = code" if "length code = 5" "\<forall>c \<in> set code. sqlstate_char c" for code
    using make_unpack_sqlstate [OF that] by (auto simp: sent_sqlstate_def)
  show "sent_sqlstate sqlstate_lagged = ''NB001''" "sent_sqlstate sqlstate_stale = ''NB002''"
    "sent_sqlstate sqlstate_epoch_changed = ''NB003''" "sent_sqlstate sqlstate_unsupported_definition = ''NB004''"
    "sent_sqlstate sqlstate_failed = ''NB006''"
    unfolding sqlstate_defs by (rule sent; simp add: sqlstate_char_def)+
qed

section \<open>Properties\<close>

text \<open>
  Packing a SQLSTATE is lossless: for a five-character code in PostgreSQL's character range,
  the assertion holds, the packed value fits in thirty bits (no \<open>i32\<close> overflow), and unpacking it
  the way PostgreSQL does gives the code back. So the client sees exactly the codes raised here.
\<close>

theorem sqlstate_roundtrip:
  assumes "length code = 5" and "\<forall>c \<in> set code. sqlstate_char c"
  shows "\<exists>v. make_sqlstate code = Some v \<and> uint v < 2 ^ 30 \<and> unpack_sqlstate v = code"
  using assms by (rule make_unpack_sqlstate)

theorem sqlstate_roundtrip_witness:
  "\<exists>v. make_sqlstate sqlstate_lagged = Some v \<and> uint v < 2 ^ 30 \<and> unpack_sqlstate v = ''NB001''"
  using sqlstate_roundtrip [of sqlstate_lagged]
  by (simp add: sqlstate_lagged_def sqlstate_char_def)

end
