(* ===== verification/Apply.thy ===== *)
theory Apply
  imports Sql Net Pgoutput Errors
begin

text \<open>
  \<open>src/src/apply.rs\<close>: planning (evaluate the view's own query on the decoded row, joined with the
  shadows of the other relations) and execution (apply the planned rows to the storage table and
  return the subscriber deltas). A storage table is the list of its rows; a SQL statement is its
  effect on that list. An error of PostgreSQL or an \<open>Err\<close> of the code is \<open>Inl\<close> with its message;
  an out-of-range index, which panics in Rust, is an error too: the subtransaction the code runs in
  catches it.
\<close>

section \<open>Planned operations\<close>

text \<open>
  \<open>Op::DeleteByKey\<close> keeps its conditions \<open>v.column = $n::type\<close> as pairs of column and type.
\<close>

datatype op =
    Row int string                                        \<comment> \<open>sign, row JSON\<close>
  | DeleteByKey "(string \<times> string) list" "string option list"

datatype planned = Ops "op list" | PlannedStale string

section \<open>Sources\<close>

definition rel_column_index :: "relation \<Rightarrow> string \<Rightarrow> nat option" where
  "rel_column_index rel name = position (\<lambda>c. rc_name c = name) (rel_columns rel)"

text \<open>
  \<open>values_source\<close>: the columns with their resolved types, or an error naming the first column whose
  type is not resolved.
\<close>

definition values_source :: "relation \<Rightarrow> string + (string \<times> string) list" where
  "values_source rel =
     rmap (\<lambda>c. ok_or (''type of column '' @ rc_name c @ '' not resolved'')
                 (map_option (\<lambda>ty. (rc_name c, ty)) (rc_type_name c)))
       (rel_columns rel)"

fun row_args :: "tuple \<Rightarrow> string option list" where
  "row_args [] = []"
| "row_args (CText s # t) = Some s # row_args t"
| "row_args (v # t) = None # row_args t"

text \<open>
  The row \<open>(VALUES ($1::t1, ...)) AS alias(c1, ...)\<close> stands for: each argument cast to its type, NULL
  staying NULL; a parameter that is not supplied is an error.
\<close>

fun values_row :: "pg \<Rightarrow> (string \<times> string) list \<Rightarrow> string option list \<Rightarrow> string + row" where
  "values_row pg [] args = Inr []"
| "values_row pg ((c, ty) # src) [] = Inl ''there is no such parameter''"
| "values_row pg ((c, ty) # src) (a # args) =
     rbind (case a of None \<Rightarrow> Inr Null | Some s \<Rightarrow> pg_cast pg ty s) (\<lambda>d.
       rbind (values_row pg src args) (\<lambda>r. Inr ((c, d) # r)))"

section \<open>Unchanged TOAST values\<close>

datatype resolve_error = StaleReason string | IndexPanic

definition toast_reason :: "string \<Rightarrow> string" where
  "toast_reason c = ''unchanged TOAST value for column '' @ c @
     '' could not be recovered (REPLICA IDENTITY FULL is required)''"

definition resolve_column :: "relation \<Rightarrow> tuple option \<Rightarrow> (string \<Rightarrow> bool) \<Rightarrow> nat \<Rightarrow> column_value \<Rightarrow>
    resolve_error + column_value" where
  "resolve_column rel old mentions i v =
     (if v \<noteq> CUnchanged then Inr v
      else case nth_opt (rel_columns rel) i of
        None \<Rightarrow> Inl IndexPanic
      | Some c \<Rightarrow>
          (case Option.bind old (\<lambda>t. nth_opt t i) of
             Some ov \<Rightarrow>
               if ov \<noteq> CUnchanged then Inr ov
               else if mentions (rc_name c) then Inl (StaleReason (toast_reason (rc_name c)))
               else Inr CNull
           | None \<Rightarrow>
               if mentions (rc_name c) then Inl (StaleReason (toast_reason (rc_name c)))
               else Inr CNull))"

definition resolve_unchanged :: "relation \<Rightarrow> tuple \<Rightarrow> tuple option \<Rightarrow> (string \<Rightarrow> bool) \<Rightarrow>
    resolve_error + tuple" where
  "resolve_unchanged rel new old mentions =
     rmap (\<lambda>(i, v). resolve_column rel old mentions i v) (enumerate 0 new)"

section \<open>Planning\<close>

text \<open>\<open>delta_rows\<close>: the view's own query over a FROM list, each result row as JSON.\<close>

definition delta_rows :: "pg \<Rightarrow> view_spec \<Rightarrow> env list \<Rightarrow> int \<Rightarrow> string + op list" where
  "delta_rows pg spec envs sign =
     rbind (sql_select pg (sp_select_list spec) (sp_predicate spec) (sp_group_by spec) envs)
       (\<lambda>rows. Inr (map (\<lambda>r. Row sign (pg_to_jsonb pg r)) rows))"

text \<open>The decoded row as a row of its relation.\<close>

definition source_row :: "pg \<Rightarrow> relation \<Rightarrow> tuple \<Rightarrow> string + row" where
  "source_row pg rel t = rbind (values_source rel) (\<lambda>src. values_row pg src (row_args t))"

definition plan_single_insert :: "pg \<Rightarrow> view_spec \<Rightarrow> relation \<Rightarrow> tuple \<Rightarrow> string + op list" where
  "plan_single_insert pg spec rel new =
     rbind (source_row pg rel new) (\<lambda>r. delta_rows pg spec [[(sp_base_relname spec, r)]] 1)"

text \<open>The loop over the primary key columns and their view columns.\<close>

fun key_conditions :: "relation \<Rightarrow> tuple \<Rightarrow> (string \<times> string) list \<Rightarrow>
    string + (string + ((string \<times> string) list \<times> string option list))" where
  "key_conditions rel old [] = Inr (Inr ([], []))"
| "key_conditions rel old ((pk, view_col) # pks) =
     rbind (ok_or (''primary key column '' @ pk @ '' missing'') (rel_column_index rel pk)) (\<lambda>idx.
     rbind (ok_or ''type not resolved'' (rc_type_name (rel_columns rel ! idx))) (\<lambda>ty.
     rbind (ok_or ''index out of bounds'' (nth_opt old idx)) (\<lambda>v.
       case v of
         CText s \<Rightarrow>
           rbind (key_conditions rel old pks) (\<lambda>rest. Inr (case rest of
             Inl reason \<Rightarrow> Inl reason
           | Inr (conds, vals) \<Rightarrow> Inr ((view_col, ty) # conds, Some s # vals)))
       | _ \<Rightarrow> Inr (Inl (''primary key column '' @ pk @ '' missing from the decoded old row'')))))"

definition plan_single_delete :: "pg \<Rightarrow> view_spec \<Rightarrow> relation \<Rightarrow> u8 \<Rightarrow> tuple \<Rightarrow> string + planned" where
  "plan_single_delete pg spec rel key_kind old =
     (case sp_shape spec of
        Projection \<Rightarrow>
          rbind (key_conditions rel old (zip (sp_pk_columns spec) (sp_pk_view_columns spec)))
            (\<lambda>res. Inr (case res of
               Inl reason \<Rightarrow> PlannedStale reason
             | Inr (conds, vals) \<Rightarrow> Ops [DeleteByKey conds vals]))
      | Aggregate \<Rightarrow>
          if key_kind \<noteq> 0x4F
          then Inr (PlannedStale ''old row not available; the base table needs REPLICA IDENTITY FULL'')
          else rbind (source_row pg rel old) (\<lambda>r.
               rbind (delta_rows pg spec [[(sp_base_relname spec, r)]] (- 1)) (\<lambda>ops. Inr (Ops ops))))"

text \<open>
  \<open>plan_join\<close>: the FROM list of a join view with the decoded row in place of one relation and the
  shadow tables (\<open>shadows\<close>, by relation) for the others.
\<close>

definition join_sources :: "(u32 \<Rightarrow> row list) \<Rightarrow> nat \<Rightarrow> row \<Rightarrow> base_relation list \<Rightarrow>
    (string \<times> row list) list" where
  "join_sources shadows rel_index r rels =
     map (\<lambda>(i, b). (br_alias b, if i = rel_index then [r] else shadows (br_oid b))) (enumerate 0 rels)"

definition plan_join :: "pg \<Rightarrow> (u32 \<Rightarrow> row list) \<Rightarrow> view_spec \<Rightarrow> nat \<Rightarrow> relation \<Rightarrow> tuple \<Rightarrow> int \<Rightarrow>
    string + op list" where
  "plan_join pg shadows spec rel_index rel t sign =
     rbind (source_row pg rel t) (\<lambda>r.
       delta_rows pg spec (cross (join_sources shadows rel_index r (sp_relations spec))) sign)"

section \<open>Execution\<close>

text \<open>The columns of the storage table, in order: the select list's aliases.\<close>

definition table_columns :: "view_spec \<Rightarrow> string list" where
  "table_columns spec = map snd (sp_select_list spec)"

text \<open>
  The unique index of \<open>view_ddl\<close>: two rows conflict when their identity columns are equal, NULLs
  counting as equal for an aggregate (\<open>NULLS NOT DISTINCT\<close>) and as different for a projection.
\<close>

definition conflicts :: "view_spec \<Rightarrow> row \<Rightarrow> row \<Rightarrow> bool" where
  "conflicts spec v w \<longleftrightarrow>
     (case sp_shape spec of
        Projection \<Rightarrow> \<forall>c \<in> set (sp_pk_view_columns spec). sql_eq (col v c) (col w c)
      | Aggregate \<Rightarrow> \<forall>c \<in> set (map oc_alias (sp_columns spec)). not_distinct (col v c) (col w c))"

text \<open>\<open>DELETE FROM view AS v WHERE conds RETURNING to_jsonb(v)::text\<close>.\<close>

definition delete_where :: "pg \<Rightarrow> (row \<Rightarrow> bool) \<Rightarrow> row list \<Rightarrow> row list \<times> delta list" where
  "delete_where pg p rows =
     (filter (\<lambda>v. \<not> p v) rows,
      map (\<lambda>v. \<lparr>d_op = CHR ''D'', d_row_json = pg_to_jsonb pg v\<rparr>) (filter p rows))"

text \<open>The typed values of a keyed delete; an empty condition list is a syntax error.\<close>

fun key_datums :: "pg \<Rightarrow> (string \<times> string) list \<Rightarrow> string option list \<Rightarrow> string + (string \<times> datum) list" where
  "key_datums pg [] vals = Inr []"
| "key_datums pg ((c, ty) # conds) [] = Inl ''there is no such parameter''"
| "key_datums pg ((c, ty) # conds) (v # vals) =
     rbind (case v of None \<Rightarrow> Inr Null | Some s \<Rightarrow> pg_cast pg ty s) (\<lambda>d.
       rbind (key_datums pg conds vals) (\<lambda>r. Inr ((c, d) # r)))"

definition delete_by_key :: "pg \<Rightarrow> (string \<times> string) list \<Rightarrow> string option list \<Rightarrow> row list \<Rightarrow>
    string + (row list \<times> delta list)" where
  "delete_by_key pg conds vals rows =
     (if conds = [] then Inl ''syntax error''
      else rbind (key_datums pg conds vals) (\<lambda>ks.
        Inr (delete_where pg (\<lambda>v. \<forall>(c, d) \<in> set ks. sql_eq (col v c) d) rows)))"

definition projection_row :: "pg \<Rightarrow> view_spec \<Rightarrow> int \<Rightarrow> string \<Rightarrow> row list \<Rightarrow>
    string + (row list \<times> delta list)" where
  "projection_row pg spec sign row_json rows =
     (if sign > 0 then
        rbind (pg_populate pg (table_columns spec) row_json) (\<lambda>r.
          if \<exists>v \<in> set rows. conflicts spec v r
          then Inl ''duplicate key value violates unique constraint''
          else Inr (rows @ [r], [\<lparr>d_op = CHR ''I'', d_row_json = pg_to_jsonb pg r\<rparr>]))
      else if sp_pk_view_columns spec = [] then Inl ''syntax error''
      else
        rbind (pg_populate pg (table_columns spec) row_json) (\<lambda>d.
          Inr (delete_where pg
            (\<lambda>v. \<forall>c \<in> set (sp_pk_view_columns spec). sql_eq (col v c) (col d c)) rows)))"

text \<open>
  The upsert of \<open>aggregate_row\<close>: the values inserted (\<open>EXCLUDED\<close>), and the new values of an
  existing group, all computed from the row before the update.
\<close>

definition excluded :: "view_spec \<Rightarrow> string \<Rightarrow> int \<Rightarrow> row \<Rightarrow> row" where
  "excluded spec count sign src =
     map (\<lambda>c. (oc_alias c, col src (oc_alias c))) (sp_columns spec) @
     [(count, sql_scale sign (col src count))] @
     map (\<lambda>c. (oc_alias c, sql_scale sign (col src (oc_alias c)))) (sp_counts spec) @
     concat (map (\<lambda>su. [(su_alias su, sql_scale sign (col src (su_alias su))),
                        (su_counter su, sql_scale sign (col src (su_counter su)))]) (sp_sums spec))"

definition sum_update :: "datum \<Rightarrow> datum \<Rightarrow> datum \<Rightarrow> datum \<Rightarrow> datum" where
  "sum_update va vnn ea enn =
     (if sql_add vnn enn = Num 0 then Null
      else if ea = Null then va
      else if va = Null then ea
      else sql_add va ea)"

definition updates :: "view_spec \<Rightarrow> string \<Rightarrow> row \<Rightarrow> row \<Rightarrow> row" where
  "updates spec count v e =
     [(count, sql_add (col v count) (col e count))] @
     map (\<lambda>c. (oc_alias c, sql_add (col v (oc_alias c)) (col e (oc_alias c)))) (sp_counts spec) @
     concat (map (\<lambda>su.
       [(su_alias su, sum_update (col v (su_alias su)) (col v (su_counter su))
                        (col e (su_alias su)) (col e (su_counter su))),
        (su_counter su, sql_add (col v (su_counter su)) (col e (su_counter su)))]) (sp_sums spec))"

definition set_columns :: "row \<Rightarrow> row \<Rightarrow> row" where
  "set_columns v ups = map (\<lambda>(c, d). (c, case map_of ups c of None \<Rightarrow> d | Some d' \<Rightarrow> d')) v"

text \<open>A row of the table from the inserted columns; a column that is not inserted is NULL.\<close>

definition table_row :: "view_spec \<Rightarrow> row \<Rightarrow> row" where
  "table_row spec e = map (\<lambda>c. (c, col e c)) (table_columns spec)"

definition upsert :: "view_spec \<Rightarrow> string \<Rightarrow> int \<Rightarrow> row \<Rightarrow> row list \<Rightarrow> row list \<times> row" where
  "upsert spec count sign src rows =
     (let e = excluded spec count sign src in
      case position (\<lambda>v. conflicts spec v e) rows of
        None \<Rightarrow> (rows @ [table_row spec e], table_row spec e)
      | Some i \<Rightarrow>
          (let v = set_columns (rows ! i) (updates spec count (rows ! i) e) in (rows[i := v], v)))"

text \<open>\<open>str::rsplit_once(' ')\<close>.\<close>

definition rsplit_space :: "string \<Rightarrow> (string \<times> string) option" where
  "rsplit_space s =
     (case position (\<lambda>c. c = CHR '' '') (rev s) of
        None \<Rightarrow> None
      | Some i \<Rightarrow> Some (take (length s - 1 - i) s, drop (length s - i) s))"

text \<open>
  \<open>to_jsonb(v)::text || ' ' || v.count::text\<close>: NULL (and then skipped) when the count is NULL.
\<close>

definition returned_text :: "pg \<Rightarrow> string \<Rightarrow> row \<Rightarrow> string option" where
  "returned_text pg count v =
     (case col v count of
        Null \<Rightarrow> None
      | Num n \<Rightarrow> Some (pg_to_jsonb pg v @ '' '' @ int_text n)
      | d \<Rightarrow> Some (pg_to_jsonb pg v @ '' '' @ pg_text pg d))"

text \<open>\<open>count <= 0\<close>, of the DELETE that drops an emptied group.\<close>

definition not_positive :: "datum \<Rightarrow> bool" where
  "not_positive d = (case d of Num n \<Rightarrow> n \<le> 0 | _ \<Rightarrow> False)"

lemma not_positive_iff [simp]: "not_positive d \<longleftrightarrow> (\<exists>n. d = Num n \<and> n \<le> 0)"
  by (cases d) (simp_all add: not_positive_def)

definition aggregate_row :: "pg \<Rightarrow> view_spec \<Rightarrow> int \<Rightarrow> string \<Rightarrow> row list \<Rightarrow>
    string + (row list \<times> delta list)" where
  "aggregate_row pg spec sign row_json rows =
     rbind (ok_or ''aggregate view without count(*)'' (sp_count_alias spec)) (\<lambda>count.
     rbind (pg_populate pg (table_columns spec) row_json) (\<lambda>src.
       let previous = filter (\<lambda>v. \<forall>c \<in> set (sp_columns spec).
                        not_distinct (col v (oc_alias c)) (col src (oc_alias c))) rows;
           (rows', v) = upsert spec count sign src rows
       in case returned_text pg count v of
            None \<Rightarrow> Inr (rows', [])
          | Some returned \<Rightarrow>
              rbind (ok_or ''unexpected RETURNING shape'' (rsplit_space returned)) (\<lambda>(new_row, count_text).
              rbind (ok_or ''bad count'' (parse_int 64 count_text)) (\<lambda>new_count.
                let dels = map (\<lambda>v. \<lparr>d_op = CHR ''D'', d_row_json = pg_to_jsonb pg v\<rparr>) previous
                in if new_count > 0
                   then Inr (rows', dels @ [\<lparr>d_op = CHR ''I'', d_row_json = new_row\<rparr>])
                   else Inr (filter (\<lambda>v. \<not> not_positive (col v count)) rows', dels)))))"

definition execute_op :: "pg \<Rightarrow> view_spec \<Rightarrow> op \<Rightarrow> row list \<times> delta list \<Rightarrow>
    string + (row list \<times> delta list)" where
  "execute_op pg spec operation st = (case st of (rows, deltas) \<Rightarrow>
     rbind (case operation of
              DeleteByKey conds vals \<Rightarrow> delete_by_key pg conds vals rows
            | Row sign row_json \<Rightarrow>
                (case sp_shape spec of
                   Projection \<Rightarrow> projection_row pg spec sign row_json rows
                 | Aggregate \<Rightarrow> aggregate_row pg spec sign row_json rows))
       (\<lambda>(rows', ds). Inr (rows', deltas @ ds)))"

definition execute :: "pg \<Rightarrow> view_spec \<Rightarrow> op list \<Rightarrow> row list \<Rightarrow> string + (row list \<times> delta list)" where
  "execute pg spec ops rows = rfold (execute_op pg spec) ops (rows, [])"

end
