(* ===== verification/Apply_Facts.thy ===== *)
theory Apply_Facts
  imports Apply "HOL-Library.Multiset"
begin

text \<open>
  Facts on execution: what one planned row does to a storage table that holds the result of the
  view's query. \<open>agg_rep\<close> and \<open>proj_rep\<close> say that a table represents the query over a list of
  environments (the rows of the FROM list that satisfy the predicate); the step lemmas say that
  adding or removing the rows of a delta query keeps the representation.
\<close>

section \<open>Returned text\<close>

lemma rsplit_space_append:
  assumes "CHR '' '' \<notin> set b"
  shows "rsplit_space (a @ '' '' @ b) = Some (a, b)"
proof -
  have "position (\<lambda>c. c = CHR '' '') (xs @ CHR '' '' # ys) = Some (length xs)"
    if "CHR '' '' \<notin> set xs" for xs ys
    using that by (induction xs) auto
  from this [of "rev b" "rev a"] assms show ?thesis
    by (simp add: rsplit_space_def)
qed

section \<open>Columns of rows\<close>

lemma col_map:
  assumes "distinct (map f xs)" and "x \<in> set xs"
  shows "col (map (\<lambda>x. (f x, g x)) xs) (f x) = g x"
proof -
  have "map_of (map (\<lambda>x. (f x, g x)) xs) (f x) = Some (g x)"
    using assms by (intro map_of_is_SomeI) (auto simp: comp_def)
  then show ?thesis by (simp add: col_def)
qed

lemma col_out_row:
  assumes "distinct (map snd items)" and "(t, a) \<in> set items"
  shows "col (out_row pg items envs) a = item pg t envs"
  using col_map [OF assms, of "\<lambda>x. item pg (fst x) envs"]
  by (simp add: out_row_def case_prod_unfold)

lemma map_fst_out_row: "map fst (out_row pg items envs) = map snd items"
  by (simp add: out_row_def case_prod_unfold comp_def)

lemma map_of_Some_col: "map_of r c = Some d \<Longrightarrow> col r c = d"
  by (simp add: col_def)

section \<open>Aggregate specifications\<close>

text \<open>
  The select list of an aggregate view: its keys, \<open>count(*)\<close>, its counts, and its sums with their
  counters, in any order, with distinct aliases, grouped by the keys' expressions.
\<close>

definition agg_items :: "view_spec \<Rightarrow> string \<Rightarrow> (target \<times> string) list" where
  "agg_items spec cnt =
     map (\<lambda>c. (TExpr (oc_expr c), oc_alias c)) (sp_columns spec) @ [(TCountStar, cnt)] @
     map (\<lambda>c. (TCount (oc_expr c), oc_alias c)) (sp_counts spec) @
     concat (map (\<lambda>su. [(TSum (su_expr su), su_alias su), (TCount (su_expr su), su_counter su)])
       (sp_sums spec))"

definition wf_aggregate :: "view_spec \<Rightarrow> bool" where
  "wf_aggregate spec \<longleftrightarrow>
     sp_shape spec = Aggregate \<and> sp_group_by spec = Some (map oc_expr (sp_columns spec)) \<and>
     distinct (map snd (sp_select_list spec)) \<and>
     (case sp_count_alias spec of
        None \<Rightarrow> False
      | Some cnt \<Rightarrow> mset (sp_select_list spec) = mset (agg_items spec cnt))"

lemma wf_aggregate_iff:
  "wf_aggregate spec \<longleftrightarrow>
     sp_shape spec = Aggregate \<and> sp_group_by spec = Some (map oc_expr (sp_columns spec)) \<and>
     distinct (map snd (sp_select_list spec)) \<and>
     (\<exists>cnt. sp_count_alias spec = Some cnt \<and>
        mset (sp_select_list spec) = mset (agg_items spec cnt))"
  by (auto simp: wf_aggregate_def split: option.splits)

section \<open>Additive measures of a group\<close>

text \<open>\<open>merged s G E G'\<close>: \<open>G'\<close> is \<open>G\<close> with \<open>E\<close> added (sign 1) or removed (sign -1).\<close>

definition merged :: "int \<Rightarrow> 'a list \<Rightarrow> 'a list \<Rightarrow> 'a list \<Rightarrow> bool" where
  "merged s G E G' \<longleftrightarrow>
     (s = 1 \<and> mset G' = mset G + mset E) \<or> (s = - 1 \<and> mset G = mset G' + mset E)"

definition nn :: "pg \<Rightarrow> string \<Rightarrow> env list \<Rightarrow> int" where
  "nn pg e G = int (length (non_null (map (ev pg e) G)))"

definition tot :: "pg \<Rightarrow> string \<Rightarrow> env list \<Rightarrow> int" where
  "tot pg e G = sum_list (map num_of (non_null (map (ev pg e) G)))"

lemma length_merged: "merged s G E G' \<Longrightarrow> int (length G') = int (length G) + s * int (length E)"
proof -
  assume m: "merged s G E G'"
  have "length xs = length ys + length zs" if "mset xs = mset ys + mset zs" for xs ys zs :: "'a list"
    using arg_cong [OF that, of size] by simp
  from this [of G' G E] this [of G G' E] m show ?thesis by (auto simp: merged_def)
qed

lemma additive_merged:
  assumes "\<And>xs ys. f (xs @ ys) = f xs + (f ys :: int)" and "\<And>xs ys. mset xs = mset ys \<Longrightarrow> f xs = f ys"
    and "merged s G E G'"
  shows "f G' = f G + s * f E"
proof -
  have "f xs = f ys + f zs" if "mset xs = mset ys + mset zs" for xs ys zs
    using assms(1,2) [of xs "ys @ zs"] that assms(1) [of ys zs] assms(2) by (metis mset_append)
  with assms(3) show ?thesis by (auto simp: merged_def)
qed

lemma nn_size: "nn pg e G = int (size (filter_mset (\<lambda>d. d \<noteq> Null) (image_mset (ev pg e) (mset G))))"
proof -
  have "mset (non_null (map (ev pg e) G)) = filter_mset (\<lambda>d. d \<noteq> Null) (image_mset (ev pg e) (mset G))"
    by (simp add: non_null_def)
  from arg_cong [OF this, of size] show ?thesis by (simp add: nn_def)
qed

lemma tot_sum: "tot pg e G = sum_mset (image_mset (\<lambda>env. num_of (ev pg e env)) (mset G))"
proof -
  have "sum_list (map num_of (non_null ds)) = sum_list (map num_of ds)" for ds
    unfolding non_null_def by (induction ds) auto
  then have "tot pg e G = sum_list (map (\<lambda>env. num_of (ev pg e env)) G)"
    by (simp add: tot_def comp_def)
  also have "\<dots> = sum_mset (mset (map (\<lambda>env. num_of (ev pg e env)) G))"
    by (simp only: sum_mset_sum_list)
  finally show ?thesis by simp
qed

lemma nn_merged: "merged s G E G' \<Longrightarrow> nn pg e G' = nn pg e G + s * nn pg e E"
  by (rule additive_merged) (simp_all add: nn_size)

lemma tot_merged: "merged s G E G' \<Longrightarrow> tot pg e G' = tot pg e G + s * tot pg e E"
  by (rule additive_merged) (simp_all add: tot_sum)

lemma nn_nonneg: "0 \<le> nn pg e G"
  by (simp add: nn_def)

lemma tot_zero: "nn pg e G = 0 \<Longrightarrow> tot pg e G = 0"
  by (simp add: nn_def tot_def)

lemma sum_value: "sql_sum (map (ev pg e) G) = (if nn pg e G = 0 then Null else Num (tot pg e G))"
  by (simp add: sql_sum_def nn_def tot_def)

lemma item_count: "item pg (TCount e) G = Num (nn pg e G)"
  by (simp add: nn_def)

text \<open>The CASE of the upsert keeps the stored sum equal to PostgreSQL's \<open>sum\<close>.\<close>

lemma sum_update_correct:
  assumes "merged s G E G'"
  shows "sum_update (sql_sum (map (ev pg e) G)) (Num (nn pg e G))
      (sql_scale s (sql_sum (map (ev pg e) E))) (sql_scale s (Num (nn pg e E))) =
    sql_sum (map (ev pg e) G')"
proof -
  have n: "nn pg e G' = nn pg e G + s * nn pg e E" and t: "tot pg e G' = tot pg e G + s * tot pg e E"
    using assms by (rule nn_merged tot_merged)+
  have "nn pg e G = 0 \<Longrightarrow> nn pg e E \<noteq> 0 \<Longrightarrow> s = 1"
    using assms n nn_nonneg [of pg e G'] nn_nonneg [of pg e E] by (auto simp: merged_def)
  then show ?thesis
    using n t tot_zero [of pg e G] tot_zero [of pg e E]
    by (auto simp: sum_update_def sum_value)
qed

section \<open>Rows of an aggregate\<close>

lemma same_key_hd:
  assumes "\<forall>env \<in> set G. group_key pg es env = k" and "G \<noteq> []" and "e \<in> set es"
  shows "item pg (TExpr e) G = k ! (the (position (\<lambda>x. x = e) es))"
proof -
  obtain i where i: "position (\<lambda>x. x = e) es = Some i"
    using assms(3) by (cases "position (\<lambda>x. x = e) es") (auto simp: position_None_iff)
  then have "i < length es" "es ! i = e" using position_SomeD by blast+
  moreover obtain env G' where "G = env # G'" using assms(2) by (cases G) auto
  ultimately show ?thesis using assms(1) i by (auto simp: group_key_def)
qed

lemma same_key_item:
  assumes "\<forall>env \<in> set G. group_key pg es env = k" and "\<forall>env \<in> set G'. group_key pg es env = k"
    and "G \<noteq> []" and "G' \<noteq> []" and "e \<in> set es"
  shows "item pg (TExpr e) G = item pg (TExpr e) G'"
  using same_key_hd [OF assms(1,3,5)] same_key_hd [OF assms(2,4,5)] by simp

text \<open>The columns of the rows the upsert works on, under a well-formed specification.\<close>

lemma wf_aggregateD:
  assumes "wf_aggregate spec" and "sp_count_alias spec = Some cnt"
  shows "set (sp_select_list spec) = set (agg_items spec cnt)"
    and "distinct (map snd (sp_select_list spec))"
    and "distinct (map snd (agg_items spec cnt))"
proof -
  have c: "mset (sp_select_list spec) = mset (agg_items spec cnt)"
    using assms by (simp add: wf_aggregate_iff)
  then show "set (sp_select_list spec) = set (agg_items spec cnt)" by (rule mset_eq_setD)
  show d: "distinct (map snd (sp_select_list spec))" using assms by (simp add: wf_aggregate_iff)
  have "mset (map snd (sp_select_list spec)) = mset (map snd (agg_items spec cnt))"
    using c by simp
  with d show "distinct (map snd (agg_items spec cnt))" by (metis mset_eq_imp_distinct_iff)
qed

lemma fst_excluded: "map fst (excluded spec cnt s src) = map snd (agg_items spec cnt)"
  by (simp add: excluded_def agg_items_def comp_def map_concat)

lemma fst_updates:
  "map oc_alias (sp_columns spec) @ map fst (updates spec cnt v e) = map snd (agg_items spec cnt)"
  by (simp add: updates_def agg_items_def comp_def map_concat)

lemma col_assoc: "distinct (map fst r) \<Longrightarrow> (a, d) \<in> set r \<Longrightarrow> col r a = d"
  by (simp add: col_def)

lemma sql_scale_1: "sql_scale 1 (item pg TCountStar E) = item pg TCountStar E"
    "sql_scale 1 (item pg (TCount e) E) = item pg (TCount e) E"
    "sql_scale 1 (item pg (TSum e) E) = item pg (TSum e) E"
  by (simp_all add: sql_sum_def)


lemma in_agg_items:
  "(t, a) \<in> set (agg_items spec cnt) \<longleftrightarrow>
     (\<exists>c \<in> set (sp_columns spec). t = TExpr (oc_expr c) \<and> a = oc_alias c) \<or>
     t = TCountStar \<and> a = cnt \<or>
     (\<exists>c \<in> set (sp_counts spec). t = TCount (oc_expr c) \<and> a = oc_alias c) \<or>
     (\<exists>su \<in> set (sp_sums spec). t = TSum (su_expr su) \<and> a = su_alias su \<or>
        t = TCount (su_expr su) \<and> a = su_counter su)"
  by (auto simp: agg_items_def)

definition signed_item :: "int \<Rightarrow> target \<Rightarrow> datum \<Rightarrow> datum" where
  "signed_item s t d = (case t of TExpr e \<Rightarrow> d | _ \<Rightarrow> sql_scale s d)"

lemma col_excluded:
  assumes items: "set (sp_select_list spec) = set (agg_items spec cnt)"
    and dist: "distinct (map snd (sp_select_list spec))"
    and adist: "distinct (map snd (agg_items spec cnt))"
    and ta: "(t, a) \<in> set (agg_items spec cnt)"
  shows "col (excluded spec cnt s (out_row pg (sp_select_list spec) E)) a = signed_item s t (item pg t E)"
proof (rule col_assoc)
  let ?src = "out_row pg (sp_select_list spec) E"
  show "distinct (map fst (excluded spec cnt s ?src))"
    using adist by (simp add: fst_excluded)
  have src: "col ?src a' = item pg t' E" if "(t', a') \<in> set (agg_items spec cnt)" for t' a'
    using that items by (intro col_out_row [OF dist]) simp
  from ta show "(a, signed_item s t (item pg t E)) \<in> set (excluded spec cnt s ?src)"
    unfolding in_agg_items
  proof (elim disjE bexE conjE)
    fix c assume "c \<in> set (sp_columns spec)" "t = TExpr (oc_expr c)" "a = oc_alias c"
    then show ?thesis
      using src [OF ta] by (auto simp: excluded_def signed_item_def image_iff)
  next
    assume "t = TCountStar" "a = cnt"
    then show ?thesis using src [OF ta] by (simp add: excluded_def signed_item_def)
  next
    fix c assume "c \<in> set (sp_counts spec)" "t = TCount (oc_expr c)" "a = oc_alias c"
    then show ?thesis
      using src [OF ta] by (auto simp: excluded_def signed_item_def image_iff simp del: item.simps)
  next
    fix su assume "su \<in> set (sp_sums spec)" "t = TSum (su_expr su)" "a = su_alias su"
    then show ?thesis
      using src [OF ta] by (auto simp: excluded_def signed_item_def image_iff simp del: item.simps)
  next
    fix su assume "su \<in> set (sp_sums spec)" "t = TCount (su_expr su)" "a = su_counter su"
    then show ?thesis
      using src [OF ta] by (auto simp: excluded_def signed_item_def image_iff simp del: item.simps)
  qed
qed

lemma map_of_updates:
  assumes items: "set (sp_select_list spec) = set (agg_items spec cnt)"
    and dist: "distinct (map snd (sp_select_list spec))"
    and adist: "distinct (map snd (agg_items spec cnt))"
    and ta: "(t, a) \<in> set (agg_items spec cnt)" and t: "\<forall>e. t \<noteq> TExpr e"
    and m: "merged s G E G'"
  shows "map_of (updates spec cnt (out_row pg (sp_select_list spec) G)
      (excluded spec cnt s (out_row pg (sp_select_list spec) E))) a = Some (item pg t G')"
proof (rule map_of_is_SomeI)
  let ?v = "out_row pg (sp_select_list spec) G"
  let ?e = "excluded spec cnt s (out_row pg (sp_select_list spec) E)"
  show "distinct (map fst (updates spec cnt ?v ?e))"
    using adist fst_updates [of spec cnt ?v ?e] by (metis distinct_append)
  have v: "col ?v a' = item pg t' G" if "(t', a') \<in> set (agg_items spec cnt)" for t' a'
    using that items by (intro col_out_row [OF dist]) simp
  have e: "col ?e a' = signed_item s t' (item pg t' E)" if "(t', a') \<in> set (agg_items spec cnt)" for t' a'
    using items dist adist that by (rule col_excluded)
  note count_merged = nn_merged [OF m]
  from ta show "(a, item pg t G') \<in> set (updates spec cnt ?v ?e)"
    unfolding in_agg_items
  proof (elim disjE bexE conjE)
    fix c assume "c \<in> set (sp_columns spec)" "t = TExpr (oc_expr c)" "a = oc_alias c"
    with t show ?thesis by simp
  next
    assume "t = TCountStar" "a = cnt"
    then show ?thesis
      using v [OF ta] e [OF ta] length_merged [OF m] by (simp add: updates_def signed_item_def)
  next
    fix c assume c: "c \<in> set (sp_counts spec)" "t = TCount (oc_expr c)" "a = oc_alias c"
    have "sql_add (col ?v a) (col ?e a) = item pg t G'"
      using v [OF ta] e [OF ta] count_merged [of pg "oc_expr c"]
      by (simp add: c(2) item_count signed_item_def del: item.simps)
    with c show ?thesis by (auto simp: updates_def image_iff)
  next
    fix su assume su: "su \<in> set (sp_sums spec)" "t = TSum (su_expr su)" "a = su_alias su"
    have counter: "(TCount (su_expr su), su_counter su) \<in> set (agg_items spec cnt)"
      using su by (auto simp: in_agg_items)
    have "sum_update (col ?v (su_alias su)) (col ?v (su_counter su)) (col ?e (su_alias su))
        (col ?e (su_counter su)) = item pg t G'"
      using v [OF ta] e [OF ta] v [OF counter] e [OF counter] sum_update_correct [OF m, of pg "su_expr su"]
      by (simp add: su(2,3) item_count signed_item_def del: item.simps(4))
    with su show ?thesis by (auto simp: updates_def)
  next
    fix su assume su: "su \<in> set (sp_sums spec)" "t = TCount (su_expr su)" "a = su_counter su"
    have "sql_add (col ?v a) (col ?e a) = item pg t G'"
      using v [OF ta] e [OF ta] count_merged [of pg "su_expr su"]
      by (simp add: su(2) item_count signed_item_def del: item.simps)
    with su show ?thesis by (auto simp: updates_def)
  qed
qed

lemma keys_not_updated:
  assumes "distinct (map snd (agg_items spec cnt))" and "c \<in> set (sp_columns spec)"
  shows "map_of (updates spec cnt v e) (oc_alias c) = None"
proof -
  have "oc_alias c \<notin> set (map fst (updates spec cnt v e))"
    using assms fst_updates [of spec cnt v e]
    by (metis distinct_append disjoint_iff image_eqI list.set_map)
  then show ?thesis by (simp add: map_of_eq_None_iff)
qed

text \<open>Updating the row of a group gives the row of the merged group.\<close>

lemma set_columns_out_row:
  "set_columns (out_row pg items G) ups =
     map (\<lambda>(t, a). (a, case map_of ups a of None \<Rightarrow> item pg t G | Some d \<Rightarrow> d)) items"
  by (auto simp: set_columns_def out_row_def case_prod_unfold split: option.splits)

lemma update_group_row:
  assumes wf: "wf_aggregate spec" "sp_count_alias spec = Some cnt"
    and m: "merged s G E G'" and ne: "G \<noteq> []"
    and keys: "\<forall>env \<in> set G. group_key pg (map oc_expr (sp_columns spec)) env = k"
      "\<forall>env \<in> set G'. group_key pg (map oc_expr (sp_columns spec)) env = k"
    and ne': "G' \<noteq> []"
  shows "set_columns (out_row pg (sp_select_list spec) G)
      (updates spec cnt (out_row pg (sp_select_list spec) G)
        (excluded spec cnt s (out_row pg (sp_select_list spec) E))) =
    out_row pg (sp_select_list spec) G'"
proof -
  have spec: "set (sp_select_list spec) = set (agg_items spec cnt)"
    "distinct (map snd (sp_select_list spec))" "distinct (map snd (agg_items spec cnt))"
    using wf by (rule wf_aggregateD)+
  let ?ups = "updates spec cnt (out_row pg (sp_select_list spec) G)
        (excluded spec cnt s (out_row pg (sp_select_list spec) E))"
  have "(case map_of ?ups a of None \<Rightarrow> item pg t G | Some d \<Rightarrow> d) = item pg t G'"
    if ta: "(t, a) \<in> set (sp_select_list spec)" for t a
  proof (cases "\<exists>e. t = TExpr e")
    case True
    then obtain c where c: "c \<in> set (sp_columns spec)" "t = TExpr (oc_expr c)" "a = oc_alias c"
      using ta spec(1) by (auto simp: in_agg_items)
    then show ?thesis
      using keys_not_updated [OF spec(3) c(1)] same_key_item [OF keys ne ne']
      by (simp del: item.simps)
  next
    case False
    then show ?thesis
      using map_of_updates [OF spec _ _ m, of t a pg] ta spec(1) by simp
  qed
  then show ?thesis
    unfolding set_columns_out_row out_row_def [of pg "sp_select_list spec" G'] by (intro map_cong) auto
qed

text \<open>A new group's row is the row of its contribution.\<close>

lemma insert_group_row:
  assumes "wf_aggregate spec" "sp_count_alias spec = Some cnt"
  shows "table_row spec (excluded spec cnt 1 (out_row pg (sp_select_list spec) E)) =
    out_row pg (sp_select_list spec) E"
proof -
  have spec: "set (sp_select_list spec) = set (agg_items spec cnt)"
    "distinct (map snd (sp_select_list spec))" "distinct (map snd (agg_items spec cnt))"
    using assms by (rule wf_aggregateD)+
  have "col (excluded spec cnt 1 (out_row pg (sp_select_list spec) E)) a = item pg t E"
    if ta: "(t, a) \<in> set (sp_select_list spec)" for t a
    using col_excluded [OF spec, of t a 1 pg E] ta spec(1)
    by (auto simp: signed_item_def in_agg_items sql_scale_1 simp del: item.simps)
  then show ?thesis
    by (auto simp: table_row_def table_columns_def out_row_def)
qed

section \<open>Tables by key\<close>

definition lookup :: "('r \<Rightarrow> 'k) \<Rightarrow> 'r list \<Rightarrow> 'k \<rightharpoonup> 'r" where
  "lookup f rows = map_of (map (\<lambda>v. (f v, v)) rows)"

lemma lookup_Nil [simp]: "lookup f [] = Map.empty"
  by (simp add: lookup_def)

lemma lookup_None_iff: "lookup f V k = None \<longleftrightarrow> k \<notin> f ` set V"
  by (auto simp: lookup_def map_of_eq_None_iff image_image)

lemma lookup_SomeD: "lookup f V k = Some v \<Longrightarrow> v \<in> set V \<and> f v = k"
  by (auto simp: lookup_def dest!: map_of_SomeD)

lemma lookup_Some_iff: "distinct (map f V) \<Longrightarrow> lookup f V k = Some v \<longleftrightarrow> v \<in> set V \<and> f v = k"
  by (auto simp: lookup_def comp_def intro: map_of_is_SomeI dest!: map_of_SomeD)

lemma lookup_split:
  assumes "distinct (map f (xs @ v # ys))"
  shows "lookup f (xs @ v # ys) = (lookup f (xs @ ys))(f v \<mapsto> v)"
proof
  fix k
  have d: "distinct (map f (xs @ ys))" using assms by simp
  show "lookup f (xs @ v # ys) k = ((lookup f (xs @ ys))(f v \<mapsto> v)) k"
  proof (cases "lookup f (xs @ v # ys) k")
    case None
    then have "k \<noteq> f v" and "lookup f (xs @ ys) k = None"
      unfolding lookup_None_iff by auto
    with None show ?thesis by simp
  next
    case (Some w)
    then have w: "w \<in> set (xs @ v # ys)" "f w = k" using lookup_SomeD by fast+
    show ?thesis
    proof (cases "k = f v")
      case True
      with Some assms show ?thesis by (simp add: lookup_Some_iff)
    next
      case False
      with w have "lookup f (xs @ ys) k = Some w" using d by (auto simp: lookup_Some_iff)
      with False Some show ?thesis by simp
    qed
  qed
qed

lemma lookup_snoc: "distinct (map f (V @ [v])) \<Longrightarrow> lookup f (V @ [v]) = (lookup f V)(f v \<mapsto> v)"
  using lookup_split [of f V v "[]"] by simp

lemma lookup_remove:
  assumes "distinct (map f (xs @ v # ys))"
  shows "lookup f (xs @ ys) = (lookup f (xs @ v # ys))(f v := None)"
proof -
  have "lookup f (xs @ ys) (f v) = None" using assms by (auto simp: lookup_None_iff)
  then show ?thesis using lookup_split [OF assms] by (auto simp: fun_eq_iff)
qed

section \<open>One contribution\<close>

definition vkey :: "view_spec \<Rightarrow> row \<Rightarrow> datum list" where
  "vkey spec v = map (\<lambda>c. col v (oc_alias c)) (sp_columns spec)"

definition ekey :: "pg \<Rightarrow> view_spec \<Rightarrow> env \<Rightarrow> datum list" where
  "ekey pg spec env = group_key pg (map oc_expr (sp_columns spec)) env"

definition grp :: "pg \<Rightarrow> view_spec \<Rightarrow> datum list \<Rightarrow> env list \<Rightarrow> env list" where
  "grp pg spec k envs = filter (\<lambda>env. ekey pg spec env = k) envs"

definition group_row :: "pg \<Rightarrow> view_spec \<Rightarrow> env list \<Rightarrow> row" where
  "group_row pg spec G = out_row pg (sp_select_list spec) G"

definition agg_rep :: "pg \<Rightarrow> view_spec \<Rightarrow> row list \<Rightarrow> env list \<Rightarrow> bool" where
  "agg_rep pg spec V envs \<longleftrightarrow>
     distinct (map (vkey spec) V) \<and>
     lookup (vkey spec) V =
       (\<lambda>k. if grp pg spec k envs = [] then None else Some (group_row pg spec (grp pg spec k envs)))"

definition delta_texts :: "pg \<Rightarrow> (char \<times> row) list \<Rightarrow> delta list" where
  "delta_texts pg evs = map (\<lambda>(o1, r). \<lparr>d_op = o1, d_row_json = pg_to_jsonb pg r\<rparr>) evs"

lemma delta_texts_append: "delta_texts pg (xs @ ys) = delta_texts pg xs @ delta_texts pg ys"
  by (simp add: delta_texts_def)

lemma grp_keys: "\<forall>env \<in> set (grp pg spec k envs). group_key pg (map oc_expr (sp_columns spec)) env = k"
  by (simp add: grp_def ekey_def)

lemma vkey_group_row:
  assumes "wf_aggregate spec" "sp_count_alias spec = Some cnt"
    and "\<forall>env \<in> set G. ekey pg spec env = k" and "G \<noteq> []"
  shows "vkey spec (group_row pg spec G) = k"
proof -
  obtain env G' where G: "G = env # G'" using assms(4) by (cases G) auto
  have "col (group_row pg spec G) (oc_alias c) = ev pg (oc_expr c) env" if "c \<in> set (sp_columns spec)" for c
    using col_out_row [OF wf_aggregateD(2) [OF assms(1,2)], of "TExpr (oc_expr c)" "oc_alias c" pg G]
      wf_aggregateD(1) [OF assms(1,2)] that G
    by (auto simp: group_row_def in_agg_items)
  then show ?thesis using assms(3) G by (auto simp: vkey_def ekey_def group_key_def)
qed

text \<open>Rows depend on their group up to order only.\<close>

lemma group_row_cong:
  assumes wf: "wf_aggregate spec" "sp_count_alias spec = Some cnt"
    and G: "\<forall>env \<in> set G. ekey pg spec env = k" and m: "mset G = mset G'"
  shows "group_row pg spec G = group_row pg spec G'"
proof -
  have empty: "G = [] \<longleftrightarrow> G' = []" using m by (metis mset.simps(1) mset_zero_iff)
  have G': "\<forall>env \<in> set G'. ekey pg spec env = k" using G mset_eq_setD [OF m] by simp
  have "item pg t G = item pg t G'" if "(t, a) \<in> set (sp_select_list spec)" for t a
  proof -
    from that have "(t, a) \<in> set (agg_items spec cnt)" using wf_aggregateD(1) [OF wf] by simp
    moreover have "item pg (TExpr (oc_expr c)) G = item pg (TExpr (oc_expr c)) G'"
      if "c \<in> set (sp_columns spec)" for c
    proof (cases "G = []")
      case True
      with empty show ?thesis by simp
    next
      case False
      with empty G G' that show ?thesis
        by (intro same_key_item [of G pg "map oc_expr (sp_columns spec)" k]) (auto simp: ekey_def)
    qed
    moreover have "length G = length G'" using m by (rule mset_eq_length)
    moreover have "nn pg e G = nn pg e G'" "tot pg e G = tot pg e G'" for e
      using m by (simp_all add: nn_size tot_sum)
    ultimately show ?thesis
      by (auto simp: in_agg_items item_count sum_value simp del: item.simps(1,4))
  qed
  then show ?thesis by (auto simp: group_row_def out_row_def)
qed

lemma mset_grp: "mset (grp pg spec k envs) = filter_mset (\<lambda>env. ekey pg spec env = k) (mset envs)"
  by (simp add: grp_def)

lemma grp_merged:
  assumes "merged s envs E envs'"
  shows "merged s (grp pg spec k envs) (grp pg spec k E) (grp pg spec k envs')"
  using assms by (auto simp: merged_def mset_grp)

lemma grp_all: "\<forall>env \<in> set E. ekey pg spec env = k \<Longrightarrow> grp pg spec k E = E"
  by (simp add: grp_def)

lemma grp_other:
  assumes "merged s envs E envs'" and "\<forall>env \<in> set E. ekey pg spec env = k" and "k' \<noteq> k"
  shows "mset (grp pg spec k' envs') = mset (grp pg spec k' envs)"
proof -
  have "grp pg spec k' E = []" using assms(2,3) by (auto simp: grp_def filter_empty_conv)
  then show ?thesis using grp_merged [OF assms(1), of pg spec k'] by (auto simp: merged_def)
qed

lemma position_split:
  assumes "position p xs = Some i"
  shows "xs = take i xs @ xs ! i # drop (Suc i) xs \<and> p (xs ! i) \<and>
    xs[i := y] = take i xs @ y # drop (Suc i) xs"
  using position_SomeD [OF assms] by (simp add: id_take_nth_drop upd_conv_take_nth_drop)

lemma aggregate_row_eq:
  assumes "sp_count_alias spec = Some cnt"
    and "pg_populate pg (table_columns spec) row_json = Inr src"
    and "upsert spec cnt s src rows = (rows', v)"
    and "col v cnt = Num n" and "0 \<le> n" and "n < 2 ^ 63"
  shows "aggregate_row pg spec s row_json rows = Inr
    (let dels = map (\<lambda>v. (CHR ''D'', v)) (filter (\<lambda>w. vkey spec w = vkey spec src) rows) in
     if n > 0 then (rows', delta_texts pg (dels @ [(CHR ''I'', v)]))
     else (filter (\<lambda>v. \<not> (\<exists>n. col v cnt = Num n \<and> n \<le> 0)) rows', delta_texts pg dels))"
proof -
  have "parse_int 64 (int_text n) = Some n"
    using assms(5,6) by (intro parse_int_text) auto
  moreover have "rsplit_space (pg_to_jsonb pg v @ '' '' @ int_text n) = Some (pg_to_jsonb pg v, int_text n)"
    by (rule rsplit_space_append) (rule int_text_no_space)
  moreover have "(\<forall>c \<in> set (sp_columns spec). not_distinct (col w (oc_alias c)) (col src (oc_alias c))) \<longleftrightarrow>
    vkey spec w = vkey spec src" for w
    by (auto simp: not_distinct_def vkey_def)
  ultimately show ?thesis
    using assms
    by (simp add: aggregate_row_def returned_text_def delta_texts_def comp_def Let_def)
qed

text \<open>
  One planned row of an aggregate view: the table keeps representing the query when the rows \<open>E\<close>
  of one group are added or removed, and the deltas take the old content to the new one.
\<close>

lemma upsert_new:
  assumes "\<forall>v \<in> set rows. \<not> conflicts spec v (excluded spec cnt s src)"
  shows "upsert spec cnt s src rows =
    (rows @ [table_row spec (excluded spec cnt s src)], table_row spec (excluded spec cnt s src))"
proof -
  have "position (\<lambda>v. conflicts spec v (excluded spec cnt s src)) rows = None"
    using assms by (simp add: position_None_iff)
  then show ?thesis by (simp add: upsert_def Let_def)
qed

lemma upsert_old:
  assumes "v \<in> set rows" and "conflicts spec v (excluded spec cnt s src)"
  obtains xs w ys where "rows = xs @ w # ys" and "conflicts spec w (excluded spec cnt s src)"
    and "upsert spec cnt s src rows =
      (xs @ set_columns w (updates spec cnt w (excluded spec cnt s src)) # ys,
       set_columns w (updates spec cnt w (excluded spec cnt s src)))"
proof -
  obtain i where i: "position (\<lambda>v. conflicts spec v (excluded spec cnt s src)) rows = Some i"
    using assms by (cases "position (\<lambda>v. conflicts spec v (excluded spec cnt s src)) rows")
      (auto simp: position_None_iff)
  show thesis
    by (rule that [of "take i rows" "rows ! i" "drop (Suc i) rows"])
      (use position_split [OF i] i in \<open>simp_all add: upsert_def Let_def\<close>)
qed

lemma vkey_excluded:
  assumes "wf_aggregate spec" "sp_count_alias spec = Some cnt"
    and "\<forall>env \<in> set E. ekey pg spec env = k" and "E \<noteq> []"
  shows "vkey spec (excluded spec cnt s (group_row pg spec E)) = k"
proof -
  have "col (excluded spec cnt s (group_row pg spec E)) (oc_alias c) = col (group_row pg spec E) (oc_alias c)"
    if "c \<in> set (sp_columns spec)" for c
  proof -
    have "(TExpr (oc_expr c), oc_alias c) \<in> set (agg_items spec cnt)"
      using that by (auto simp: in_agg_items)
    with col_excluded [OF wf_aggregateD [OF assms(1,2)] this]
      col_out_row [OF wf_aggregateD(2) [OF assms(1,2)], of "TExpr (oc_expr c)" "oc_alias c"]
      wf_aggregateD(1) [OF assms(1,2)]
    show ?thesis by (simp add: group_row_def signed_item_def del: item.simps)
  qed
  then have "vkey spec (excluded spec cnt s (group_row pg spec E)) = vkey spec (group_row pg spec E)"
    by (simp add: vkey_def)
  then show ?thesis using vkey_group_row [OF assms] by simp
qed

lemma conflicts_vkey: "sp_shape spec = Aggregate \<Longrightarrow> conflicts spec v w \<longleftrightarrow> vkey spec v = vkey spec w"
  by (auto simp: conflicts_def not_distinct_def vkey_def)

lemma col_count:
  assumes "wf_aggregate spec" "sp_count_alias spec = Some cnt"
  shows "col (group_row pg spec G) cnt = Num (int (length G))"
  using col_out_row [OF wf_aggregateD(2) [OF assms], of TCountStar cnt pg G]
    wf_aggregateD(1) [OF assms]
  by (simp add: group_row_def in_agg_items)

lemma filter_vkey:
  assumes "distinct (map f V)"
  shows "filter (\<lambda>w. f w = k) V = (case lookup f V k of None \<Rightarrow> [] | Some v \<Rightarrow> [v])"
proof (cases "lookup f V k")
  case None
  then have "k \<notin> f ` set V" by (simp add: lookup_None_iff)
  with None show ?thesis by (auto simp: filter_empty_conv)
next
  case (Some v)
  then obtain xs ys where V: "V = xs @ v # ys" and k: "f v = k"
    using lookup_SomeD [of f V k v] by (auto dest: split_list)
  then have "\<forall>w \<in> set (xs @ ys). f w \<noteq> k" using assms by (auto simp: image_iff)
  with V k Some show ?thesis by (auto simp: filter_empty_conv)
qed

lemma col_update_count:
  assumes wf: "wf_aggregate spec" "sp_count_alias spec = Some cnt" and m: "merged s G E G'"
  shows "col (set_columns (group_row pg spec G)
      (updates spec cnt (group_row pg spec G) (excluded spec cnt s (group_row pg spec E)))) cnt =
    Num (int (length G'))"
proof -
  let ?ups = "updates spec cnt (group_row pg spec G) (excluded spec cnt s (group_row pg spec E))"
  have "map_of ?ups cnt = Some (item pg TCountStar G')"
    unfolding group_row_def
    by (rule map_of_updates [OF wf_aggregateD [OF wf] _ _ m]) (simp_all add: in_agg_items)
  moreover have "set_columns (group_row pg spec G) ?ups = map (\<lambda>x. (snd x,
      case map_of ?ups (snd x) of None \<Rightarrow> item pg (fst x) G | Some d \<Rightarrow> d)) (sp_select_list spec)"
    unfolding group_row_def set_columns_out_row by (simp add: case_prod_unfold)
  moreover have "(TCountStar, cnt) \<in> set (sp_select_list spec)"
    using wf_aggregateD(1) [OF wf] by (simp add: in_agg_items)
  ultimately show ?thesis
    using col_map [OF wf_aggregateD(2) [OF wf], of "(TCountStar, cnt)"
        "\<lambda>x. case map_of ?ups (snd x) of None \<Rightarrow> item pg (fst x) G | Some d \<Rightarrow> d"]
    by simp
qed

lemma agg_rep_rows:
  assumes "agg_rep pg spec V envs" and "v \<in> set V"
  shows "v = group_row pg spec (grp pg spec (vkey spec v) envs) \<and> grp pg spec (vkey spec v) envs \<noteq> []"
proof -
  have "lookup (vkey spec) V (vkey spec v) = Some v"
    using lookup_Some_iff [of "vkey spec" V] assms by (simp add: agg_rep_def del: lookup_def)
  moreover have "lookup (vkey spec) V (vkey spec v) = (if grp pg spec (vkey spec v) envs = [] then None
      else Some (group_row pg spec (grp pg spec (vkey spec v) envs)))"
    using assms(1) by (simp add: agg_rep_def)
  ultimately show ?thesis by (simp split: if_splits)
qed

lemma agg_rep_merged:
  assumes wf: "wf_aggregate spec" "sp_count_alias spec = Some cnt"
    and rep: "agg_rep pg spec V envs" and m: "merged s envs E envs'"
    and E: "\<forall>env \<in> set E. ekey pg spec env = k"
    and V': "distinct (map (vkey spec) V')"
    and l: "lookup (vkey spec) V' = (lookup (vkey spec) V)(k :=
      (if grp pg spec k envs' = [] then None else Some (group_row pg spec (grp pg spec k envs'))))"
  shows "agg_rep pg spec V' envs'"
proof -
  have "grp pg spec k' envs' = [] \<longleftrightarrow> grp pg spec k' envs = []"
    and "group_row pg spec (grp pg spec k' envs') = group_row pg spec (grp pg spec k' envs)" if "k' \<noteq> k" for k'
  proof -
    have eq: "mset (grp pg spec k' envs') = mset (grp pg spec k' envs)"
      using m E that by (rule grp_other)
    then show "grp pg spec k' envs' = [] \<longleftrightarrow> grp pg spec k' envs = []"
      by (metis mset_zero_iff)
    show "group_row pg spec (grp pg spec k' envs') = group_row pg spec (grp pg spec k' envs)"
      by (rule group_row_cong [OF wf _ eq, where k = k']) (simp add: grp_def)
  qed
  then show ?thesis
    using rep l V' by (auto simp: agg_rep_def fun_eq_iff)
qed

lemma aggregate_step:
  assumes wf: "wf_aggregate spec" "sp_count_alias spec = Some cnt"
    and rep: "agg_rep pg spec V envs" and m: "merged s envs E envs'"
    and E: "\<forall>env \<in> set E. ekey pg spec env = k" "E \<noteq> []"
    and json: "pg_populate pg (table_columns spec) (pg_to_jsonb pg (group_row pg spec E)) =
      Inr (group_row pg spec E)"
    and len: "int (length envs') < 2 ^ 63"
  obtains V' evs where
    "aggregate_row pg spec s (pg_to_jsonb pg (group_row pg spec E)) V = Inr (V', delta_texts pg evs)"
    and "agg_rep pg spec V' envs'"
    and "replay id (vkey spec) evs (lookup (vkey spec) V) = Some (lookup (vkey spec) V')"
proof -
  let ?G = "grp pg spec k envs" and ?G' = "grp pg spec k envs'"
  let ?src = "group_row pg spec E" and ?L = "lookup (vkey spec) V"
  have shape: "sp_shape spec = Aggregate" using wf(1) by (simp add: wf_aggregate_iff)
  have mG: "merged s ?G E ?G'" using grp_merged [OF m, of pg spec k] grp_all [OF E(1)] by simp
  have dV: "distinct (map (vkey spec) V)"
    and L: "?L = (\<lambda>k. if grp pg spec k envs = [] then None else Some (group_row pg spec (grp pg spec k envs)))"
    using rep by (auto simp: agg_rep_def)
  have ksrc: "vkey spec ?src = k" and kex: "vkey spec (excluded spec cnt s ?src) = k"
    using wf E by (rule vkey_group_row vkey_excluded)+
  have kG: "\<forall>env \<in> set ?G. ekey pg spec env = k" "\<forall>env \<in> set ?G'. ekey pg spec env = k"
    by (simp_all add: grp_def)
  have "length ?G' \<le> length envs'" by (simp add: grp_def)
  with len have len': "int (length ?G') < 2 ^ 63" by simp
  note finish = agg_rep_merged [OF wf rep m E(1)]
  show thesis
  proof (cases "?G = []")
    case True
    have "s = 1" and mE: "mset ?G' = mset E"
      using mG True E(2) by (auto simp: merged_def)
    have row: "group_row pg spec ?G' = ?src" by (rule group_row_cong [OF wf kG(2) mE])
    have "?G' \<noteq> []" using mE E(2) by (metis mset_zero_iff)
    have none: "?L k = None" using True L by simp
    then have free: "\<forall>v \<in> set V. vkey spec v \<noteq> k" by (auto simp: lookup_None_iff)
    have new: "table_row spec (excluded spec cnt s ?src) = ?src"
      using insert_group_row [OF wf] \<open>s = 1\<close> by (simp add: group_row_def)
    have up: "upsert spec cnt s ?src V = (V @ [?src], ?src)"
      using upsert_new [of V spec cnt s ?src] free kex by (simp add: conflicts_vkey [OF shape] new)
    have dV': "distinct (map (vkey spec) (V @ [?src]))"
      using dV free ksrc by auto
    show thesis
    proof (rule that)
      show "aggregate_row pg spec s (pg_to_jsonb pg ?src) V = Inr (V @ [?src], delta_texts pg [(CHR ''I'', ?src)])"
        using aggregate_row_eq [OF wf(2) json up col_count [OF wf]] len' mset_eq_length [OF mE] E(2) none
        by (simp add: filter_vkey [OF dV] ksrc)
      show "agg_rep pg spec (V @ [?src]) envs'"
        using dV' \<open>?G' \<noteq> []\<close> by (intro finish) (simp_all only: lookup_snoc ksrc row if_False)
      show "replay id (vkey spec) [(CHR ''I'', ?src)] ?L = Some (lookup (vkey spec) (V @ [?src]))"
        using none by (simp add: replay_step_def ksrc lookup_snoc [OF dV'])
    qed
  next
    case False
    let ?v = "group_row pg spec ?G"
    let ?u = "set_columns ?v (updates spec cnt ?v (excluded spec cnt s ?src))"
    have some: "?L k = Some ?v" using False L by simp
    then have v: "?v \<in> set V" "vkey spec ?v = k" using lookup_SomeD [OF some] by auto
    then have "conflicts spec ?v (excluded spec cnt s ?src)" using kex by (simp add: conflicts_vkey [OF shape])
    from upsert_old [OF v(1) this] obtain xs w ys where V: "V = xs @ w # ys" "vkey spec w = k"
      and up: "upsert spec cnt s ?src V = (xs @ set_columns w (updates spec cnt w (excluded spec cnt s ?src)) # ys,
        set_columns w (updates spec cnt w (excluded spec cnt s ?src)))"
      using kex by (auto simp: conflicts_vkey [OF shape])
    have "w = ?v" using V v dV by (auto simp: image_iff)
    then have up: "upsert spec cnt s ?src V = (xs @ ?u # ys, ?u)" and V: "V = xs @ ?v # ys"
      using up V by simp_all
    have count: "col ?u cnt = Num (int (length ?G'))" by (rule col_update_count [OF wf mG])
    note row_eq = aggregate_row_eq [OF wf(2) json up count _ len']
    have rest: "lookup (vkey spec) (xs @ ys) = ?L(k := None)"
      using lookup_remove [of "vkey spec" xs ?v ys] dV v(2) unfolding V by simp
    show thesis
    proof (cases "?G' = []")
      case False
      have u: "?u = group_row pg spec ?G'"
        unfolding group_row_def
        by (rule update_group_row [OF wf mG \<open>?G \<noteq> []\<close> _ _ False]) (use kG in \<open>auto simp: ekey_def\<close>)
      have ku: "vkey spec ?u = k" unfolding u by (rule vkey_group_row [OF wf kG(2) False])
      have dV': "distinct (map (vkey spec) (xs @ ?u # ys))"
        using dV v(2) ku unfolding V by simp
      have L': "lookup (vkey spec) (xs @ ?u # ys) = ?L(k \<mapsto> ?u)"
        using lookup_split [OF dV'] rest ku by simp
      show thesis
      proof (rule that)
        show "aggregate_row pg spec s (pg_to_jsonb pg ?src) V =
            Inr (xs @ ?u # ys, delta_texts pg [(CHR ''D'', ?v), (CHR ''I'', ?u)])"
          using row_eq False some by (simp add: filter_vkey [OF dV] ksrc)
        show "agg_rep pg spec (xs @ ?u # ys) envs'"
          using dV' False u L' by (intro finish) simp_all
        show "replay id (vkey spec) [(CHR ''D'', ?v), (CHR ''I'', ?u)] ?L =
            Some (lookup (vkey spec) (xs @ ?u # ys))"
          using some v(2) ku L' by (simp add: replay_step_def)
      qed
    next
      case True
      have "\<exists>n. col w cnt = Num n \<and> 0 < n" if "w \<in> set (xs @ ys)" for w
      proof -
        have "w \<in> set V" using that by (auto simp: V)
        with agg_rep_rows [OF rep this] col_count [OF wf, of pg "grp pg spec (vkey spec w) envs"]
        show ?thesis by (metis length_greater_0_conv of_nat_0_less_iff)
      qed
      then have "\<not> (\<exists>n. col w cnt = Num n \<and> n \<le> 0)" if "w \<in> set (xs @ ys)" for w
        using that by fastforce
      then have "filter (\<lambda>v. \<not> (\<exists>n. col v cnt = Num n \<and> n \<le> 0)) (xs @ ys) = xs @ ys"
        by (intro filter_True ballI) blast
      then have keep: "filter (\<lambda>v. \<not> (\<exists>n. col v cnt = Num n \<and> n \<le> 0)) (xs @ ?u # ys) = xs @ ys"
        using count True by simp
      have dV': "distinct (map (vkey spec) (xs @ ys))" using dV unfolding V by simp
      show thesis
      proof (rule that)
        show "aggregate_row pg spec s (pg_to_jsonb pg ?src) V = Inr (xs @ ys, delta_texts pg [(CHR ''D'', ?v)])"
          using row_eq True some keep by (simp add: filter_vkey [OF dV] ksrc)
        show "agg_rep pg spec (xs @ ys) envs'"
          using dV' True rest by (intro finish) simp_all
        show "replay id (vkey spec) [(CHR ''D'', ?v)] ?L = Some (lookup (vkey spec) (xs @ ys))"
          using some v(2) rest by (simp add: replay_step_def)
      qed
    qed
  qed
qed

end
