(* ===== verification/Maintain.thy ===== *)
theory Maintain
  imports Apply_Facts
begin

text \<open>
  From one planned row to whole changes. The locale \<open>maintained\<close> is the contract between a storage
  table and its planned rows: a unit of the delta query (a group of an aggregate, one row of a
  projection) added to or removed from the content. It is interpreted for both shapes, and
  the properties say that planning and executing a change of a base table leaves the storage table
  equal to the view's own query over the changed tables.
\<close>

section \<open>Executing a batch of planned rows\<close>

locale maintained =
  fixes run_op :: "op \<Rightarrow> row list \<Rightarrow> string + (row list \<times> delta list)"
    and texts :: "(char \<times> row) list \<Rightarrow> delta list"
    and key :: "row \<Rightarrow> 'k"
    and unit_rows :: "env list \<Rightarrow> bool"
    and plan :: "int \<Rightarrow> env list \<Rightarrow> op"
    and rep :: "row list \<Rightarrow> env list \<Rightarrow> bool"
    and ok :: "env list \<Rightarrow> bool"
  assumes step: "unit_rows E \<Longrightarrow> rep V envs \<Longrightarrow> merged s envs E envs' \<Longrightarrow> ok envs \<Longrightarrow> ok envs' \<Longrightarrow>
      \<exists>V' evs. run_op (plan s E) V = Inr (V', texts evs) \<and> rep V' envs' \<and>
        replay id key evs (lookup key V) = Some (lookup key V')"
    and ok_less: "ok envs \<Longrightarrow> mset envs' \<subseteq># mset envs \<Longrightarrow> ok envs'"
    and texts_append: "texts (xs @ ys) = texts xs @ texts ys"
    and rep_mset: "rep V envs \<Longrightarrow> mset envs = mset envs' \<Longrightarrow> rep V envs'"
begin

definition run :: "op \<Rightarrow> row list \<times> delta list \<Rightarrow> string + (row list \<times> delta list)" where
  "run operation st = rbind (run_op operation (fst st)) (\<lambda>(rows', ds). Inr (rows', snd st @ ds))"

lemma texts_Nil: "texts [] = []"
  using texts_append [of "[]" "[]"] by simp

lemma batch:
  assumes "\<forall>E \<in> set Es. unit_rows E" and "rep V envs" and "merged s envs (concat Es) envs'"
    and "ok envs" and "ok envs'"
  shows "\<exists>V' evs. rfold run (map (plan s) Es) (V, ds) = Inr (V', ds @ texts evs) \<and> rep V' envs' \<and>
    replay id key evs (lookup key V) = Some (lookup key V')"
  using assms
proof (induction Es arbitrary: V envs ds)
  case Nil
  then have "mset envs = mset envs'" by (auto simp: merged_def)
  with Nil.prems(2) have "rep V envs'" by (rule rep_mset)
  then show ?case
    by (intro exI [of _ V] exI [of _ "[]"]) (simp add: texts_Nil)
next
  case (Cons E Es)
  define envs1 where "envs1 = (if s = 1 then envs @ E else envs' @ concat Es)"
  have m1: "merged s envs E envs1" and m2: "merged s envs1 (concat Es) envs'"
    using Cons.prems(3) by (auto simp: merged_def envs1_def union_ac)
  have ok1: "ok envs1"
  proof (cases "s = 1")
    case True
    then have "mset envs1 \<subseteq># mset envs'" using m2 by (auto simp: merged_def)
    with Cons.prems(5) show ?thesis by (rule ok_less)
  next
    case False
    then have "mset envs1 \<subseteq># mset envs" using m1 by (auto simp: merged_def)
    with Cons.prems(4) show ?thesis by (rule ok_less)
  qed
  obtain V1 evs1 where 1: "run_op (plan s E) V = Inr (V1, texts evs1)" "rep V1 envs1"
    "replay id key evs1 (lookup key V) = Some (lookup key V1)"
    using step [OF _ Cons.prems(2) m1 Cons.prems(4) ok1] Cons.prems(1) by auto
  have "\<forall>E \<in> set Es. unit_rows E" using Cons.prems(1) by simp
  from Cons.IH [OF this 1(2) m2 ok1 Cons.prems(5), of "ds @ texts evs1"]
  obtain V' evs where 2: "rfold run (map (plan s) Es) (V1, ds @ texts evs1) = Inr (V', (ds @ texts evs1) @ texts evs)"
    "rep V' envs'" "replay id key evs (lookup key V1) = Some (lookup key V')" by blast
  have "run (plan s E) (V, ds) = Inr (V1, ds @ texts evs1)"
    using 1(1) by (simp add: run_def)
  then have "rfold run (map (plan s) (E # Es)) (V, ds) = Inr (V', ds @ texts (evs1 @ evs))"
    using 2(1) by (simp add: texts_append)
  moreover have "replay id key (evs1 @ evs) (lookup key V) = Some (lookup key V')"
    using 1(3) 2(3) by (simp only: replay_append Option.bind.bind_lunit)
  ultimately show ?case using 2(2) by blast
qed

end

text \<open>The operation of \<open>execute\<close> on the table alone.\<close>

definition run_row :: "pg \<Rightarrow> view_spec \<Rightarrow> op \<Rightarrow> row list \<Rightarrow> string + (row list \<times> delta list)" where
  "run_row pg spec operation rows = execute_op pg spec operation (rows, [])"

definition row_op :: "pg \<Rightarrow> view_spec \<Rightarrow> int \<Rightarrow> env list \<Rightarrow> op" where
  "row_op pg spec s E = Row s (pg_to_jsonb pg (group_row pg spec E))"

text \<open>
  \<open>jsonb_populate_record\<close> reads back what \<open>to_jsonb\<close> printed, for rows with the table's columns.
\<close>

definition json_ok :: "pg \<Rightarrow> string list \<Rightarrow> bool" where
  "json_ok pg cols \<longleftrightarrow> (\<forall>r. map fst r = cols \<longrightarrow> pg_populate pg cols (pg_to_jsonb pg r) = Inr r)"

lemma json_group_row:
  "json_ok pg (table_columns spec) \<Longrightarrow>
   pg_populate pg (table_columns spec) (pg_to_jsonb pg (group_row pg spec E)) = Inr (group_row pg spec E)"
  by (simp add: json_ok_def group_row_def map_fst_out_row table_columns_def)

section \<open>Aggregates\<close>

definition agg_unit :: "pg \<Rightarrow> view_spec \<Rightarrow> env list \<Rightarrow> bool" where
  "agg_unit pg spec E \<longleftrightarrow> E \<noteq> [] \<and> (\<exists>k. \<forall>env \<in> set E. ekey pg spec env = k)"

definition agg_content :: "pg \<Rightarrow> view_spec \<Rightarrow> row list \<Rightarrow> env list \<Rightarrow> bool" where
  "agg_content pg spec V envs \<longleftrightarrow>
     wf_aggregate spec \<and> json_ok pg (table_columns spec) \<and> agg_rep pg spec V envs"

text \<open>Counts stay in the range of \<open>bigint\<close>.\<close>

definition small :: "env list \<Rightarrow> bool" where
  "small envs \<longleftrightarrow> int (length envs) < 2 ^ 63"

lemma small_less: "small envs \<Longrightarrow> mset envs' \<subseteq># mset envs \<Longrightarrow> small envs'"
  using size_mset_mono [of "mset envs'" "mset envs"] by (simp add: small_def)

lemma agg_rep_mset:
  assumes wf: "wf_aggregate spec" "sp_count_alias spec = Some cnt"
    and rep: "agg_rep pg spec V envs" and m: "mset envs = mset envs'"
  shows "agg_rep pg spec V envs'"
proof -
  have "grp pg spec k envs = [] \<longleftrightarrow> grp pg spec k envs' = []" for k
    using m by (metis mset_grp mset_zero_iff)
  moreover have "group_row pg spec (grp pg spec k envs) = group_row pg spec (grp pg spec k envs')" for k
    by (rule group_row_cong [OF wf, where k = k]) (simp_all add: grp_def m mset_grp)
  ultimately show ?thesis using rep by (auto simp: agg_rep_def fun_eq_iff)
qed

interpretation aggregate: maintained "run_row pg spec" "delta_texts pg" "vkey spec" "agg_unit pg spec"
    "row_op pg spec" "agg_content pg spec" small
  for pg spec
proof
  fix E V envs s envs'
  assume "agg_unit pg spec E" and c: "agg_content pg spec V envs" and m: "merged s envs E envs'"
    and "small envs'"
  then obtain k where E: "\<forall>env \<in> set E. ekey pg spec env = k" "E \<noteq> []" and len: "int (length envs') < 2 ^ 63"
    by (auto simp: agg_unit_def small_def)
  from c obtain cnt where wf: "wf_aggregate spec" "sp_count_alias spec = Some cnt"
    and shape: "sp_shape spec = Aggregate"
    by (auto simp: agg_content_def wf_aggregate_iff)
  from c have rep: "agg_rep pg spec V envs" and json: "json_ok pg (table_columns spec)"
    by (simp_all add: agg_content_def)
  from aggregate_step [OF wf rep m E json_group_row [OF json] len]
  obtain V' evs where
    "aggregate_row pg spec s (pg_to_jsonb pg (group_row pg spec E)) V = Inr (V', delta_texts pg evs)"
    "agg_rep pg spec V' envs'"
    "replay id (vkey spec) evs (lookup (vkey spec) V) = Some (lookup (vkey spec) V')" by blast
  then show "\<exists>V' evs. run_row pg spec (row_op pg spec s E) V = Inr (V', delta_texts pg evs) \<and>
      agg_content pg spec V' envs' \<and>
      replay id (vkey spec) evs (lookup (vkey spec) V) = Some (lookup (vkey spec) V')"
    using wf json shape
    by (intro exI [of _ V'] exI [of _ evs]) (simp add: run_row_def row_op_def execute_op_def agg_content_def)
next
  fix V envs envs'
  assume c: "agg_content pg spec V envs" and m: "mset envs = mset envs'"
  then obtain cnt where wf: "wf_aggregate spec" "sp_count_alias spec = Some cnt"
    by (auto simp: agg_content_def wf_aggregate_iff)
  with c agg_rep_mset [OF wf _ m] show "agg_content pg spec V envs'" by (simp add: agg_content_def)
qed (auto simp: small_less delta_texts_append)

section \<open>Projections\<close>

definition wf_projection :: "view_spec \<Rightarrow> bool" where
  "wf_projection spec \<longleftrightarrow>
     sp_shape spec = Projection \<and> sp_group_by spec = None \<and> distinct (map snd (sp_select_list spec)) \<and>
     sp_pk_view_columns spec \<noteq> []"

definition pkey :: "view_spec \<Rightarrow> row \<Rightarrow> datum list" where
  "pkey spec v = map (col v) (sp_pk_view_columns spec)"

text \<open>The rows of a projection have distinct keys without NULLs.\<close>

definition keyed :: "pg \<Rightarrow> view_spec \<Rightarrow> env list \<Rightarrow> bool" where
  "keyed pg spec envs \<longleftrightarrow>
     distinct (map (\<lambda>env. pkey spec (group_row pg spec [env])) envs) \<and>
     (\<forall>env \<in> set envs. Null \<notin> set (pkey spec (group_row pg spec [env])))"

definition proj_unit :: "env list \<Rightarrow> bool" where
  "proj_unit E \<longleftrightarrow> (\<exists>env. E = [env])"

definition proj_content :: "pg \<Rightarrow> view_spec \<Rightarrow> row list \<Rightarrow> env list \<Rightarrow> bool" where
  "proj_content pg spec V envs \<longleftrightarrow>
     wf_projection spec \<and> json_ok pg (table_columns spec) \<and>
     mset V = mset (map (\<lambda>env. group_row pg spec [env]) envs)"

lemma keyed_less:
  assumes "keyed pg spec envs" and "mset envs' \<subseteq># mset envs"
  shows "keyed pg spec envs'"
proof -
  let ?f = "\<lambda>env. pkey spec (group_row pg spec [env])"
  obtain M where "mset envs = mset envs' + M"
    using assms(2) by (auto simp: mset_subset_eq_exists_conv)
  moreover obtain zs where "mset zs = M" using ex_mset by blast
  ultimately have "mset envs = mset (envs' @ zs)" by simp
  then have "mset (map ?f envs) = mset (map ?f (envs' @ zs))"
    by (simp only: mset_map)
  then have "distinct (map ?f (envs' @ zs))"
    using assms(1) mset_eq_imp_distinct_iff unfolding keyed_def by blast
  then have "distinct (map ?f envs')" by simp
  moreover have "set envs' \<subseteq> set envs" using set_mset_mono [OF assms(2)] by simp
  ultimately show ?thesis using assms(1) by (auto simp: keyed_def)
qed

lemma conflicts_pkey:
  "sp_shape spec = Projection \<Longrightarrow> conflicts spec v w \<longleftrightarrow> pkey spec v = pkey spec w \<and> Null \<notin> set (pkey spec v)"
  by (force simp: conflicts_def sql_eq_def pkey_def)

lemma pk_match:
  "(\<forall>c \<in> set (sp_pk_view_columns spec). sql_eq (col v c) (col w c)) \<longleftrightarrow>
     pkey spec v = pkey spec w \<and> Null \<notin> set (pkey spec v)"
  by (force simp: sql_eq_def pkey_def)

lemma proj_distinct:
  assumes "mset V = mset (map (\<lambda>env. group_row pg spec [env]) envs)" and "keyed pg spec envs"
  shows "distinct (map (pkey spec) V)" and "\<forall>v \<in> set V. Null \<notin> set (pkey spec v)"
proof -
  have "mset (map (pkey spec) V) = image_mset (pkey spec) (mset (map (\<lambda>env. group_row pg spec [env]) envs))"
    using assms(1) by simp
  also have "\<dots> = mset (map (\<lambda>env. pkey spec (group_row pg spec [env])) envs)"
    by (simp add: image_mset.compositionality comp_def)
  finally show "distinct (map (pkey spec) V)"
    using assms(2) mset_eq_imp_distinct_iff by (fastforce simp: keyed_def)
  have "set V = (\<lambda>env. group_row pg spec [env]) ` set envs"
    using mset_eq_setD [OF assms(1)] by simp
  then show "\<forall>v \<in> set V. Null \<notin> set (pkey spec v)" using assms(2) by (auto simp: keyed_def)
qed

lemma proj_split:
  assumes "mset V = mset (map (\<lambda>env. group_row pg spec [env]) envs)"
    and "mset envs = mset envs' + {#env#}"
  obtains xs ys where "V = xs @ group_row pg spec [env] # ys"
    and "mset (xs @ ys) = mset (map (\<lambda>env. group_row pg spec [env]) envs')"
proof -
  have m: "mset V = add_mset (group_row pg spec [env]) (mset (map (\<lambda>env. group_row pg spec [env]) envs'))"
    using assms by simp
  then have "group_row pg spec [env] \<in> set V"
    by (metis set_mset_mset union_single_eq_member add_mset_add_single union_commute)
  then obtain xs ys where V: "V = xs @ group_row pg spec [env] # ys" by (auto dest: split_list)
  show thesis using V m that [OF V] by simp
qed

lemma projection_insert:
  assumes "proj_content pg spec V envs" and m: "mset envs' = mset envs + {#env#}" and "keyed pg spec envs'"
  shows "projection_row pg spec 1 (pg_to_jsonb pg (group_row pg spec [env])) V =
      Inr (V @ [group_row pg spec [env]], delta_texts pg [(CHR ''I'', group_row pg spec [env])])"
    and "proj_content pg spec (V @ [group_row pg spec [env]]) envs'"
    and "replay id (pkey spec) [(CHR ''I'', group_row pg spec [env])] (lookup (pkey spec) V) =
      Some (lookup (pkey spec) (V @ [group_row pg spec [env]]))"
proof -
  let ?r = "group_row pg spec [env]"
  have wf: "sp_shape spec = Projection" and json: "json_ok pg (table_columns spec)"
    and V: "mset V = mset (map (\<lambda>env. group_row pg spec [env]) envs)"
    using assms(1) by (auto simp: proj_content_def wf_projection_def)
  have V': "mset (V @ [?r]) = mset (map (\<lambda>env. group_row pg spec [env]) envs')"
    using V m by simp
  have d: "distinct (map (pkey spec) (V @ [?r]))" using V' assms(3) by (rule proj_distinct)
  then have free: "pkey spec ?r \<notin> pkey spec ` set V" by simp
  then have "\<not> (\<exists>v \<in> set V. conflicts spec v ?r)"
    unfolding conflicts_pkey [OF wf] by (metis imageI)
  then show "projection_row pg spec 1 (pg_to_jsonb pg ?r) V = Inr (V @ [?r], delta_texts pg [(CHR ''I'', ?r)])"
    by (simp add: projection_row_def json_group_row [OF json] delta_texts_def)
  show "proj_content pg spec (V @ [?r]) envs'"
    using V' assms(1) by (simp add: proj_content_def)
  show "replay id (pkey spec) [(CHR ''I'', ?r)] (lookup (pkey spec) V) = Some (lookup (pkey spec) (V @ [?r]))"
    using free by (simp add: replay_step_def lookup_snoc [OF d] lookup_None_iff)
qed

lemma filter_key_split:
  assumes "distinct (map f (xs @ v # ys))" and "\<And>w. p w \<longleftrightarrow> f w = f v"
  shows "filter p (xs @ v # ys) = [v]" and "filter (\<lambda>w. \<not> p w) (xs @ v # ys) = xs @ ys"
proof -
  have "f w \<noteq> f v" if "w \<in> set (xs @ ys)" for w
    using assms(1) that by (auto simp: image_iff)
  then have "\<And>w. w \<in> set xs \<Longrightarrow> \<not> p w" "\<And>w. w \<in> set ys \<Longrightarrow> \<not> p w" using assms(2) by auto
  then show "filter p (xs @ v # ys) = [v]" "filter (\<lambda>w. \<not> p w) (xs @ v # ys) = xs @ ys"
    using assms(2) by (simp_all add: filter_empty_conv filter_id_conv)
qed

text \<open>Deleting by a condition that holds exactly for the key of one row.\<close>

lemma projection_remove:
  assumes c: "proj_content pg spec V envs" and m: "mset envs = mset envs' + {#env#}"
    and k: "keyed pg spec envs"
    and p: "\<And>w. p w \<longleftrightarrow> pkey spec w = pkey spec (group_row pg spec [env])"
  obtains V' where "delete_where pg p V = (V', delta_texts pg [(CHR ''D'', group_row pg spec [env])])"
    and "proj_content pg spec V' envs'"
    and "replay id (pkey spec) [(CHR ''D'', group_row pg spec [env])] (lookup (pkey spec) V) =
      Some (lookup (pkey spec) V')"
proof -
  let ?r = "group_row pg spec [env]"
  have V: "mset V = mset (map (\<lambda>env. group_row pg spec [env]) envs)"
    using c by (simp add: proj_content_def)
  from proj_split [OF V m] obtain xs ys where xs: "V = xs @ ?r # ys"
    and V': "mset (xs @ ys) = mset (map (\<lambda>env. group_row pg spec [env]) envs')" by blast
  have d: "distinct (map (pkey spec) V)" using V k by (rule proj_distinct)
  show thesis
  proof (rule that)
    show "delete_where pg p V = (xs @ ys, delta_texts pg [(CHR ''D'', ?r)])"
      using filter_key_split [OF d [unfolded xs] p] by (simp add: delete_where_def delta_texts_def xs)
    show "proj_content pg spec (xs @ ys) envs'"
      using V' c by (simp add: proj_content_def)
    show "replay id (pkey spec) [(CHR ''D'', ?r)] (lookup (pkey spec) V) = Some (lookup (pkey spec) (xs @ ys))"
      using lookup_remove [OF d [unfolded xs]] d
      by (simp add: replay_step_def lookup_Some_iff xs)
  qed
qed

interpretation projection: maintained "run_row pg spec" "delta_texts pg" "pkey spec" proj_unit
    "row_op pg spec" "proj_content pg spec" "keyed pg spec"
  for pg spec
proof
  fix E V envs s envs'
  assume "proj_unit E" and c: "proj_content pg spec V envs" and m: "merged s envs E envs'"
    and k: "keyed pg spec envs" "keyed pg spec envs'"
  then obtain env where E: "E = [env]" by (auto simp: proj_unit_def)
  have shape: "sp_shape spec = Projection" and pk: "sp_pk_view_columns spec \<noteq> []"
    and json: "json_ok pg (table_columns spec)"
    using c by (auto simp: proj_content_def wf_projection_def)
  consider (insert) "s = 1" "mset envs' = mset envs + {#env#}" | (remove) "s = - 1" "mset envs = mset envs' + {#env#}"
    using m E by (auto simp: merged_def)
  then show "\<exists>V' evs. run_row pg spec (row_op pg spec s E) V = Inr (V', delta_texts pg evs) \<and>
      proj_content pg spec V' envs' \<and>
      replay id (pkey spec) evs (lookup (pkey spec) V) = Some (lookup (pkey spec) V')"
  proof cases
    case insert
    from projection_insert [OF c insert(2) k(2)] show ?thesis
      using shape insert(1) E
      by (intro exI [of _ "V @ [group_row pg spec [env]]"] exI [of _ "[(CHR ''I'', group_row pg spec [env])]"])
        (simp add: run_row_def row_op_def execute_op_def)
  next
    case remove
    let ?p = "\<lambda>v. \<forall>c \<in> set (sp_pk_view_columns spec). sql_eq (col v c) (col (group_row pg spec [env]) c)"
    have "env \<in> set envs" using remove(2) by (metis set_mset_mset union_iff union_single_eq_member add_mset_add_single)
    then have "Null \<notin> set (pkey spec (group_row pg spec [env]))" using k(1) by (simp add: keyed_def)
    then have "?p w \<longleftrightarrow> pkey spec w = pkey spec (group_row pg spec [env])" for w
      unfolding pk_match by auto
    from projection_remove [OF c remove(2) k(1) this]
    obtain V' where V': "delete_where pg ?p V = (V', delta_texts pg [(CHR ''D'', group_row pg spec [env])])"
      "proj_content pg spec V' envs'"
      "replay id (pkey spec) [(CHR ''D'', group_row pg spec [env])] (lookup (pkey spec) V) =
        Some (lookup (pkey spec) V')" by blast
    then show ?thesis
      using shape pk remove(1) E json_group_row [OF json, of "[env]"]
      by (intro exI [of _ V'] exI [of _ "[(CHR ''D'', group_row pg spec [env])]"])
        (simp add: run_row_def row_op_def execute_op_def projection_row_def)
  qed
next
  fix V envs envs'
  assume "proj_content pg spec V envs" and "mset envs = mset envs'"
  then show "proj_content pg spec V envs'" by (simp add: proj_content_def)
qed (auto simp: keyed_less delta_texts_append)

section \<open>The content of a view\<close>

text \<open>
  \<open>view_query\<close> is the view's query over the rows of its FROM list; \<open>view_ok\<close> are the conditions on
  these rows: a well-formed specification, and counts in range or distinct non-null keys.
\<close>

definition view_query :: "pg \<Rightarrow> view_spec \<Rightarrow> env list \<Rightarrow> string + row list" where
  "view_query pg spec envs =
     sql_select pg (sp_select_list spec) (sp_predicate spec) (sp_group_by spec) envs"

definition view_total :: "pg \<Rightarrow> view_spec \<Rightarrow> env list \<Rightarrow> bool" where
  "view_total pg spec envs \<longleftrightarrow>
     no_errors pg (sp_select_list spec) (sp_predicate spec) (sp_group_by spec) envs"

definition kept :: "pg \<Rightarrow> view_spec \<Rightarrow> env list \<Rightarrow> env list" where
  "kept pg spec envs = filter (holds pg (sp_predicate spec)) envs"

definition view_ok :: "pg \<Rightarrow> view_spec \<Rightarrow> env list \<Rightarrow> bool" where
  "view_ok pg spec envs \<longleftrightarrow>
     json_ok pg (table_columns spec) \<and> view_total pg spec envs \<and>
     (wf_aggregate spec \<and> small envs \<or> wf_projection spec \<and> keyed pg spec (kept pg spec envs))"

text \<open>The identity of a view row, as \<open>net\<close> and the unique index see it.\<close>

definition row_ident :: "view_spec \<Rightarrow> row \<Rightarrow> datum list" where
  "row_ident spec v = map (col v) (identity_columns spec)"

lemma row_ident_agg: "wf_aggregate spec \<Longrightarrow> row_ident spec = vkey spec"
  by (auto simp: row_ident_def vkey_def identity_columns_def wf_aggregate_iff fun_eq_iff)

lemma row_ident_proj: "wf_projection spec \<Longrightarrow> row_ident spec = pkey spec"
  by (auto simp: row_ident_def pkey_def identity_columns_def wf_projection_def fun_eq_iff)

definition units :: "pg \<Rightarrow> view_spec \<Rightarrow> env list \<Rightarrow> env list list" where
  "units pg spec envs = group_rows pg (sp_group_by spec) (kept pg spec envs)"

lemma view_query_total:
  "view_total pg spec envs \<Longrightarrow> view_query pg spec envs = Inr (map (group_row pg spec) (units pg spec envs))"
  by (simp add: view_query_def view_total_def sql_select_total units_def kept_def group_row_def [abs_def]
      out_row_def [abs_def])

lemma delta_rows_total:
  "view_total pg spec envs \<Longrightarrow> delta_rows pg spec envs s = Inr (map (row_op pg spec s) (units pg spec envs))"
  using view_query_total [of pg spec envs]
  by (simp add: delta_rows_def view_query_def row_op_def comp_def)

lemma view_total_subset: "view_total pg spec envs \<Longrightarrow> set E \<subseteq> set envs \<Longrightarrow> view_total pg spec E"
  by (auto simp: view_total_def no_errors_def)

lemma merged_subset: "merged s envs E envs' \<Longrightarrow> set E \<subseteq> set envs \<or> set E \<subseteq> set envs'"
  unfolding merged_def by (metis set_mset_mset set_mset_union sup_ge2)

lemma merged_kept: "merged s envs E envs' \<Longrightarrow> merged s (kept pg spec envs) (kept pg spec E) (kept pg spec envs')"
  by (auto simp: merged_def kept_def)

text \<open>The groups of a query partition its rows.\<close>

lemma mset_groups:
  "distinct ks \<Longrightarrow> mset (concat (map (\<lambda>k. filter (\<lambda>x. f x = k) xs) ks)) = mset (filter (\<lambda>x. f x \<in> set ks) xs)"
proof (induction ks)
  case Nil
  show ?case by simp
next
  case (Cons k ks)
  have "filter_mset (\<lambda>x. f x = k \<or> f x \<in> set ks) (mset xs) =
    filter_mset (\<lambda>x. f x = k) (mset xs) + filter_mset (\<lambda>x. f x \<in> set ks) (mset xs)"
    using Cons.prems by (induction xs) auto
  with Cons show ?case by simp
qed

lemma split_groups_agg:
  assumes "wf_aggregate spec"
  shows "units pg spec envs =
    map (\<lambda>k. grp pg spec k (kept pg spec envs)) (remdups (map (ekey pg spec) (kept pg spec envs)))"
  using assms
  by (simp add: units_def group_rows_def wf_aggregate_iff split_groups_def grp_def ekey_def [abs_def]
      comp_def filter_map)

lemma agg_units:
  assumes "wf_aggregate spec"
  shows "\<forall>E \<in> set (units pg spec envs). agg_unit pg spec E"
    and "mset (concat (units pg spec envs)) = mset (kept pg spec envs)"
proof -
  let ?ks = "remdups (map (ekey pg spec) (kept pg spec envs))"
  show "\<forall>E \<in> set (units pg spec envs). agg_unit pg spec E"
    unfolding split_groups_agg [OF assms] by (auto simp: agg_unit_def grp_def filter_empty_conv)
  have "mset (concat (units pg spec envs)) =
    mset (filter (\<lambda>env. ekey pg spec env \<in> set ?ks) (kept pg spec envs))"
    unfolding split_groups_agg [OF assms] grp_def by (rule mset_groups) simp
  also have "filter (\<lambda>env. ekey pg spec env \<in> set ?ks) (kept pg spec envs) = kept pg spec envs"
    by (rule filter_True) simp
  finally show "mset (concat (units pg spec envs)) = mset (kept pg spec envs)" .
qed

lemma proj_units:
  assumes "wf_projection spec"
  shows "units pg spec envs = map (\<lambda>env. [env]) (kept pg spec envs)"
  using assms by (simp add: units_def group_rows_def wf_projection_def)

text \<open>A table holds the query exactly when it represents it.\<close>

lemma mset_eq_lookup:
  assumes "distinct (map f W)"
  shows "mset V = mset W \<longleftrightarrow> distinct (map f V) \<and> lookup f V = lookup f W"
proof
  assume m: "mset V = mset W"
  then have "mset (map f V) = mset (map f W)" by simp
  with assms have d: "distinct (map f V)" using mset_eq_imp_distinct_iff by blast
  moreover have "lookup f V k = Some v \<longleftrightarrow> lookup f W k = Some v" for k v
    using mset_eq_setD [OF m] by (simp add: lookup_Some_iff [OF d] lookup_Some_iff [OF assms])
  then have "lookup f V = lookup f W" by (metis ext not_Some_eq)
  ultimately show "distinct (map f V) \<and> lookup f V = lookup f W" by blast
next
  assume V: "distinct (map f V) \<and> lookup f V = lookup f W"
  have "v \<in> set V \<longleftrightarrow> v \<in> set W" for v
    using V lookup_Some_iff [of f V "f v" v] lookup_Some_iff [OF assms, of "f v" v] by simp
  then have "set V = set W" by blast
  moreover have "distinct V" "distinct W" using V assms distinct_map by blast+
  ultimately show "mset V = mset W" by (simp add: set_eq_iff_mset_eq_distinct)
qed

lemma agg_rep_iff:
  assumes wf: "wf_aggregate spec"
  shows "agg_rep pg spec V (kept pg spec envs) \<longleftrightarrow> mset V = mset (map (group_row pg spec) (units pg spec envs))"
proof -
  obtain cnt where cnt: "sp_count_alias spec = Some cnt" using wf by (auto simp: wf_aggregate_iff)
  let ?ks = "remdups (map (ekey pg spec) (kept pg spec envs))"
  let ?row = "\<lambda>k. group_row pg spec (grp pg spec k (kept pg spec envs))"
  let ?W = "map (group_row pg spec) (units pg spec envs)"
  have W: "?W = map ?row ?ks" by (simp add: split_groups_agg [OF wf])
  have ne: "grp pg spec k (kept pg spec envs) \<noteq> [] \<longleftrightarrow> k \<in> set ?ks" for k
    by (auto simp: grp_def filter_empty_conv)
  have key: "vkey spec (?row k) = k" if "k \<in> set ?ks" for k
    using that ne by (intro vkey_group_row [OF wf cnt]) (simp_all add: grp_def)
  then have "map (\<lambda>k. vkey spec (?row k)) ?ks = ?ks" by (intro map_idI)
  then have "map (vkey spec) ?W = ?ks" unfolding W by (simp add: comp_def)
  then have d: "distinct (map (vkey spec) ?W)" by simp
  have "lookup (vkey spec) ?W k = Some v \<longleftrightarrow> k \<in> set ?ks \<and> v = ?row k" for k v
    unfolding lookup_Some_iff [OF d] unfolding W using key by auto
  then have "lookup (vkey spec) ?W =
    (\<lambda>k. if grp pg spec k (kept pg spec envs) = [] then None else Some (?row k))"
    using ne by (intro ext) (metis not_Some_eq)
  then show ?thesis unfolding mset_eq_lookup [OF d] agg_rep_def by metis
qed

lemma execute_run: "execute_op pg spec = aggregate.run pg spec" "execute_op pg spec = projection.run pg spec"
proof -
  have "execute_op pg spec operation st =
    rbind (run_row pg spec operation (fst st)) (\<lambda>(rows', ds). Inr (rows', snd st @ ds))" for operation st
    unfolding run_row_def execute_op_def
    by (cases st) (simp add: rbind_def split: sum.split op.split shape.split)
  then show "execute_op pg spec = aggregate.run pg spec" "execute_op pg spec = projection.run pg spec"
    by (auto simp: fun_eq_iff aggregate.run_def projection.run_def)
qed

text \<open>
  The core of maintenance: planning the view's query over the rows \<open>E\<close> a change adds to or removes
  from the FROM list, and executing the result on a table that holds the query over \<open>envs\<close>, gives a
  table that holds the query over \<open>envs'\<close>, and deltas that take the one to the other.
\<close>

lemma maintain:
  assumes m: "merged s envs E envs'" and ok: "view_ok pg spec envs" "view_ok pg spec envs'"
    and Q: "view_query pg spec envs = Inr Q" and V: "mset V = mset Q"
  shows "\<exists>ops V' evs Q'. delta_rows pg spec E s = Inr ops \<and>
    execute pg spec ops V = Inr (V', delta_texts pg evs) \<and>
    view_query pg spec envs' = Inr Q' \<and> mset V' = mset Q' \<and>
    replay id (row_ident spec) evs (lookup (row_ident spec) V) = Some (lookup (row_ident spec) V')"
proof -
  have total: "view_total pg spec envs" "view_total pg spec envs'"
    using ok by (simp_all add: view_ok_def)
  then have "view_total pg spec E" using merged_subset [OF m] view_total_subset by blast
  then have plan: "delta_rows pg spec E s = Inr (map (row_op pg spec s) (units pg spec E))"
    by (rule delta_rows_total)
  have Qs: "Q = map (group_row pg spec) (units pg spec envs)"
    and Q': "view_query pg spec envs' = Inr (map (group_row pg spec) (units pg spec envs'))"
    using Q total by (simp_all add: view_query_total)
  have mk: "merged s (kept pg spec envs) (kept pg spec E) (kept pg spec envs')"
    using m by (rule merged_kept)
  have json: "json_ok pg (table_columns spec)" using ok by (simp add: view_ok_def)
  consider (agg) "wf_aggregate spec" "small envs" "small envs'"
    | (proj) "wf_projection spec" "keyed pg spec (kept pg spec envs)" "keyed pg spec (kept pg spec envs')"
    using ok by (auto simp: view_ok_def wf_aggregate_iff wf_projection_def)
  then show ?thesis
  proof cases
    case agg
    have c: "agg_content pg spec V (kept pg spec envs)"
      using agg(1) json V by (simp add: agg_content_def agg_rep_iff Qs)
    have mu: "merged s (kept pg spec envs) (concat (units pg spec E)) (kept pg spec envs')"
      using mk agg_units(2) [OF agg(1), of pg E] by (simp add: merged_def)
    have "small (kept pg spec xs)" if "small xs" for xs
      using that le_less_trans [OF length_filter_le [of "holds pg (sp_predicate spec)" xs]]
      by (simp add: small_def kept_def)
    with agg aggregate.batch [OF agg_units(1) [OF agg(1)] c mu, where ds = "[]"]
    obtain V' evs where "rfold (aggregate.run pg spec) (map (row_op pg spec s) (units pg spec E)) (V, []) =
        Inr (V', delta_texts pg evs)" "agg_content pg spec V' (kept pg spec envs')"
      "replay id (vkey spec) evs (lookup (vkey spec) V) = Some (lookup (vkey spec) V')"
      by auto
    then show ?thesis
      using plan Q' agg_rep_iff [OF agg(1)]
      by (auto simp: execute_def execute_run(1) agg_content_def row_ident_agg [OF agg(1)])
  next
    case proj
    have rows: "map (group_row pg spec) (units pg spec xs) = map (\<lambda>env. group_row pg spec [env]) (kept pg spec xs)" for xs
      by (simp add: proj_units [OF proj(1)] comp_def)
    have c: "proj_content pg spec V (kept pg spec envs)"
      using proj(1) json V by (simp add: proj_content_def Qs rows)
    have mu: "merged s (kept pg spec envs) (concat (units pg spec E)) (kept pg spec envs')"
      using mk by (simp add: proj_units [OF proj(1)])
    have un: "\<forall>E \<in> set (units pg spec E). proj_unit E"
      by (auto simp: proj_units [OF proj(1)] proj_unit_def)
    from projection.batch [OF un c mu proj(2,3), where ds = "[]"]
    obtain V' evs where "rfold (projection.run pg spec) (map (row_op pg spec s) (units pg spec E)) (V, []) =
        Inr (V', delta_texts pg evs)" "proj_content pg spec V' (kept pg spec envs')"
      "replay id (pkey spec) evs (lookup (pkey spec) V) = Some (lookup (pkey spec) V')"
      by auto
    then show ?thesis
      using plan Q'
      by (auto simp: execute_def execute_run(2) proj_content_def row_ident_proj [OF proj(1)] rows)
  qed
qed

end
