(* ===== verification/View_Maintenance.thy ===== *)
theory View_Maintenance
  imports Maintain
begin

text \<open>
  The correctness of single changes at the level of base tables: \<open>T\<close> gives the rows of every base
  table, \<open>view_holds\<close> says that a storage table holds the view's query over them, and each property
  follows one row change of one table through planning and execution.
\<close>

section \<open>Tables and views\<close>

definition view_sources :: "(u32 \<Rightarrow> row list) \<Rightarrow> base_relation list \<Rightarrow> (string \<times> row list) list" where
  "view_sources T rels = map (\<lambda>b. (br_alias b, T (br_oid b))) rels"

text \<open>
  The rows of the view's FROM list: every relation under its alias for a join view, the base table
  under its own name otherwise.
\<close>

definition from_envs :: "view_spec \<Rightarrow> (u32 \<Rightarrow> row list) \<Rightarrow> env list" where
  "from_envs spec T =
     cross (if is_join spec then view_sources T (sp_relations spec)
            else [(sp_base_relname spec, T (br_oid (hd (sp_relations spec))))])"

definition view_holds :: "pg \<Rightarrow> view_spec \<Rightarrow> (u32 \<Rightarrow> row list) \<Rightarrow> row list \<Rightarrow> bool" where
  "view_holds pg spec T V \<longleftrightarrow>
     (\<exists>Q. view_query pg spec (from_envs spec T) = Inr Q \<and> mset V = mset Q)"

text \<open>
  \<open>changed s T o1 r T'\<close>: the row \<open>r\<close> was inserted into (sign 1) or deleted from (sign -1) table \<open>o1\<close>.
\<close>

definition changed :: "int \<Rightarrow> (u32 \<Rightarrow> row list) \<Rightarrow> u32 \<Rightarrow> row \<Rightarrow> (u32 \<Rightarrow> row list) \<Rightarrow> bool" where
  "changed s T o1 r T' \<longleftrightarrow> merged s (T o1) [r] (T' o1) \<and> (\<forall>o2. o2 \<noteq> o1 \<longrightarrow> T' o2 = T o2)"

section \<open>The cross product is linear in each source\<close>

lemma mset_concat_map: "mset (concat (map f xs)) = sum_mset (image_mset (\<lambda>x. mset (f x)) (mset xs))"
  by (induction xs) auto

lemma mset_cross_Cons:
  "mset (cross ((a, rows) # fs)) =
     sum_mset (image_mset (\<lambda>r. image_mset (\<lambda>env. (a, r) # env) (mset (cross fs))) (mset rows))"
  by (simp add: mset_concat_map)

lemma cross_add:
  assumes "mset rows = mset rows1 + mset rows2"
  shows "mset (cross (pre @ (a, rows) # post)) =
    mset (cross (pre @ (a, rows1) # post)) + mset (cross (pre @ (a, rows2) # post))"
proof (induction pre)
  case Nil
  show ?case using assms by (simp only: append_Nil mset_cross_Cons) simp
next
  case (Cons p pre)
  obtain a' rows' where p: "p = (a', rows')" by (cases p)
  show ?case
    by (simp only: p append_Cons mset_cross_Cons Cons.IH image_mset_union sum_mset.distrib)
qed

lemma cross_merged:
  assumes "merged s rows [r] rows'"
  shows "merged s (cross (pre @ (a, rows) # post)) (cross (pre @ (a, [r]) # post))
    (cross (pre @ (a, rows') # post))"
  using assms cross_add [of rows' rows "[r]" pre a post] cross_add [of rows rows' "[r]" pre a post]
  by (auto simp: merged_def)

text \<open>A change of one relation of a join changes one source.\<close>

lemma join_sources_split:
  assumes "i < length rels" and "br_oid (rels ! i) = o1" and "distinct (map br_oid rels)"
    and "changed s T o1 r T'" and "\<forall>o2. o2 \<noteq> o1 \<longrightarrow> shadows o2 = T o2"
  obtains pre post where
    "view_sources T rels = pre @ (br_alias (rels ! i), T o1) # post"
    and "view_sources T' rels = pre @ (br_alias (rels ! i), T' o1) # post"
    and "join_sources shadows i r rels = pre @ (br_alias (rels ! i), [r]) # post"
proof -
  let ?pre = "map (\<lambda>b. (br_alias b, T (br_oid b))) (take i rels)"
  let ?post = "map (\<lambda>b. (br_alias b, T (br_oid b))) (drop (Suc i) rels)"
  have rels: "rels = take i rels @ rels ! i # drop (Suc i) rels" using assms(1) by (rule id_take_nth_drop)
  have other: "br_oid b \<noteq> o1" if "b \<in> set (take i rels) \<or> b \<in> set (drop (Suc i) rels)" for b
  proof -
    have "distinct (map br_oid (take i rels @ rels ! i # drop (Suc i) rels))" using assms(3) rels by simp
    then show ?thesis using that assms(2) by (auto simp: image_iff)
  qed
  have T': "T' (br_oid b) = T (br_oid b)" and S: "shadows (br_oid b) = T (br_oid b)"
    if "b \<in> set (take i rels) \<or> b \<in> set (drop (Suc i) rels)" for b
    using other [OF that] assms(4,5) by (auto simp: changed_def)
  have "map (\<lambda>b. (br_alias b, T' (br_oid b))) (take i rels) = ?pre"
    "map (\<lambda>b. (br_alias b, T' (br_oid b))) (drop (Suc i) rels) = ?post"
    using T' by simp_all
  then have vs: "view_sources T rels = ?pre @ (br_alias (rels ! i), T o1) # ?post"
    "view_sources T' rels = ?pre @ (br_alias (rels ! i), T' o1) # ?post"
    unfolding view_sources_def using assms(2)
    by (subst rels, simp)+
  have "join_sources shadows i r rels = ?pre @ (br_alias (rels ! i), [r]) # ?post"
  proof (rule nth_equalityI)
    show "length (join_sources shadows i r rels) = length (?pre @ (br_alias (rels ! i), [r]) # ?post)"
      using assms(1) by (simp add: join_sources_def)
  next
    fix j
    assume "j < length (join_sources shadows i r rels)"
    then have j: "j < length rels" by (simp add: join_sources_def)
    have "rels ! j \<in> set (take i rels)" if "j < i"
      using that j by (metis in_set_conv_nth length_take min_less_iff_conj nth_take)
    moreover have "rels ! j \<in> set (drop (Suc i) rels)" if "i < j"
    proof -
      have "drop (Suc i) rels ! (j - Suc i) = rels ! j" and "j - Suc i < length (drop (Suc i) rels)"
        using that j by simp_all
      then show ?thesis by (metis nth_mem)
    qed
    ultimately show "join_sources shadows i r rels ! j = (?pre @ (br_alias (rels ! i), [r]) # ?post) ! j"
      using j assms(1) S [of "rels ! j"]
      by (cases "j = i") (auto simp: join_sources_def nth_append nth_enumerate_eq nth_Cons' min_def)
  qed
  with vs that show thesis by blast
qed

section \<open>One changed row\<close>

lemma single_merged:
  assumes "\<not> is_join spec" and "changed s T (br_oid (hd (sp_relations spec))) r T'"
  shows "merged s (from_envs spec T) [[(sp_base_relname spec, r)]] (from_envs spec T')"
  using cross_merged [of s "T (br_oid (hd (sp_relations spec)))" r "T' (br_oid (hd (sp_relations spec)))"
      "[]" "sp_base_relname spec" "[]"] assms
  by (simp add: from_envs_def changed_def)

lemma join_merged:
  assumes "is_join spec" and "i < length (sp_relations spec)" and "br_oid (sp_relations spec ! i) = o1"
    and "distinct (map br_oid (sp_relations spec))"
    and "changed s T o1 r T'" and "\<forall>o2. o2 \<noteq> o1 \<longrightarrow> shadows o2 = T o2"
  shows "merged s (from_envs spec T) (cross (join_sources shadows i r (sp_relations spec))) (from_envs spec T')"
proof -
  obtain pre post where
    "view_sources T (sp_relations spec) = pre @ (br_alias (sp_relations spec ! i), T o1) # post"
    "view_sources T' (sp_relations spec) = pre @ (br_alias (sp_relations spec ! i), T' o1) # post"
    "join_sources shadows i r (sp_relations spec) = pre @ (br_alias (sp_relations spec ! i), [r]) # post"
    using join_sources_split [OF assms(2-6)] by blast
  then show ?thesis
    using cross_merged [of s "T o1" r "T' o1" pre "br_alias (sp_relations spec ! i)" post] assms(1,5)
    by (simp add: from_envs_def changed_def)
qed

text \<open>The maintenance lemma, in terms of tables.\<close>

lemma maintain_view:
  assumes "merged s (from_envs spec T) E (from_envs spec T')"
    and "view_ok pg spec (from_envs spec T)" "view_ok pg spec (from_envs spec T')"
    and "view_holds pg spec T V"
  shows "\<exists>ops V' evs. delta_rows pg spec E s = Inr ops \<and>
    execute pg spec ops V = Inr (V', delta_texts pg evs) \<and> view_holds pg spec T' V' \<and>
    replay id (row_ident spec) evs (lookup (row_ident spec) V) = Some (lookup (row_ident spec) V')"
  using maintain [OF assms(1-3)] assms(4) unfolding view_holds_def by blast

section \<open>Deleting by key\<close>

text \<open>
  The decoded old tuple carries the primary key of the row \<open>r\<close>: each key column is there as a text
  whose cast is the row's value, and the view selects it.
\<close>

definition carries_key :: "pg \<Rightarrow> view_spec \<Rightarrow> relation \<Rightarrow> tuple \<Rightarrow> row \<Rightarrow> bool" where
  "carries_key pg spec rel old r \<longleftrightarrow>
     length (sp_pk_columns spec) = length (sp_pk_view_columns spec) \<and>
     (\<forall>(pk, vc) \<in> set (zip (sp_pk_columns spec) (sp_pk_view_columns spec)).
        (\<exists>idx ty s. rel_column_index rel pk = Some idx \<and> rc_type_name (rel_columns rel ! idx) = Some ty \<and>
           nth_opt old idx = Some (CText s) \<and> pg_cast pg ty s = Inr (col r pk)) \<and>
        col (group_row pg spec [[(sp_base_relname spec, r)]]) vc = col r pk)"

lemma key_conditions_ok:
  assumes "\<forall>(pk, vc) \<in> set pks. (\<exists>idx ty s. rel_column_index rel pk = Some idx \<and>
      rc_type_name (rel_columns rel ! idx) = Some ty \<and> nth_opt old idx = Some (CText s) \<and>
      pg_cast pg ty s = Inr (d pk))"
  shows "\<exists>conds vals. key_conditions rel old pks = Inr (Inr (conds, vals)) \<and>
    length conds = length pks \<and>
    key_datums pg conds vals = Inr (map (\<lambda>(pk, vc). (vc, d pk)) pks)"
  using assms
proof (induction pks)
  case Nil
  show ?case by simp
next
  case (Cons p pks)
  obtain pk vc where p: "p = (pk, vc)" by (cases p)
  from Cons obtain conds vals where IH: "key_conditions rel old pks = Inr (Inr (conds, vals))"
    "length conds = length pks" "key_datums pg conds vals = Inr (map (\<lambda>(pk, vc). (vc, d pk)) pks)"
    by auto
  from Cons.prems p obtain idx ty s where "rel_column_index rel pk = Some idx"
    "rc_type_name (rel_columns rel ! idx) = Some ty" "nth_opt old idx = Some (CText s)"
    "pg_cast pg ty s = Inr (d pk)" by auto
  with IH p show ?case by (simp del: nth_opt_Some)
qed

lemma delete_by_key_maintains:
  assumes wf: "wf_projection spec" and single: "\<not> is_join spec"
    and ch: "changed (- 1) T (br_oid (hd (sp_relations spec))) r T'"
    and ok: "view_ok pg spec (from_envs spec T)" "view_ok pg spec (from_envs spec T')"
    and keyed: "keyed pg spec (from_envs spec T)"
    and key: "carries_key pg spec rel old r"
    and V: "view_holds pg spec T V"
  shows "\<exists>ops V' evs. plan_single_delete pg spec rel kind old = Inr (Ops ops) \<and>
    execute pg spec ops V = Inr (V', delta_texts pg evs) \<and> view_holds pg spec T' V' \<and>
    replay id (row_ident spec) evs (lookup (row_ident spec) V) = Some (lookup (row_ident spec) V')"
proof -
  let ?pks = "zip (sp_pk_columns spec) (sp_pk_view_columns spec)"
  let ?env = "[(sp_base_relname spec, r)]"
  let ?r = "group_row pg spec [?env]"
  have shape: "sp_shape spec = Projection" and pkne: "sp_pk_view_columns spec \<noteq> []"
    using wf by (auto simp: wf_projection_def)
  have json: "json_ok pg (table_columns spec)" using ok by (simp add: view_ok_def)
  have len: "length (sp_pk_columns spec) = length (sp_pk_view_columns spec)"
    using key by (simp add: carries_key_def)
  obtain conds vals where conds: "key_conditions rel old ?pks = Inr (Inr (conds, vals))"
    "length conds = length ?pks" "key_datums pg conds vals = Inr (map (\<lambda>(pk, vc). (vc, col r pk)) ?pks)"
  proof -
    have "\<forall>(pk, vc) \<in> set ?pks. (\<exists>idx ty s. rel_column_index rel pk = Some idx \<and>
      rc_type_name (rel_columns rel ! idx) = Some ty \<and> nth_opt old idx = Some (CText s) \<and>
      pg_cast pg ty s = Inr (col r pk))"
      using key unfolding carries_key_def case_prod_unfold by blast
    from key_conditions_ok [OF this] that show thesis by blast
  qed
  have plan: "plan_single_delete pg spec rel kind old = Inr (Ops [DeleteByKey conds vals])"
    using shape conds(1) by (simp add: plan_single_delete_def)
  have "conds \<noteq> []" using conds(2) len pkne by auto
  let ?p = "\<lambda>v. \<forall>(c, d) \<in> set (map (\<lambda>(pk, vc). (vc, col r pk)) ?pks). sql_eq (col v c) d"
  have exec: "execute pg spec [DeleteByKey conds vals] V = Inr (delete_where pg ?p V)"
    using \<open>conds \<noteq> []\<close> conds(3)
    by (simp add: execute_def execute_op_def delete_by_key_def case_prod_unfold)
  have m: "mset (from_envs spec T) = mset (from_envs spec T') + {#?env#}"
    using single_merged [OF single ch] by (simp add: merged_def)
  have envT: "?env \<in> set (from_envs spec T)"
    using m by (metis set_mset_mset union_iff union_single_eq_member add_mset_add_single)
  then have nonnull: "Null \<notin> set (pkey spec ?r)" using keyed by (simp add: keyed_def)
  have match: "?p v \<longleftrightarrow> pkey spec v = pkey spec ?r" for v
  proof -
    have "?p v \<longleftrightarrow> (\<forall>(pk, vc) \<in> set ?pks. sql_eq (col v vc) (col ?r vc))"
      using key by (fastforce simp: carries_key_def)
    also have "\<dots> \<longleftrightarrow> (\<forall>vc \<in> set (sp_pk_view_columns spec). sql_eq (col v vc) (col ?r vc))"
      using len by (metis (no_types, lifting) case_prodD case_prodI2 in_set_zip in_set_conv_nth fst_conv snd_conv)
    finally show ?thesis using nonnull unfolding pk_match by auto
  qed
  obtain Q where Q: "view_query pg spec (from_envs spec T) = Inr Q" "mset V = mset Q"
    using V by (auto simp: view_holds_def)
  have rows: "view_query pg spec (from_envs spec S) =
      Inr (map (\<lambda>env. group_row pg spec [env]) (kept pg spec (from_envs spec S)))"
    if "view_ok pg spec (from_envs spec S)" for S
    using that view_query_total [of pg spec "from_envs spec S"]
    by (simp add: view_ok_def proj_units [OF wf] comp_def)
  have c: "proj_content pg spec V (kept pg spec (from_envs spec T))"
    using wf json Q rows [OF ok(1)] by (simp add: proj_content_def)
  have kk: "keyed pg spec (kept pg spec (from_envs spec T))"
    using keyed by (rule keyed_less) (simp add: kept_def)
  show ?thesis
  proof (cases "holds pg (sp_predicate spec) ?env")
    case True
    have mk: "mset (kept pg spec (from_envs spec T)) = mset (kept pg spec (from_envs spec T')) + {#?env#}"
      using m True by (simp add: kept_def)
    from projection_remove [OF c mk kk match]
    obtain V' where "delete_where pg ?p V = (V', delta_texts pg [(CHR ''D'', ?r)])"
      "proj_content pg spec V' (kept pg spec (from_envs spec T'))"
      "replay id (pkey spec) [(CHR ''D'', ?r)] (lookup (pkey spec) V) = Some (lookup (pkey spec) V')" by blast
    then show ?thesis
      using plan exec rows [OF ok(2)]
      by (intro exI [of _ "[DeleteByKey conds vals]"] exI [of _ V'] exI [of _ "[(CHR ''D'', ?r)]"])
        (simp add: view_holds_def proj_content_def row_ident_proj [OF wf])
  next
    case False
    have mk: "mset (kept pg spec (from_envs spec T)) = mset (kept pg spec (from_envs spec T'))"
      using m False by (simp add: kept_def)
    have "pkey spec v \<noteq> pkey spec ?r" if "v \<in> set V" for v
    proof
      assume eq: "pkey spec v = pkey spec ?r"
      have "set V = (\<lambda>env. group_row pg spec [env]) ` set (kept pg spec (from_envs spec T))"
        using c mset_eq_setD [of V "map (\<lambda>env. group_row pg spec [env]) (kept pg spec (from_envs spec T))"]
        by (simp add: proj_content_def)
      with that obtain env where env: "env \<in> set (from_envs spec T)" "holds pg (sp_predicate spec) env"
        "v = group_row pg spec [env]" by (auto simp: kept_def)
      have "inj_on (\<lambda>env. pkey spec (group_row pg spec [env])) (set (from_envs spec T))"
        using keyed by (simp add: keyed_def distinct_map)
      then have "env = ?env" using env eq envT by (auto dest: inj_onD)
      with env False show False by simp
    qed
    then have "\<forall>v \<in> set V. \<not> ?p v" unfolding match by blast
    then have "delete_where pg ?p V = (V, delta_texts pg [])"
      by (simp add: delete_where_def delta_texts_def filter_empty_conv filter_id_conv del: set_map)
    moreover have "mset V = mset (map (\<lambda>env. group_row pg spec [env]) (kept pg spec (from_envs spec T')))"
      using c by (simp add: proj_content_def mk)
    then have "view_holds pg spec T' V"
      using rows [OF ok(2)] by (simp add: view_holds_def)
    ultimately show ?thesis
      using plan exec
      by (intro exI [of _ "[DeleteByKey conds vals]"] exI [of _ V] exI [of _ "[]"]) simp
  qed
qed

end
