(* ===== verification/Example_Pg.thy ===== *)
theory Example_Pg
  imports View_Maintenance
begin

text \<open>
  A concrete instance of the external parameters, for witnesses: a small database engine whose
  expressions are column names, whose casts read decimal integers, and whose JSON is a tagged
  encoding of the row's values. It shows that the hypotheses of the properties can hold together.
\<close>

section \<open>A row encoding and its decoder\<close>

fun enc_datum :: "datum \<Rightarrow> string" where
  "enc_datum Null = ''n''"
| "enc_datum (Bool b) = (if b then ''t'' else ''f'')"
| "enc_datum (Num n) = (if n < 0 then CHR ''-'' else CHR ''+'') # replicate (nat \<bar>n\<bar>) (CHR ''1'') @ '';''"
| "enc_datum (Text s) = CHR ''s'' # concat (map (\<lambda>c. [CHR ''.'', c]) s) @ '';''"

fun dec_unary :: "string \<Rightarrow> (nat \<times> string) option" where
  "dec_unary [] = None"
| "dec_unary (c # s) =
     (if c = CHR ''1'' then map_option (\<lambda>(n, r). (Suc n, r)) (dec_unary s)
      else if c = CHR '';'' then Some (0, s) else None)"

fun dec_text :: "string \<Rightarrow> (string \<times> string) option" where
  "dec_text (c # s) =
     (if c = CHR '';'' then Some ([], s)
      else if c = CHR ''.'' then (case s of [] \<Rightarrow> None
        | x # s' \<Rightarrow> map_option (\<lambda>(t, r). (x # t, r)) (dec_text s'))
      else None)"
| "dec_text [] = None"

fun dec_datum :: "string \<Rightarrow> (datum \<times> string) option" where
  "dec_datum [] = None"
| "dec_datum (c # s) =
     (if c = CHR ''n'' then Some (Null, s)
      else if c = CHR ''t'' then Some (Bool True, s)
      else if c = CHR ''f'' then Some (Bool False, s)
      else if c = CHR ''+'' then map_option (\<lambda>(n, r). (Num (int n), r)) (dec_unary s)
      else if c = CHR ''-'' then map_option (\<lambda>(n, r). (Num (- int n), r)) (dec_unary s)
      else if c = CHR ''s'' then map_option (\<lambda>(t, r). (Text t, r)) (dec_text s)
      else None)"

lemma dec_unary_enc: "dec_unary (replicate n (CHR ''1'') @ CHR '';'' # r) = Some (n, r)"
  by (induction n) simp_all

lemma dec_text_enc: "dec_text (concat (map (\<lambda>c. [CHR ''.'', c]) s) @ CHR '';'' # r) = Some (s, r)"
  by (induction s) simp_all

lemma dec_enc_datum: "dec_datum (enc_datum d @ r) = Some (d, r)"
  by (cases d) (auto simp: dec_unary_enc dec_text_enc)

definition enc_row :: "row \<Rightarrow> string" where
  "enc_row r = concat (map (\<lambda>(c, d). enc_datum d) r)"

fun dec_row :: "string list \<Rightarrow> string \<Rightarrow> string + row" where
  "dec_row [] s = Inr []"
| "dec_row (c # cs) s =
     (case dec_datum s of
        None \<Rightarrow> Inl ''malformed json''
      | Some (d, s') \<Rightarrow> rbind (dec_row cs s') (\<lambda>r. Inr ((c, d) # r)))"

lemma dec_enc_row: "map fst r = cols \<Longrightarrow> dec_row cols (enc_row r) = Inr r"
  by (induction r arbitrary: cols) (auto simp: enc_row_def dec_enc_datum)

section \<open>The example database\<close>

definition example_pg :: pg where
  "example_pg =
     \<lparr>pg_cast = (\<lambda>ty s. if ty = ''integer''
        then (case parse_int 64 s of None \<Rightarrow> Inl ''invalid input syntax'' | Some n \<Rightarrow> Inr (Num n))
        else Inr (Text s)),
      pg_eval = (\<lambda>e env. Inr (case env of [] \<Rightarrow> Null | (a, r) # _ \<Rightarrow> col r e)),
      pg_text = (\<lambda>d. case d of Num n \<Rightarrow> int_text n | Text s \<Rightarrow> s | _ \<Rightarrow> ''t''),
      pg_to_jsonb = enc_row,
      pg_populate = dec_row\<rparr>"

lemma example_json_ok: "json_ok example_pg cols"
  by (simp add: json_ok_def example_pg_def dec_enc_row)

lemma example_evaluates: "evaluates example_pg e env"
  by (simp add: evaluates_def example_pg_def)

lemma example_total: "view_total example_pg spec envs"
  by (simp add: view_total_def no_errors_def example_evaluates)

text \<open>A table \<open>o16(k integer, v integer)\<close> and three views over it.\<close>

definition example_rel :: relation where
  "example_rel = \<lparr>rel_id = 16, rel_namespace = ''public'', rel_name = ''t'', rel_replident = 0x66,
     rel_columns = [\<lparr>rc_name = ''k'', rc_is_key = True, rc_typid = 23, rc_typmod = - 1, rc_type_name = Some ''integer''\<rparr>,
       \<lparr>rc_name = ''v'', rc_is_key = False, rc_typid = 23, rc_typmod = - 1, rc_type_name = Some ''integer''\<rparr>]\<rparr>"

definition example_base :: "u32 \<Rightarrow> string \<Rightarrow> nat \<Rightarrow> base_relation" where
  "example_base oid a rti = \<lparr>br_oid = oid, br_rti = rti, br_alias = a, br_qualified = ''public.'' @ a,
     br_pk_columns = [''k''], br_columns = [''k'', ''v''], br_column_types = [''integer'', ''integer''],
     br_used_columns = [''k'', ''v''], br_used_column_types = [''integer'', ''integer''], br_join_keys = []\<rparr>"

definition example_row :: "int \<Rightarrow> int \<Rightarrow> row" where
  "example_row k v = [(''k'', Num k), (''v'', Num v)]"

definition agg_spec :: view_spec where
  "agg_spec = \<lparr>sp_shape = Aggregate, sp_base_table = ''public.t'', sp_base_relname = ''t'', sp_predicate = None,
     sp_columns = [\<lparr>oc_expr = ''k'', oc_alias = ''k''\<rparr>], sp_pk_columns = [], sp_pk_view_columns = [],
     sp_count_alias = Some ''n'', sp_hidden_count = False, sp_counts = [],
     sp_sums = [\<lparr>su_expr = ''v'', su_alias = ''s'', su_counter = ''_nabla_nn_1''\<rparr>],
     sp_populate_sql = \<lparr>q_select = [], q_from = [], q_where = None, q_group_by = None\<rparr>,
     sp_relations = [example_base 16 ''t'' 1],
     sp_select_list = [(TExpr ''k'', ''k''), (TCountStar, ''n''), (TSum ''v'', ''s''), (TCount ''v'', ''_nabla_nn_1'')],
     sp_group_by = Some [''k''], sp_visible_columns = [''k'', ''n'', ''s''],
     sp_hidden_columns = [''_nabla_nn_1'']\<rparr>"

definition proj_spec :: view_spec where
  "proj_spec = agg_spec\<lparr>sp_shape := Projection, sp_columns := [\<lparr>oc_expr = ''k'', oc_alias = ''id''\<rparr>, \<lparr>oc_expr = ''v'', oc_alias = ''v''\<rparr>],
     sp_pk_columns := [''k''], sp_pk_view_columns := [''id''], sp_count_alias := None, sp_sums := [],
     sp_select_list := [(TExpr ''k'', ''id''), (TExpr ''v'', ''v'')], sp_group_by := None,
     sp_visible_columns := [''id'', ''v''], sp_hidden_columns := []\<rparr>"

definition join_spec :: view_spec where
  "join_spec = proj_spec\<lparr>sp_relations := [example_base 16 ''a'' 1, example_base 17 ''b'' 2],
     sp_columns := [\<lparr>oc_expr = ''v'', oc_alias = ''v''\<rparr>],
     sp_select_list := [(TExpr ''v'', ''v''), (TColumn ''a'' ''k'', ''_nabla_pk1_k''), (TColumn ''b'' ''k'', ''_nabla_pk2_k'')],
     sp_pk_columns := [], sp_pk_view_columns := [''_nabla_pk1_k'', ''_nabla_pk2_k''],
     sp_visible_columns := [''v''], sp_hidden_columns := [''_nabla_pk1_k'', ''_nabla_pk2_k'']\<rparr>"

lemma wf_agg_spec: "wf_aggregate agg_spec"
  by (simp add: wf_aggregate_def agg_spec_def agg_items_def)

lemma wf_proj_spec: "wf_projection proj_spec"
  by (simp add: wf_projection_def proj_spec_def agg_spec_def)

lemma wf_join_spec: "wf_projection join_spec"
  by (simp add: wf_projection_def join_spec_def proj_spec_def agg_spec_def)

definition example_tables :: "row list \<Rightarrow> row list \<Rightarrow> u32 \<Rightarrow> row list" where
  "example_tables a b o1 = (if o1 = 16 then a else if o1 = 17 then b else [])"

lemma agg_view_ok: "length a < 100 \<Longrightarrow> view_ok example_pg agg_spec (from_envs agg_spec (example_tables a b))"
proof -
  assume "length a < 100"
  moreover have "length (cross [(x, rows)]) = length rows" for x rows by (induction rows) simp_all
  ultimately show ?thesis
    by (simp add: view_ok_def example_json_ok example_total wf_agg_spec from_envs_def is_join_def small_def)
      (simp add: agg_spec_def example_tables_def example_base_def)
qed

end
