(* ===== verification/Row_Changes.thy ===== *)
theory Row_Changes
  imports Example_Pg
begin

text \<open>
  Properties of planning and execution for one change of one row: single-table aggregates and
  projections, join views, and the treatment of unchanged TOAST values. Each maintenance property
  says that the storage table holds the view's own query over the changed tables, and that the
  deltas replay from the old content to the new one.
\<close>

section \<open>Unchanged TOAST values\<close>

lemma resolve_column_Inr:
  assumes "resolve_column rel old mentions i v = Inr w"
  shows "w \<noteq> CUnchanged \<and> (v \<noteq> CUnchanged \<longrightarrow> w = v) \<and>
    (v = CUnchanged \<longrightarrow> i < length (rel_columns rel) \<and>
      (Option.bind old (\<lambda>t. nth_opt t i) = Some w \<or>
       Option.bind old (\<lambda>t. nth_opt t i) \<in> {None, Some CUnchanged} \<and> w = CNull \<and>
       \<not> mentions (rc_name (rel_columns rel ! i))))"
  using assms
  by (auto simp: resolve_column_def simp del: nth_opt_Some split: if_splits option.splits)
    (auto split: if_splits)

lemma resolve_unchanged_columns:
  assumes "resolve_unchanged rel new old mentions = Inr t"
  shows "length t = length new \<and>
    (\<forall>i < length new. resolve_column rel old mentions i (new ! i) = Inr (t ! i))"
proof -
  from assms have a: "list_all2 (\<lambda>(i, v) w. resolve_column rel old mentions i v = Inr w) (enumerate 0 new) t"
    by (simp add: resolve_unchanged_def rmap_Inr_iff case_prod_unfold)
  then show ?thesis
    using list_all2_lengthD [OF a] list_all2_nthD [OF a]
    by (auto simp: nth_enumerate_eq)
qed

section \<open>Properties\<close>

text \<open>
  C4. A row inserted into the base table of a single-table view: if the storage table holds the
  view over the tables before, then planning the decoded row and executing the plan succeed, the
  storage table holds the view over the tables after, and the deltas take the keyed content from
  the one to the other. Both shapes, aggregate and projection.
\<close>

theorem single_insert_maintains:
  assumes "source_row pg rel new = Inr r" and "\<not> is_join spec"
    and "changed 1 T (br_oid (hd (sp_relations spec))) r T'"
    and "view_ok pg spec (from_envs spec T)" "view_ok pg spec (from_envs spec T')"
    and "view_holds pg spec T V"
  shows "\<exists>ops V' evs. plan_single_insert pg spec rel new = Inr ops \<and>
    execute pg spec ops V = Inr (V', delta_texts pg evs) \<and> view_holds pg spec T' V' \<and>
    replay id (row_ident spec) evs (lookup (row_ident spec) V) = Some (lookup (row_ident spec) V')"
  using maintain_view [OF single_merged [OF assms(2,3)] assms(4-6)] assms(1)
  by (simp add: plan_single_insert_def)

lemma example_source_row:
  "source_row example_pg example_rel [CText ''1'', CText ''5''] = Inr (example_row 1 5)"
  by code_simp

lemma view_holdsI: "view_query pg spec (from_envs spec T) = Inr V \<Longrightarrow> view_holds pg spec T V"
  by (auto simp: view_holds_def)

definition agg_storage :: "row list" where
  "agg_storage = [[(''k'', Num 1), (''n'', Num 1), (''s'', Num 2), (''_nabla_nn_1'', Num 1)]]"

lemma agg_storage_holds: "view_holds example_pg agg_spec (example_tables [example_row 1 2] []) agg_storage"
  by (rule view_holdsI) code_simp

theorem single_insert_maintains_witness:
  "\<exists>ops V' evs. plan_single_insert example_pg agg_spec example_rel [CText ''1'', CText ''5''] = Inr ops \<and>
    execute example_pg agg_spec ops agg_storage = Inr (V', delta_texts example_pg evs) \<and>
    view_holds example_pg agg_spec (example_tables [example_row 1 5, example_row 1 2] []) V' \<and>
    replay id (row_ident agg_spec) evs (lookup (row_ident agg_spec) agg_storage) =
      Some (lookup (row_ident agg_spec) V')"
proof (rule single_insert_maintains [OF example_source_row _ _ _ _ agg_storage_holds])
  show "\<not> is_join agg_spec" by code_simp
  show "changed 1 (example_tables [example_row 1 2] []) (br_oid (hd (sp_relations agg_spec))) (example_row 1 5)
    (example_tables [example_row 1 5, example_row 1 2] [])"
    by (simp add: changed_def merged_def agg_spec_def example_base_def example_tables_def)
qed (simp_all add: agg_view_ok)

text \<open>
  C5. A full old row (kind \<open>O\<close>) deleted from the base table of a single-table aggregate: planning
  and execution remove its contribution, drop the group when its count reaches zero, and leave
  the view over the tables after.
\<close>

theorem single_delete_aggregate_maintains:
  assumes "source_row pg rel old = Inr r" and "\<not> is_join spec" and "wf_aggregate spec"
    and "changed (- 1) T (br_oid (hd (sp_relations spec))) r T'"
    and "view_ok pg spec (from_envs spec T)" "view_ok pg spec (from_envs spec T')"
    and "view_holds pg spec T V"
  shows "\<exists>ops V' evs. plan_single_delete pg spec rel 0x4F old = Inr (Ops ops) \<and>
    execute pg spec ops V = Inr (V', delta_texts pg evs) \<and> view_holds pg spec T' V' \<and>
    replay id (row_ident spec) evs (lookup (row_ident spec) V) = Some (lookup (row_ident spec) V')"
proof -
  have "sp_shape spec = Aggregate" using assms(3) by (simp add: wf_aggregate_iff)
  with maintain_view [OF single_merged [OF assms(2,4)] assms(5-7)] assms(1) show ?thesis
    by (auto simp: plan_single_delete_def)
qed

theorem single_delete_aggregate_maintains_witness:
  "\<exists>ops V' evs. plan_single_delete example_pg agg_spec example_rel 0x4F [CText ''1'', CText ''2''] = Inr (Ops ops) \<and>
    execute example_pg agg_spec ops agg_storage = Inr (V', delta_texts example_pg evs) \<and>
    view_holds example_pg agg_spec (example_tables [] []) V' \<and>
    replay id (row_ident agg_spec) evs (lookup (row_ident agg_spec) agg_storage) =
      Some (lookup (row_ident agg_spec) V')"
proof (rule single_delete_aggregate_maintains [OF _ _ wf_agg_spec _ _ _ agg_storage_holds])
  show "source_row example_pg example_rel [CText ''1'', CText ''2''] = Inr (example_row 1 2)" by code_simp
  show "\<not> is_join agg_spec" by code_simp
  show "changed (- 1) (example_tables [example_row 1 2] []) (br_oid (hd (sp_relations agg_spec))) (example_row 1 2)
    (example_tables [] [])"
    by (simp add: changed_def merged_def agg_spec_def example_base_def example_tables_def)
qed (simp_all add: agg_view_ok)

text \<open>
  C6. A row deleted from the base table of a single-table projection, decoded with its key only:
  the keyed delete removes exactly the view row of that base row, and nothing when the predicate
  filtered it out.
\<close>

theorem single_delete_projection_maintains:
  assumes "wf_projection spec" and "\<not> is_join spec"
    and "changed (- 1) T (br_oid (hd (sp_relations spec))) r T'"
    and "view_ok pg spec (from_envs spec T)" "view_ok pg spec (from_envs spec T')"
    and "keyed pg spec (from_envs spec T)" and "carries_key pg spec rel old r"
    and "view_holds pg spec T V"
  shows "\<exists>ops V' evs. plan_single_delete pg spec rel kind old = Inr (Ops ops) \<and>
    execute pg spec ops V = Inr (V', delta_texts pg evs) \<and> view_holds pg spec T' V' \<and>
    replay id (row_ident spec) evs (lookup (row_ident spec) V) = Some (lookup (row_ident spec) V')"
  using assms by (rule delete_by_key_maintains)

definition proj_storage :: "row list" where
  "proj_storage = [[(''id'', Num 1), (''v'', Num 2)], [(''id'', Num 2), (''v'', Num 3)]]"

theorem single_delete_projection_maintains_witness:
  "\<exists>ops V' evs. plan_single_delete example_pg proj_spec example_rel 0x4B [CText ''1'', CNull] = Inr (Ops ops) \<and>
    execute example_pg proj_spec ops proj_storage = Inr (V', delta_texts example_pg evs) \<and>
    view_holds example_pg proj_spec (example_tables [example_row 2 3] []) V' \<and>
    replay id (row_ident proj_spec) evs (lookup (row_ident proj_spec) proj_storage) =
      Some (lookup (row_ident proj_spec) V')"
proof (rule single_delete_projection_maintains [OF wf_proj_spec])
  show "\<not> is_join proj_spec" by code_simp
  show "changed (- 1) (example_tables [example_row 1 2, example_row 2 3] []) (br_oid (hd (sp_relations proj_spec)))
    (example_row 1 2) (example_tables [example_row 2 3] [])"
    by (simp add: changed_def merged_def proj_spec_def agg_spec_def example_base_def example_tables_def)
  show "view_ok example_pg proj_spec (from_envs proj_spec (example_tables [example_row 1 2, example_row 2 3] []))"
    by (simp add: view_ok_def example_json_ok example_total wf_proj_spec) code_simp
  show "view_ok example_pg proj_spec (from_envs proj_spec (example_tables [example_row 2 3] []))"
    by (simp add: view_ok_def example_json_ok example_total wf_proj_spec) code_simp
  show "keyed example_pg proj_spec (from_envs proj_spec (example_tables [example_row 1 2, example_row 2 3] []))"
    by code_simp
  have "rel_column_index example_rel ''k'' = Some 0" "rc_type_name (rel_columns example_rel ! 0) = Some ''integer''"
    "pg_cast example_pg ''integer'' ''1'' = Inr (col (example_row 1 2) ''k'')"
    "sp_pk_columns proj_spec = [''k'']" "sp_pk_view_columns proj_spec = [''id'']"
    "col (group_row example_pg proj_spec [[(sp_base_relname proj_spec, example_row 1 2)]]) ''id'' =
      col (example_row 1 2) ''k''"
    by code_simp+
  then show "carries_key example_pg proj_spec example_rel [CText ''1'', CNull] (example_row 1 2)"
    by (simp add: carries_key_def)
  show "view_holds example_pg proj_spec (example_tables [example_row 1 2, example_row 2 3] []) proj_storage"
    by (rule view_holdsI) code_simp
qed

text \<open>
  C3. A row of one relation of a join view, inserted (sign 1) or removed (sign -1), while the shadows
  hold the other relations' rows: the plan joins it with the shadows, and executing the plan takes
  the storage table from the view over the tables before to the view over the tables after. Any
  number of relations, both shapes.
\<close>

theorem join_change_maintains:
  assumes "source_row pg rel t = Inr r" and "is_join spec" and "i < length (sp_relations spec)"
    and "distinct (map br_oid (sp_relations spec))"
    and "changed s T (br_oid (sp_relations spec ! i)) r T'"
    and "\<forall>o2. o2 \<noteq> br_oid (sp_relations spec ! i) \<longrightarrow> shadows o2 = T o2"
    and "view_ok pg spec (from_envs spec T)" "view_ok pg spec (from_envs spec T')"
    and "view_holds pg spec T V"
  shows "\<exists>ops V' evs. plan_join pg shadows spec i rel t s = Inr ops \<and>
    execute pg spec ops V = Inr (V', delta_texts pg evs) \<and> view_holds pg spec T' V' \<and>
    replay id (row_ident spec) evs (lookup (row_ident spec) V) = Some (lookup (row_ident spec) V')"
  using maintain_view [OF join_merged [OF assms(2,3) refl assms(4-6)] assms(7-9)] assms(1)
  by (simp add: plan_join_def)

definition join_storage :: "row list" where
  "join_storage = [[(''v'', Num 2), (''_nabla_pk1_k'', Num 1), (''_nabla_pk2_k'', Num 5)]]"

theorem join_change_maintains_witness:
  "\<exists>ops V' evs. plan_join example_pg (example_tables [] [example_row 5 6]) join_spec 0 example_rel
      [CText ''1'', CText ''2''] (- 1) = Inr ops \<and>
    execute example_pg join_spec ops join_storage = Inr (V', delta_texts example_pg evs) \<and>
    view_holds example_pg join_spec (example_tables [] [example_row 5 6]) V' \<and>
    replay id (row_ident join_spec) evs (lookup (row_ident join_spec) join_storage) =
      Some (lookup (row_ident join_spec) V')"
proof (rule join_change_maintains)
  show "source_row example_pg example_rel [CText ''1'', CText ''2''] = Inr (example_row 1 2)" by code_simp
  show "is_join join_spec" "0 < length (sp_relations join_spec)" "distinct (map br_oid (sp_relations join_spec))"
    by code_simp+
  show "changed (- 1) (example_tables [example_row 1 2] [example_row 5 6]) (br_oid (sp_relations join_spec ! 0))
    (example_row 1 2) (example_tables [] [example_row 5 6])"
    by (simp add: changed_def merged_def join_spec_def example_base_def example_tables_def)
  show "\<forall>o2. o2 \<noteq> br_oid (sp_relations join_spec ! 0) \<longrightarrow>
    example_tables [] [example_row 5 6] o2 = example_tables [example_row 1 2] [example_row 5 6] o2"
    by (simp add: join_spec_def example_base_def example_tables_def)
  show "view_ok example_pg join_spec (from_envs join_spec (example_tables [example_row 1 2] [example_row 5 6]))"
    by (simp add: view_ok_def example_json_ok example_total wf_join_spec) code_simp
  show "view_ok example_pg join_spec (from_envs join_spec (example_tables [] [example_row 5 6]))"
    by (simp add: view_ok_def example_json_ok example_total wf_join_spec) code_simp
  show "view_holds example_pg join_spec (example_tables [example_row 1 2] [example_row 5 6]) join_storage"
    by (rule view_holdsI) code_simp
qed

text \<open>
  A new tuple resolved against the old one has no unchanged-TOAST marker left: a column that was
  sent is kept, a marker is replaced by the old tuple's value, and only a column the definition
  does not mention may become NULL for want of one. Otherwise resolving fails.
\<close>

theorem resolve_unchanged_sound:
  assumes "resolve_unchanged rel new old mentions = Inr t" and "i < length new"
  shows "t ! i \<noteq> CUnchanged \<and> (new ! i \<noteq> CUnchanged \<longrightarrow> t ! i = new ! i) \<and>
    (new ! i = CUnchanged \<longrightarrow>
      Option.bind old (\<lambda>o1. nth_opt o1 i) = Some (t ! i) \<or>
      Option.bind old (\<lambda>o1. nth_opt o1 i) \<in> {None, Some CUnchanged} \<and> t ! i = CNull \<and>
      \<not> mentions (rc_name (rel_columns rel ! i)))"
  using resolve_column_Inr resolve_unchanged_columns [OF assms(1)] assms(2) by blast

theorem resolve_unchanged_sound_witness:
  "\<exists>t. resolve_unchanged example_rel [CText ''1'', CUnchanged] (Some [CText ''1'', CText ''9'']) (\<lambda>_. True) = Inr t \<and>
    t ! 1 = CText ''9''"
proof -
  have t: "resolve_unchanged example_rel [CText ''1'', CUnchanged] (Some [CText ''1'', CText ''9'']) (\<lambda>_. True) =
    Inr [CText ''1'', CText ''9'']" by code_simp
  from resolve_unchanged_sound [OF t, of 1] t show ?thesis by simp
qed


end
