(* ===== verification/Lsn.thy ===== *)
theory Lsn
  imports Prelude
begin

unbundle bit_operations_syntax

text \<open>
  \<open>src/src/lsn.rs\<close>: LSNs travel through SQL as text \<open>X/Y\<close> and through Rust as \<open>u64\<close>.
  Rust strings are modelled by their UTF-8 bytes, as HOL \<open>char\<close>s.
\<close>

section \<open>Standard-library pieces\<close>

text \<open>
  \<open>str::trim\<close> removes Unicode white space at both ends. \<open>white_space\<close> lists the UTF-8 encodings
  of the characters with that property: tab to carriage return and space, then U+0085, U+00A0,
  U+1680, U+2000 to U+200A, U+2028, U+2029, U+202F, U+205F and U+3000.
\<close>

definition white_space :: "string list" where
  "white_space =
     [[CHR 0x09], [CHR 0x0A], [CHR 0x0B],
      [CHR 0x0C], [CHR 0x0D], [CHR 0x20],
      [CHR 0xC2, CHR 0x85], [CHR 0xC2, CHR 0xA0], [CHR 0xE1, CHR 0x9A, CHR 0x80],
      [CHR 0xE2, CHR 0x80, CHR 0x80], [CHR 0xE2, CHR 0x80, CHR 0x81], [CHR 0xE2, CHR 0x80, CHR 0x82],
      [CHR 0xE2, CHR 0x80, CHR 0x83], [CHR 0xE2, CHR 0x80, CHR 0x84], [CHR 0xE2, CHR 0x80, CHR 0x85],
      [CHR 0xE2, CHR 0x80, CHR 0x86], [CHR 0xE2, CHR 0x80, CHR 0x87], [CHR 0xE2, CHR 0x80, CHR 0x88],
      [CHR 0xE2, CHR 0x80, CHR 0x89], [CHR 0xE2, CHR 0x80, CHR 0x8A], [CHR 0xE2, CHR 0x80, CHR 0xA8],
      [CHR 0xE2, CHR 0x80, CHR 0xA9], [CHR 0xE2, CHR 0x80, CHR 0xAF], [CHR 0xE2, CHR 0x81, CHR 0x9F],
      [CHR 0xE3, CHR 0x80, CHR 0x80]]"

function strip_leading :: "string list \<Rightarrow> string \<Rightarrow> string" where
  "strip_leading ws s =
     (case find (\<lambda>w. w \<noteq> [] \<and> prefix w s) ws of
        None \<Rightarrow> s
      | Some w \<Rightarrow> strip_leading ws (drop (length w) s))"
  by pat_completeness auto
termination
proof (relation "measure (\<lambda>(ws, s). length s)")
  fix ws :: "string list" and s w
  assume "find (\<lambda>w. w \<noteq> [] \<and> prefix w s) ws = Some w"
  then have "w \<noteq> []" and "prefix w s" by (auto simp: find_Some_iff)
  then show "((ws, drop (length w) s), (ws, s)) \<in> measure (\<lambda>(ws, s). length s)"
    by (cases s) (auto simp: diff_less)
qed simp

declare strip_leading.simps [simp del]

definition trim :: "string \<Rightarrow> string" where
  "trim s = rev (strip_leading (map rev white_space) (rev (strip_leading white_space s)))"

text \<open>\<open>split_once('/')\<close>: the parts before and after the first slash.\<close>

fun split_once :: "char \<Rightarrow> string \<Rightarrow> (string \<times> string) option" where
  "split_once c [] = None"
| "split_once c (x # xs) =
     (if x = c then Some ([], xs)
      else map_option (\<lambda>(a, b). (x # a, b)) (split_once c xs))"

text \<open>\<open>char::to_digit(16)\<close>.\<close>

definition hex_digit :: "char \<Rightarrow> int option" where
  "hex_digit c =
     (let n = of_char c :: int in
      if 48 \<le> n \<and> n \<le> 57 then Some (n - 48)
      else if 65 \<le> n \<and> n \<le> 70 then Some (n - 55)
      else if 97 \<le> n \<and> n \<le> 102 then Some (n - 87)
      else None)"

text \<open>
  The digit loop of \<open>u64::from_str_radix(_, 16)\<close>: \<open>checked_mul\<close> by 16, then \<open>checked_add\<close>; an
  invalid digit and an overflow are both errors.
\<close>

fun hex_digits :: "int \<Rightarrow> string \<Rightarrow> int option" where
  "hex_digits acc [] = Some acc"
| "hex_digits acc (c # cs) =
     (case hex_digit c of
        None \<Rightarrow> None
      | Some d \<Rightarrow> if acc * 16 + d < 2 ^ 64 then hex_digits (acc * 16 + d) cs else None)"

text \<open>
  \<open>u64::from_str_radix(text, 16)\<close>: the empty text and a lone sign are errors, a leading \<open>+\<close> is
  skipped, a leading \<open>-\<close> is an invalid digit of an unsigned type.
\<close>

definition from_str_radix16 :: "string \<Rightarrow> int option" where
  "from_str_radix16 s =
     (if s = [] \<or> s = ''+'' \<or> s = ''-'' then None
      else hex_digits 0 (if hd s = CHR ''+'' then tl s else s))"

text \<open>\<open>{:X}\<close> on a \<open>u64\<close>: upper-case hexadecimal without padding.\<close>

definition hex_char :: "int \<Rightarrow> char" where
  "hex_char d = char_of (if d < 10 then d + 48 else d + 55)"

function hex_upper :: "int \<Rightarrow> string" where
  "hex_upper n = (if n < 16 then [hex_char n] else hex_upper (n div 16) @ [hex_char (n mod 16)])"
  by pat_completeness auto
termination
  by (relation "measure nat") (auto simp: nat_less_eq_zless)

declare hex_upper.simps [simp del]

section \<open>The functions of \<open>lsn.rs\<close>\<close>

definition lsn_parse :: "string \<Rightarrow> u64 option" where
  "lsn_parse text =
     (case split_once (CHR ''/'') (trim text) of
        None \<Rightarrow> None
      | Some (hi, lo) \<Rightarrow>
          (case from_str_radix16 hi of
             None \<Rightarrow> None
           | Some h \<Rightarrow>
               (case from_str_radix16 lo of
                  None \<Rightarrow> None
                | Some l \<Rightarrow> Some (push_bit 32 (of_int h) OR of_int l))))"

definition lsn_format :: "u64 \<Rightarrow> string" where
  "lsn_format lsn =
     hex_upper (uint (drop_bit 32 lsn)) @ ''/'' @ hex_upper (uint (lsn AND 0xFFFFFFFF))"

section \<open>Hexadecimal digits\<close>

lemma hex_digit_char [simp]: "0 \<le> d \<Longrightarrow> d < 16 \<Longrightarrow> hex_digit (hex_char d) = Some d"
  by (auto simp: hex_digit_def hex_char_def Let_def)

lemma hex_digits_append:
  "hex_digits acc (s @ t) = Option.bind (hex_digits acc s) (\<lambda>n. hex_digits n t)"
  by (induction acc s rule: hex_digits.induct) (auto split: option.splits)

lemma hex_digits_upper: "0 \<le> n \<Longrightarrow> n < 2 ^ 64 \<Longrightarrow> hex_digits 0 (hex_upper n) = Some n"
proof (induction n rule: hex_upper.induct)
  case (1 n)
  show ?case
  proof (cases "n < 16")
    case True
    with "1.prems" show ?thesis by (simp add: hex_upper.simps [of n])
  next
    case False
    with 1 have "hex_digits 0 (hex_upper (n div 16)) = Some (n div 16)" by simp
    with False "1.prems" show ?thesis
      by (simp add: hex_upper.simps [of n] hex_digits_append)
  qed
qed

lemma hex_upper_neq_Nil [simp]: "hex_upper n \<noteq> []"
  by (subst hex_upper.simps) simp

text \<open>The characters of a printed half are digits, so none is a sign, a slash or white space.\<close>

definition is_hex_char :: "char \<Rightarrow> bool" where
  "is_hex_char c \<longleftrightarrow> hex_digit c \<noteq> None"

lemma hex_upper_chars: "0 \<le> n \<Longrightarrow> c \<in> set (hex_upper n) \<Longrightarrow> is_hex_char c"
proof (induction n rule: hex_upper.induct)
  case (1 n)
  then show ?case
    by (subst (asm) hex_upper.simps) (auto simp: is_hex_char_def split: if_splits)
qed

lemma not_hex_char [simp]:
  "\<not> is_hex_char (CHR ''+'')" "\<not> is_hex_char (CHR ''-'')" "\<not> is_hex_char (CHR ''/'')"
  by (simp_all add: is_hex_char_def hex_digit_def)

lemma from_str_radix16_upper:
  assumes "0 \<le> n" and "n < 2 ^ 64"
  shows "from_str_radix16 (hex_upper n) = Some n"
proof -
  have "is_hex_char (hd (hex_upper n))"
    using assms(1) by (rule hex_upper_chars) simp
  then have "hd (hex_upper n) \<noteq> CHR ''+''" and "hd (hex_upper n) \<noteq> CHR ''-''" by auto
  then have "hex_upper n \<noteq> ''+''" and "hex_upper n \<noteq> ''-''" by auto
  with assms \<open>hd (hex_upper n) \<noteq> CHR ''+''\<close> show ?thesis
    by (simp add: from_str_radix16_def hex_digits_upper)
qed

section \<open>Trimming and splitting\<close>

lemma strip_leading_id:
  assumes "\<And>w. w \<in> set ws \<Longrightarrow> w \<noteq> [] \<Longrightarrow> hd w \<noteq> hd s"
  shows "strip_leading ws s = s"
proof -
  have "find (\<lambda>w. w \<noteq> [] \<and> prefix w s) ws = None"
    using assms by (fastforce simp: find_None_iff prefix_def)
  then show ?thesis by (simp add: strip_leading.simps)
qed

lemma white_space_ends:
  assumes "w \<in> set white_space"
  shows "\<not> is_hex_char (hd w)" and "\<not> is_hex_char (hd (rev w))"
  using assms by (auto simp: white_space_def is_hex_char_def hex_digit_def)

lemma trim_id:
  assumes "s \<noteq> []" and "is_hex_char (hd s)" and "is_hex_char (last s)"
  shows "trim s = s"
proof -
  have "strip_leading white_space s = s"
    using assms(2) by (intro strip_leading_id) (auto dest: white_space_ends)
  moreover have "strip_leading (map rev white_space) (rev s) = rev s"
    using assms by (intro strip_leading_id) (auto dest: white_space_ends(2) simp: hd_rev)
  ultimately show ?thesis by (simp add: trim_def)
qed

lemma split_once_first: "c \<notin> set a \<Longrightarrow> split_once c (a @ c # b) = Some (a, b)"
  by (induction a) auto

section \<open>Halves of a 64-bit LSN\<close>

lemma low_half_mask: "(l :: u64) AND 0xFFFFFFFF = take_bit 32 l"
  by (simp add: take_bit_eq_mask mask_eq_exp_minus_1)

lemma join_halves: "push_bit 32 (drop_bit 32 l) OR (l AND 0xFFFFFFFF) = (l :: u64)"
  by (rule bit_eqI) (auto simp: low_half_mask bit_simps)

lemma join_halves_value:
  fixes h l :: int
  assumes "0 \<le> h" "h < 2 ^ 32" "0 \<le> l" "l < 2 ^ 32"
  shows "uint (push_bit 32 (of_int h) OR of_int l :: u64) = h * 2 ^ 32 + l"
proof -
  have "push_bit 32 h OR l = push_bit 32 h + l"
  proof (rule disjunctive_add_eq_or [symmetric], rule bit_eqI)
    fix n
    have "\<not> bit l n" if "32 \<le> n"
      using assms that by (metis bit_take_bit_iff not_less take_bit_int_eq_self)
    then show "bit (push_bit 32 h AND l) n = bit 0 n"
      by (auto simp: bit_simps)
  qed
  moreover have "uint (push_bit 32 (of_int h) OR of_int l :: u64) = take_bit 64 (push_bit 32 h OR l)"
    by (simp add: push_bit_of_int flip: of_int_or_eq) (simp add: unsigned_of_int)
  moreover have "take_bit 64 (push_bit 32 h + l) = push_bit 32 h + l"
    using assms by (intro take_bit_int_eq_self) (auto simp: push_bit_eq_mult)
  ultimately show ?thesis by (simp add: push_bit_eq_mult)
qed

section \<open>Parsing and printing are inverse\<close>

lemma half_ranges:
  fixes l :: u64
  shows "0 \<le> uint (drop_bit 32 l)" "uint (drop_bit 32 l) < 2 ^ 32"
    and "0 \<le> uint (l AND 0xFFFFFFFF)" "uint (l AND 0xFFFFFFFF) < 2 ^ 32"
proof -
  have "drop_bit 32 (uint l) < 2 ^ 32"
    using uint_bounded [of l] by (simp add: drop_bit_eq_div div_less_iff_less_mult)
  then show "uint (drop_bit 32 l) < 2 ^ 32" by (simp add: uint_drop_bit)
  show "uint (l AND 0xFFFFFFFF) < 2 ^ 32"
    unfolding low_half_mask unsigned_take_bit_eq by (rule take_bit_int_less_exp)
qed simp_all

text \<open>Parsing a text with two plain hexadecimal halves.\<close>

lemma lsn_parse_halves:
  assumes "0 \<le> h" "h < 2 ^ 64" "0 \<le> l" "l < 2 ^ 64"
  shows "lsn_parse (hex_upper h @ ''/'' @ hex_upper l) =
    Some (push_bit 32 (of_int h) OR of_int l)"
proof -
  let ?t = "hex_upper h @ CHR ''/'' # hex_upper l"
  have h: "is_hex_char c" if "c \<in> set (hex_upper h)" for c
    using assms(1) that by (rule hex_upper_chars)
  have l: "is_hex_char c" if "c \<in> set (hex_upper l)" for c
    using assms(3) that by (rule hex_upper_chars)
  have "trim ?t = ?t"
    using h [of "hd (hex_upper h)"] l [of "last (hex_upper l)"] by (intro trim_id) auto
  moreover have "split_once (CHR ''/'') ?t = Some (hex_upper h, hex_upper l)"
    using h [of "CHR ''/''"] by (intro split_once_first) auto
  ultimately show ?thesis
    using assms by (simp add: lsn_parse_def from_str_radix16_upper)
qed

text \<open>The texts \<open>lsn_format\<close> prints: two upper-case 32-bit halves without leading zeros.\<close>

definition canonical_lsn :: "string \<Rightarrow> bool" where
  "canonical_lsn t \<longleftrightarrow>
     (\<exists>h l. 0 \<le> h \<and> h < 2 ^ 32 \<and> 0 \<le> l \<and> l < 2 ^ 32 \<and> t = hex_upper h @ ''/'' @ hex_upper l)"

lemma lsn_format_canonical: "canonical_lsn (lsn_format l)"
  unfolding canonical_lsn_def lsn_format_def using half_ranges [of l] by blast

lemma lsn_parse_format_eq: "lsn_parse (lsn_format l) = Some l"
proof -
  have "lsn_parse (lsn_format l) =
    Some (push_bit 32 (of_int (uint (drop_bit 32 l))) OR of_int (uint (l AND 0xFFFFFFFF)))"
    unfolding lsn_format_def
    by (intro lsn_parse_halves half_ranges less_trans [OF half_ranges(2)]
        less_trans [OF half_ranges(4)]) simp_all
  then show ?thesis by (simp add: join_halves)
qed

lemma uint_div_mod_halves:
  fixes l :: u64
  shows "uint (drop_bit 32 l) = uint l div 2 ^ 32" and "uint (l AND 0xFFFFFFFF) = uint l mod 2 ^ 32"
proof -
  show "uint (drop_bit 32 l) = uint l div 2 ^ 32"
    by (subst uint_drop_bit) (rule drop_bit_eq_div)
  show "uint (l AND 0xFFFFFFFF) = uint l mod 2 ^ 32"
    unfolding low_half_mask unsigned_take_bit_eq by (rule take_bit_eq_mod)
qed

lemma lsn_format_parse_eq:
  assumes "canonical_lsn t" and "lsn_parse t = Some v"
  shows "lsn_format v = t"
proof -
  from assms(1) obtain h l where hl: "0 \<le> h" "h < 2 ^ 32" "0 \<le> l" "l < 2 ^ 32"
    and t: "t = hex_upper h @ ''/'' @ hex_upper l"
    unfolding canonical_lsn_def by blast
  have "v = push_bit 32 (of_int h) OR of_int l"
    using assms(2) hl unfolding t by (subst (asm) lsn_parse_halves) auto
  then have "uint v = h * 2 ^ 32 + l"
    using join_halves_value [OF hl] by simp
  with hl have "uint v div 2 ^ 32 = h" and "uint v mod 2 ^ 32 = l" by simp_all
  then show ?thesis unfolding t lsn_format_def uint_div_mod_halves by simp
qed

section \<open>Properties\<close>

text \<open>
  C14. \<open>lsn::parse\<close> inverts \<open>lsn::format\<close> on every 64-bit LSN, and \<open>lsn::format\<close> is injective:
  what the worker writes as \<open>$1::pg_lsn\<close> is what it and the API read back.
\<close>

theorem lsn_roundtrip:
  "lsn_parse (lsn_format l) = Some l \<and> (lsn_format l = lsn_format k \<longleftrightarrow> l = k)"
  by (metis lsn_parse_format_eq option.inject)

text \<open>
  On canonical text (what PostgreSQL prints for a \<open>pg_lsn\<close>) parsing always succeeds, the value
  is \<open>h * 2^32 + l\<close> for its two halves, and formatting gives the text back.
\<close>

theorem lsn_canonical_text:
  assumes "0 \<le> h" "h < 2 ^ 32" "0 \<le> l" "l < 2 ^ 32"
  shows "\<exists>v. lsn_parse (hex_upper h @ ''/'' @ hex_upper l) = Some v \<and>
    uint v = h * 2 ^ 32 + l \<and> lsn_format v = hex_upper h @ ''/'' @ hex_upper l"
proof -
  let ?t = "hex_upper h @ ''/'' @ hex_upper l" and ?v = "push_bit 32 (of_int h) OR of_int l :: u64"
  have p: "lsn_parse ?t = Some ?v"
    using assms by (intro lsn_parse_halves) simp_all
  moreover have "canonical_lsn ?t"
    unfolding canonical_lsn_def using assms by blast
  ultimately show ?thesis
    using join_halves_value [OF assms] lsn_format_parse_eq by blast
qed

theorem lsn_canonical_text_witness:
  "\<exists>v. lsn_parse (hex_upper 1 @ ''/'' @ hex_upper 0x16B3748) = Some v \<and>
    uint v = 1 * 2 ^ 32 + 0x16B3748 \<and> lsn_format v = hex_upper 1 @ ''/'' @ hex_upper 0x16B3748"
  by (rule lsn_canonical_text) simp_all

end
