(* ===== verification/Pgoutput_Facts.thy ===== *)
theory Pgoutput_Facts
  imports Pgoutput
begin

unbundle bit_operations_syntax

text \<open>
  Facts on the reader and on \<open>decode\<close>: the reader never leaves its buffer, \<open>from_utf8_lossy\<close>
  always yields well-formed UTF-8, and \<open>decode\<close> inverts a reference encoding of the protocol.
  \<open>reads p bs x\<close> says that the parser consumes exactly \<open>bs\<close> and returns \<open>x\<close>; the locale
  \<open>codec\<close> is the contract between an encoding and its parser.
\<close>

section \<open>The reader stays inside its buffer\<close>

text \<open>
  \<open>safe p\<close>: from a position inside the buffer, \<open>p\<close> ends at a later position still inside it, and
  a truncation error names a range that really runs past the end.
\<close>

definition error_in_range :: "nat \<Rightarrow> decode_error \<Rightarrow> bool" where
  "error_in_range len e \<longleftrightarrow>
     (case e of Truncated n p h \<Rightarrow> h = len \<and> p \<le> len \<and> len < p + n | _ \<Rightarrow> True)"

definition safe :: "'a parser \<Rightarrow> bool" where
  "safe p \<longleftrightarrow> (\<forall>r. rd_pos r \<le> length (rd_data r) \<longrightarrow>
     (case p r of
        Inl e \<Rightarrow> error_in_range (length (rd_data r)) e
      | Inr (x, r') \<Rightarrow> rd_data r' = rd_data r \<and> rd_pos r \<le> rd_pos r' \<and>
                      rd_pos r' \<le> length (rd_data r)))"

named_theorems safe_intros "parsers that stay inside the buffer"

lemma safe_pret [safe_intros]: "safe (pret x)"
  by (simp add: safe_def pret_def)

lemma safe_pfail [safe_intros]:
  "safe (pfail (UnknownTag t))" "safe (pfail (InsertExpectedN t))" "safe (pfail (UpdateExpectedN t))"
  "safe (pfail (DeleteExpectedKO t))" "safe (pfail (UnknownKind t))"
  by (simp_all add: safe_def pfail_def error_in_range_def)

lemma safe_take [safe_intros]: "safe (rd_take n)"
  by (auto simp: safe_def rd_take_def error_in_range_def)

lemma safe_pbind [safe_intros]:
  assumes p: "safe p" and f: "\<And>x. safe (f x)"
  shows "safe (pbind p f)"
  unfolding safe_def
proof (intro allI impI)
  fix r :: reader
  assume r: "rd_pos r \<le> length (rd_data r)"
  show "case pbind p f r of
        Inl e \<Rightarrow> error_in_range (length (rd_data r)) e
      | Inr (x, r') \<Rightarrow> rd_data r' = rd_data r \<and> rd_pos r \<le> rd_pos r' \<and>
                      rd_pos r' \<le> length (rd_data r)"
  proof (cases "p r")
    case (Inl e)
    with p r show ?thesis by (force simp: safe_def pbind_def)
  next
    case (Inr y)
    obtain x r' where y: "y = (x, r')" by (cases y)
    from p r Inr y have r': "rd_data r' = rd_data r" "rd_pos r \<le> rd_pos r'"
      "rd_pos r' \<le> length (rd_data r)"
      by (force simp: safe_def)+
    with f [of x] have "case f x r' of
        Inl e \<Rightarrow> error_in_range (length (rd_data r')) e
      | Inr (x, r'') \<Rightarrow> rd_data r'' = rd_data r' \<and> rd_pos r' \<le> rd_pos r'' \<and>
                      rd_pos r'' \<le> length (rd_data r')"
      by (simp add: safe_def)
    with Inr y r' show ?thesis by (auto simp: pbind_def split: sum.splits)
  qed
qed

lemma safe_prepeat [safe_intros]: "safe p \<Longrightarrow> safe (prepeat n p)"
  by (induction n) (auto intro!: safe_intros)

lemma safe_cstring [safe_intros]: "safe rd_cstring"
proof -
  have "rd_pos r + (e + 1) \<le> length (rd_data r)"
    if "position (\<lambda>b. b = 0) (drop (rd_pos r) (rd_data r)) = Some e" for r e
    using position_SomeD [OF that] by auto
  then show ?thesis
    by (auto simp: safe_def rd_cstring_def Let_def error_in_range_def split: option.splits)
qed

lemma safe_primitives [safe_intros]:
  "safe rd_u8" "safe rd_i16" "safe rd_i32" "safe rd_u32" "safe rd_u64"
  unfolding rd_u8_def rd_i16_def rd_i32_def rd_u32_def rd_u64_def
  by (intro safe_intros)+

lemma safe_column [safe_intros]: "safe rd_column"
  unfolding rd_column_def by (intro safe_intros allI) (auto intro!: safe_intros)

lemma safe_tuple [safe_intros]: "safe rd_tuple"
  unfolding rd_tuple_def by (intro safe_intros)

lemma safe_relation_column [safe_intros]: "safe rd_relation_column"
  unfolding rd_relation_column_def by (intro safe_intros)

lemma safe_arms [safe_intros]:
  "safe rd_begin" "safe rd_commit" "safe rd_relation" "safe rd_insert" "safe rd_delete"
  "safe rd_truncate"
  unfolding rd_begin_def rd_commit_def rd_relation_def rd_insert_def rd_delete_def rd_truncate_def
  by (auto intro!: safe_intros)

lemma safe_update [safe_intros]: "safe rd_update"
  unfolding rd_update_def by (auto intro!: safe_intros split: prod.splits)

lemma safe_message: "safe rd_message"
  unfolding rd_message_def by (auto intro!: safe_intros)

section \<open>UTF-8\<close>

function utf8_valid :: "u8 list \<Rightarrow> bool" where
  "utf8_valid bs =
     (if bs = [] then True
      else case utf8_step bs of (ok, n) \<Rightarrow> ok \<and> n \<le> length bs \<and> utf8_valid (drop n bs))"
  by pat_completeness auto
termination
  by (relation "measure length") (auto dest!: sym [THEN utf8_step_pos])

declare utf8_valid.simps [simp del]

lemma utf8_valid_Nil [simp]: "utf8_valid []"
  by (simp add: utf8_valid.simps)







lemma from_utf8_lossy_id: "utf8_valid bs \<Longrightarrow> from_utf8_lossy bs = bs"
proof (induction bs rule: from_utf8_lossy.induct)
  case (1 bs)
  show ?case
  proof (cases "bs = []")
    case True
    then show ?thesis by (simp add: from_utf8_lossy.simps)
  next
    case False
    obtain ok n where s: "utf8_step bs = (ok, n)" by (cases "utf8_step bs")
    from "1.prems" False s have "ok" and "utf8_valid (drop n bs)"
      by (auto simp: utf8_valid.simps [of bs])
    with 1 False s have "from_utf8_lossy (drop n bs) = drop n bs" by simp
    with False s \<open>ok\<close> show ?thesis by (simp add: from_utf8_lossy.simps [of bs])
  qed
qed

section \<open>What a parser consumes\<close>

definition at :: "reader \<Rightarrow> u8 list \<Rightarrow> bool" where
  "at r bs \<longleftrightarrow> rd_pos r \<le> length (rd_data r) \<and> drop (rd_pos r) (rd_data r) = bs"

definition advance :: "nat \<Rightarrow> reader \<Rightarrow> reader" where
  "advance n r = r\<lparr>rd_pos := rd_pos r + n\<rparr>"

definition reads :: "'a parser \<Rightarrow> u8 list \<Rightarrow> 'a \<Rightarrow> bool" where
  "reads p bs x \<longleftrightarrow> (\<forall>r rest. at r (bs @ rest) \<longrightarrow> p r = Inr (x, advance (length bs) r))"

named_theorems reads_intros "what the parsers read"

lemma at_appendD:
  assumes "at r (a @ b)"
  shows "rd_pos r + length a \<le> length (rd_data r)"
    and "take (length a) (drop (rd_pos r) (rd_data r)) = a"
    and "at (advance (length a) r) b"
proof -
  from assms have d: "drop (rd_pos r) (rd_data r) = a @ b" and p: "rd_pos r \<le> length (rd_data r)"
    by (simp_all add: at_def)
  from d have "length (rd_data r) - rd_pos r = length a + length b"
    by (metis length_append length_drop)
  with p show le: "rd_pos r + length a \<le> length (rd_data r)" by linarith
  from d show "take (length a) (drop (rd_pos r) (rd_data r)) = a" by simp
  from d have "drop (length a) (drop (rd_pos r) (rd_data r)) = b" by simp
  with le show "at (advance (length a) r) b"
    by (simp add: at_def advance_def add.commute)
qed

lemma advance_advance [simp]: "advance m (advance n r) = advance (n + m) r"
  by (simp add: advance_def add.assoc)

lemma reads_pret [reads_intros]: "reads (pret x) [] x"
  by (simp add: reads_def pret_def advance_def)

lemma reads_pbind:
  assumes "reads p a x" and "reads (f x) b y"
  shows "reads (pbind p f) (a @ b) y"
  unfolding reads_def
proof (intro allI impI)
  fix r rest
  assume "at r ((a @ b) @ rest)"
  then have a: "at r (a @ (b @ rest))" by simp
  with assms(1) have "p r = Inr (x, advance (length a) r)" unfolding reads_def by blast
  moreover have "f x (advance (length a) r) = Inr (y, advance (length b) (advance (length a) r))"
    using at_appendD(3) [OF a] assms(2) unfolding reads_def by blast
  ultimately show "pbind p f r = Inr (y, advance (length (a @ b)) r)"
    by (simp add: pbind_def)
qed

text \<open>The same rule with the bytes of the sequence to be split as an equation.\<close>

lemma reads_pbind_eq: "reads p a x \<Longrightarrow> reads (f x) b y \<Longrightarrow> bs = a @ b \<Longrightarrow> reads (pbind p f) bs y"
  by (simp add: reads_pbind)

lemma reads_take: "n = length bs \<Longrightarrow> reads (rd_take n) bs bs"
  unfolding reads_def
  by (auto simp: rd_take_def at_appendD(2)) (auto simp: advance_def dest: at_appendD(1))

lemma reads_pbind_pret: "reads p bs x \<Longrightarrow> y = g x \<Longrightarrow> reads (pbind p (\<lambda>x. pret (g x))) bs y"
  using reads_pbind [of p bs x "\<lambda>x. pret (g x)" "[]"] by (simp add: reads_pret)

section \<open>The reference encoding\<close>

text \<open>Big-endian bytes of a non-negative integer.\<close>

fun be_bytes :: "nat \<Rightarrow> int \<Rightarrow> u8 list" where
  "be_bytes 0 v = []"
| "be_bytes (Suc n) v = be_bytes n (v div 256) @ [of_int v]"

lemma length_be_bytes [simp]: "length (be_bytes n v) = n"
  by (induction n arbitrary: v) auto

lemma be_value_snoc: "be_value (bs @ [b]) = be_value bs * 256 + uint b"
  by (simp add: be_value_def)

lemma be_value_bytes: "be_value (be_bytes n v) = v mod 256 ^ n"
proof (induction n arbitrary: v)
  case 0
  show ?case by (simp add: be_value_def)
next
  case (Suc n)
  have "uint (of_int v :: u8) = v mod 256"
    by (simp add: unsigned_of_int take_bit_eq_mod)
  with Suc show ?case
    by (simp add: be_value_snoc zmod_zmult2_eq)
qed

definition text_bytes :: "string \<Rightarrow> u8 list" where
  "text_bytes s = map (\<lambda>c. of_nat (of_char c)) s"

lemma length_text_bytes [simp]: "length (text_bytes s) = length s"
  by (simp add: text_bytes_def)

lemma bytes_text_bytes [simp]: "bytes_text (text_bytes s) = s"
proof -
  have "char_of (unat (of_nat (of_char c) :: u8)) = c" for c
    by (simp add: unsigned_of_nat take_bit_eq_mod)
  then show ?thesis by (simp add: bytes_text_def text_bytes_def map_idI)
qed

text \<open>A text the protocol can carry: well-formed UTF-8 and, for a C string, no NUL.\<close>

definition ok_text :: "string \<Rightarrow> bool" where
  "ok_text s \<longleftrightarrow> utf8_valid (text_bytes s)"

definition ok_cstring :: "string \<Rightarrow> bool" where
  "ok_cstring s \<longleftrightarrow> ok_text s \<and> 0 \<notin> set (text_bytes s)"

lemma lossy_text_bytes [simp]: "ok_text s \<Longrightarrow> lossy_text (text_bytes s) = s"
  by (simp add: ok_text_def lossy_text_def from_utf8_lossy_id)

definition enc_cstring :: "string \<Rightarrow> u8 list" where
  "enc_cstring s = text_bytes s @ [0]"

fun enc_column :: "column_value \<Rightarrow> u8 list" where
  "enc_column CNull = [0x6E]"
| "enc_column CUnchanged = [0x75]"
| "enc_column (CText s) = 0x74 # be_bytes 4 (int (length s)) @ text_bytes s"

definition ok_column :: "column_value \<Rightarrow> bool" where
  "ok_column v \<longleftrightarrow> (\<forall>s. v = CText s \<longrightarrow> ok_text s \<and> length s < 2 ^ 31)"

definition enc_tuple :: "tuple \<Rightarrow> u8 list" where
  "enc_tuple t = be_bytes 2 (int (length t)) @ concat (map enc_column t)"

definition ok_tuple :: "tuple \<Rightarrow> bool" where
  "ok_tuple t \<longleftrightarrow> length t < 2 ^ 15 \<and> (\<forall>v \<in> set t. ok_column v)"

definition enc_relation_column :: "relation_column \<Rightarrow> u8 list" where
  "enc_relation_column c = (if rc_is_key c then 1 else 0) # enc_cstring (rc_name c) @
     be_bytes 4 (uint (rc_typid c)) @ be_bytes 4 (uint (rc_typmod c))"

definition ok_relation_column :: "relation_column \<Rightarrow> bool" where
  "ok_relation_column c \<longleftrightarrow> ok_cstring (rc_name c) \<and> rc_type_name c = None"

text \<open>
  A whole message; \<open>ts\<close> and \<open>fl\<close> are the timestamp and flag fields the decoder skips.
\<close>

fun enc_message :: "u64 \<Rightarrow> u8 \<Rightarrow> message \<Rightarrow> u8 list" where
  "enc_message ts fl (Begin final_lsn xid) =
     0x42 # be_bytes 8 (uint final_lsn) @ be_bytes 8 (uint ts) @ be_bytes 4 (uint xid)"
| "enc_message ts fl (Commit commit_lsn end_lsn) =
     0x43 # fl # be_bytes 8 (uint commit_lsn) @ be_bytes 8 (uint end_lsn) @ be_bytes 8 (uint ts)"
| "enc_message ts fl (MRelation rel) =
     0x52 # be_bytes 4 (uint (rel_id rel)) @ enc_cstring (rel_namespace rel) @
     enc_cstring (rel_name rel) @ rel_replident rel #
     be_bytes 2 (int (length (rel_columns rel))) @ concat (map enc_relation_column (rel_columns rel))"
| "enc_message ts fl (MInsert relid new) =
     0x49 # be_bytes 4 (uint relid) @ 0x4E # enc_tuple new"
| "enc_message ts fl (MUpdate relid old new) =
     0x55 # be_bytes 4 (uint relid) @
     (case old of None \<Rightarrow> [] | Some (k, t) \<Rightarrow> k # enc_tuple t) @ 0x4E # enc_tuple new"
| "enc_message ts fl (MDelete relid key_kind old) =
     0x44 # be_bytes 4 (uint relid) @ key_kind # enc_tuple old"
| "enc_message ts fl (MTruncate relids) =
     0x54 # be_bytes 4 (int (length relids)) @ fl # concat (map (\<lambda>i. be_bytes 4 (uint i)) relids)"
| "enc_message ts fl (MIgnored kind) = [kind]"

fun ok_message :: "message \<Rightarrow> bool" where
  "ok_message (MRelation rel) \<longleftrightarrow>
     ok_cstring (rel_namespace rel) \<and> ok_cstring (rel_name rel) \<and>
     length (rel_columns rel) < 2 ^ 15 \<and> (\<forall>c \<in> set (rel_columns rel). ok_relation_column c)"
| "ok_message (MInsert relid new) \<longleftrightarrow> ok_tuple new"
| "ok_message (MUpdate relid old new) \<longleftrightarrow>
     ok_tuple new \<and> (\<forall>k t. old = Some (k, t) \<longrightarrow> (k = 0x4B \<or> k = 0x4F) \<and> ok_tuple t)"
| "ok_message (MDelete relid key_kind old) \<longleftrightarrow> (key_kind = 0x4B \<or> key_kind = 0x4F) \<and> ok_tuple old"
| "ok_message (MTruncate relids) \<longleftrightarrow> length relids < 2 ^ 31"
| "ok_message (MIgnored kind) \<longleftrightarrow> kind = 0x4F \<or> kind = 0x4D \<or> kind = 0x59"
| "ok_message _ \<longleftrightarrow> True"

section \<open>The codec contract\<close>

locale codec =
  fixes enc :: "'a \<Rightarrow> u8 list"
    and dec :: "'a parser"
    and ok :: "'a \<Rightarrow> bool"
  assumes reads_enc: "ok x \<Longrightarrow> reads dec (enc x) x"
begin

lemma reads_then: "ok x \<Longrightarrow> reads (f x) b y \<Longrightarrow> reads (pbind dec f) (enc x @ b) y"
  by (rule reads_pbind [OF reads_enc])

lemma reads_last: "ok x \<Longrightarrow> y = g x \<Longrightarrow> reads (pbind dec (\<lambda>x. pret (g x))) (enc x) y"
  by (rule reads_pbind_pret [OF reads_enc])

lemma reads_list:
  "\<forall>x \<in> set xs. ok x \<Longrightarrow> reads (prepeat (length xs) dec) (concat (map enc xs)) xs"
proof (induction xs)
  case Nil
  show ?case by (simp add: reads_pret)
next
  case (Cons x xs)
  then show ?case by (auto intro!: reads_then reads_pbind_pret)
qed

end

lemma reads_u8: "reads rd_u8 [b] b"
  unfolding rd_u8_def by (rule reads_pbind_pret [OF reads_take]) simp_all

lemma reads_u32: "reads rd_u32 (be_bytes 4 (uint w)) w"
  unfolding rd_u32_def
proof (rule reads_pbind_pret [OF reads_take])
  have "uint w mod 256 ^ 4 = uint w" by (rule mod_pos_pos_trivial) (use uint_bounded [of w] in auto)
  then show "w = of_int (be_value (be_bytes 4 (uint w)))" by (simp add: be_value_bytes)
qed simp

lemma reads_u64: "reads rd_u64 (be_bytes 8 (uint w)) w"
  unfolding rd_u64_def
proof (rule reads_pbind_pret [OF reads_take])
  have "uint w mod 256 ^ 8 = uint w" by (rule mod_pos_pos_trivial) (use uint_bounded [of w] in auto)
  then show "w = of_int (be_value (be_bytes 8 (uint w)))" by (simp add: be_value_bytes)
qed simp

lemma sint_of_small_int:
  "0 \<le> m \<Longrightarrow> m < 2 ^ 15 \<Longrightarrow> sint (of_int m :: u16) = m"
  "0 \<le> m \<Longrightarrow> m < 2 ^ 31 \<Longrightarrow> sint (of_int m :: u32) = m"
  by (simp_all add: signed_of_int signed_take_bit_int_eq_self)

lemma reads_i16:
  assumes "n < 2 ^ 15"
  shows "reads rd_i16 (be_bytes 2 (int n)) (int n)"
  unfolding rd_i16_def
proof (rule reads_pbind_pret [OF reads_take])
  show "int n = sint (of_int (be_value (be_bytes 2 (int n))) :: u16)"
    unfolding be_value_bytes using assms
    by (subst sint_of_small_int) simp_all
qed simp

lemma reads_i32:
  assumes "n < 2 ^ 31"
  shows "reads rd_i32 (be_bytes 4 (int n)) (int n)"
  unfolding rd_i32_def
proof (rule reads_pbind_pret [OF reads_take])
  show "int n = sint (of_int (be_value (be_bytes 4 (int n))) :: u32)"
    unfolding be_value_bytes using assms
    by (subst sint_of_small_int) simp_all
qed simp

lemma reads_cstring:
  assumes "ok_cstring s"
  shows "reads rd_cstring (enc_cstring s) s"
  unfolding reads_def
proof (intro allI impI)
  fix r rest
  assume "at r (enc_cstring s @ rest)"
  then have d: "drop (rd_pos r) (rd_data r) = text_bytes s @ 0 # rest"
    by (simp add: at_def enc_cstring_def)
  have "position (\<lambda>b. b = 0) (xs @ 0 # rest) = Some (length xs)" if "0 \<notin> set xs" for xs :: "u8 list"
    using that by (induction xs) auto
  with assms have "position (\<lambda>b. b = 0) (text_bytes s @ 0 # rest) = Some (length s)"
    by (simp add: ok_cstring_def)
  with assms d show "rd_cstring r = Inr (s, advance (length (enc_cstring s)) r)"
    by (simp add: rd_cstring_def Let_def enc_cstring_def advance_def ok_cstring_def)
qed

interpretation u8_codec: codec "\<lambda>b. [b]" rd_u8 "\<lambda>_. True"
  by unfold_locales (rule reads_u8)

interpretation u32_codec: codec "\<lambda>w. be_bytes 4 (uint w)" rd_u32 "\<lambda>_. True"
  by unfold_locales (rule reads_u32)

interpretation u64_codec: codec "\<lambda>w. be_bytes 8 (uint w)" rd_u64 "\<lambda>_. True"
  by unfold_locales (rule reads_u64)

interpretation cstring_codec: codec enc_cstring rd_cstring ok_cstring
  by unfold_locales (rule reads_cstring)

lemma reads_column: "ok_column v \<Longrightarrow> reads rd_column (enc_column v) v"
proof (cases v)
  case CNull
  then show ?thesis
    using u8_codec.reads_last unfolding rd_column_def
    by (auto intro!: reads_pbind_eq [OF reads_u8] reads_pret)
next
  case CUnchanged
  then show ?thesis
    unfolding rd_column_def by (auto intro!: reads_pbind_eq [OF reads_u8] reads_pret)
next
  case (CText s)
  assume "ok_column v"
  with CText have s: "ok_text s" "length s < 2 ^ 31" by (simp_all add: ok_column_def)
  have "reads (pbind (rd_take (nat (int (length s)))) (\<lambda>bs. pret (CText (lossy_text bs))))
    (text_bytes s) (CText s)"
    using s by (intro reads_pbind_pret [OF reads_take]) simp_all
  with s CText show ?thesis
    unfolding rd_column_def
    by (auto intro!: reads_pbind_eq [OF reads_u8] reads_pbind_eq [OF reads_i32])
qed

interpretation column_codec: codec enc_column rd_column ok_column
  by unfold_locales (rule reads_column)

lemma reads_tuple: "ok_tuple t \<Longrightarrow> reads rd_tuple (enc_tuple t) t"
  unfolding rd_tuple_def enc_tuple_def ok_tuple_def
  by (auto intro!: reads_pbind reads_i16 column_codec.reads_list)

interpretation tuple_codec: codec enc_tuple rd_tuple ok_tuple
  by unfold_locales (rule reads_tuple)

lemma reads_relation_column:
  assumes "ok_relation_column c"
  shows "reads rd_relation_column (enc_relation_column c) c"
proof -
  have "c = \<lparr>rc_name = rc_name c, rc_is_key = ((if rc_is_key c then 1 else 0 :: u8) AND 1 = 1),
      rc_typid = rc_typid c, rc_typmod = rc_typmod c, rc_type_name = None\<rparr>"
    using assms by (cases c) (simp add: ok_relation_column_def)
  then show ?thesis
    using assms unfolding rd_relation_column_def enc_relation_column_def ok_relation_column_def
    by (auto intro!: reads_pbind_eq [OF reads_u8] cstring_codec.reads_then u32_codec.reads_then
        u32_codec.reads_last)
qed

interpretation relation_column_codec: codec enc_relation_column rd_relation_column ok_relation_column
  by unfold_locales (rule reads_relation_column)

section \<open>Every kind of message\<close>

lemma reads_begin:
  "reads rd_begin (be_bytes 8 (uint f) @ be_bytes 8 (uint (ts :: u64)) @ be_bytes 4 (uint xid)) (Begin f xid)"
  unfolding rd_begin_def
  by (rule u64_codec.reads_then, simp, rule u64_codec.reads_then, simp, rule u32_codec.reads_last)
    simp_all

lemma reads_commit:
  "reads rd_commit (fl # be_bytes 8 (uint c) @ be_bytes 8 (uint e) @ be_bytes 8 (uint (ts :: u64))) (Commit c e)"
  unfolding rd_commit_def
  by (rule reads_pbind_eq [OF reads_u8], rule u64_codec.reads_then, simp,
      rule u64_codec.reads_then, simp, rule u64_codec.reads_last [where g = "\<lambda>_. Commit c e"])
    simp_all

lemma reads_relation:
  assumes "ok_message (MRelation rel)"
  shows "reads rd_relation (be_bytes 4 (uint (rel_id rel)) @ enc_cstring (rel_namespace rel) @
     enc_cstring (rel_name rel) @ rel_replident rel #
     be_bytes 2 (int (length (rel_columns rel))) @ concat (map enc_relation_column (rel_columns rel)))
     (MRelation rel)"
  using assms unfolding rd_relation_def
  by (auto intro!: u32_codec.reads_then cstring_codec.reads_then reads_pbind_eq [OF reads_u8]
      reads_pbind [OF reads_i16] reads_pbind_pret relation_column_codec.reads_list)

lemma reads_insert:
  "ok_tuple new \<Longrightarrow> reads rd_insert (be_bytes 4 (uint relid) @ 0x4E # enc_tuple new) (MInsert relid new)"
  unfolding rd_insert_def
  by (auto intro!: u32_codec.reads_then reads_pbind_eq [OF reads_u8] tuple_codec.reads_last)

lemma reads_delete:
  "ok_tuple old \<Longrightarrow> k = 0x4B \<or> k = 0x4F \<Longrightarrow>
   reads rd_delete (be_bytes 4 (uint relid) @ k # enc_tuple old) (MDelete relid k old)"
  unfolding rd_delete_def
  by (auto intro!: u32_codec.reads_then reads_pbind_eq [OF reads_u8] tuple_codec.reads_last)

lemma reads_truncate:
  "length relids < 2 ^ 31 \<Longrightarrow>
   reads rd_truncate (be_bytes 4 (int (length relids)) @ fl #
     concat (map (\<lambda>i. be_bytes 4 (uint i)) relids)) (MTruncate relids)"
  unfolding rd_truncate_def
  by (auto intro!: reads_pbind [OF reads_i32] reads_pbind_eq [OF reads_u8] reads_pbind_pret
      u32_codec.reads_list)

lemma reads_update:
  assumes "ok_message (MUpdate relid old new)"
  shows "reads rd_update (be_bytes 4 (uint relid) @
     (case old of None \<Rightarrow> [] | Some (k, t) \<Rightarrow> k # enc_tuple t) @ 0x4E # enc_tuple new)
     (MUpdate relid old new)"
proof (cases old)
  case None
  have "reads (pbind (pret (None, 0x4E)) (\<lambda>(old, tag).
      if tag \<noteq> 0x4E then pfail (UpdateExpectedN tag)
      else pbind rd_tuple (\<lambda>new. pret (MUpdate relid old new))))
    ([] @ enc_tuple new) (MUpdate relid None new)"
    by (rule reads_pbind [OF reads_pret]) (use assms in \<open>auto intro!: tuple_codec.reads_last\<close>)
  with None show ?thesis
    unfolding rd_update_def
    by (auto intro!: u32_codec.reads_then reads_pbind_eq [OF reads_u8])
next
  case (Some kt)
  obtain k t where kt: "kt = (k, t)" by (cases kt)
  have "reads (pbind rd_tuple (\<lambda>t. pbind rd_u8 (\<lambda>tag. pret (Some (k, t), tag))))
    (enc_tuple t @ [0x4E]) (Some (k, t), 0x4E)"
    using assms Some kt by (auto intro!: tuple_codec.reads_then u8_codec.reads_last)
  then have "reads (pbind (pbind rd_tuple (\<lambda>t. pbind rd_u8 (\<lambda>tag. pret (Some (k, t), tag))))
      (\<lambda>(old, tag). if tag \<noteq> 0x4E then pfail (UpdateExpectedN tag)
                   else pbind rd_tuple (\<lambda>new. pret (MUpdate relid old new))))
    ((enc_tuple t @ [0x4E]) @ enc_tuple new) (MUpdate relid (Some (k, t)) new)"
    by (rule reads_pbind) (use assms in \<open>auto intro!: tuple_codec.reads_last\<close>)
  with assms Some kt show ?thesis
    unfolding rd_update_def
    by (intro u32_codec.reads_then, simp)
      (rule reads_pbind_eq [OF reads_u8, where b = "(enc_tuple t @ [0x4E]) @ enc_tuple new"],
        auto)
qed

lemma reads_message:
  assumes "ok_message m"
  shows "reads rd_message (enc_message ts fl m) m"
proof (cases m)
  case (MIgnored kind)
  with assms have "reads rd_message ([kind] @ []) (MIgnored kind)"
    unfolding rd_message_def by (intro reads_pbind [OF reads_u8]) (auto intro: reads_pret)
  with MIgnored show ?thesis by simp
qed (use assms in \<open>auto simp: rd_message_def intro!: reads_pbind_eq [OF reads_u8] reads_begin
    reads_commit reads_relation reads_insert reads_update reads_delete reads_truncate\<close>)

lemma decode_enc:
  assumes "ok_message m"
  shows "decode (enc_message ts fl m @ extra) = Inr m"
proof -
  have "at \<lparr>rd_data = enc_message ts fl m @ extra, rd_pos = 0\<rparr> (enc_message ts fl m @ extra)"
    by (simp add: at_def)
  with reads_message [OF assms, of ts fl] show ?thesis
    unfolding reads_def decode_def by force
qed

section \<open>Properties\<close>

text \<open>
  C9. \<open>decode\<close> inverts the wire format: for every message the protocol can carry (texts in UTF-8,
  counts in their signed ranges, tuple kinds K and O), whatever the skipped flags, timestamps and
  trailing bytes are, decoding its encoding gives the message back.
\<close>

theorem decode_roundtrip:
  assumes "ok_message m"
  shows "decode (enc_message ts fl m @ extra) = Inr m"
  using assms by (rule decode_enc)

theorem decode_roundtrip_witness:
  "decode (enc_message 7 0 (MUpdate 16 (Some (0x4B, [CText ''1'', CNull])) [CText ''2'', CUnchanged])
     @ [0xFF]) = Inr (MUpdate 16 (Some (0x4B, [CText ''1'', CNull])) [CText ''2'', CUnchanged])"
proof (rule decode_roundtrip)
  have "utf8_valid (text_bytes ''1'')" and "utf8_valid (text_bytes ''2'')" by code_simp+
  then show "ok_message (MUpdate 16 (Some (0x4B, [CText ''1'', CNull])) [CText ''2'', CUnchanged])"
    by (simp add: ok_tuple_def ok_column_def ok_text_def)
qed

text \<open>
  C12. Memory safety of the decoder on arbitrary bytes: reading any message from any position
  inside the buffer either ends at a later position still inside it, or fails; a truncation error
  names a range that really runs past the end. So no slice of the reader is out of range.
\<close>

theorem decode_in_bounds:
  assumes "pos \<le> length data"
  shows "case rd_message \<lparr>rd_data = data, rd_pos = pos\<rparr> of
      Inl e \<Rightarrow> error_in_range (length data) e
    | Inr (m, r) \<Rightarrow> rd_data r = data \<and> pos \<le> rd_pos r \<and> rd_pos r \<le> length data"
  using safe_message [unfolded safe_def, rule_format, of "\<lparr>rd_data = data, rd_pos = pos\<rparr>"] assms
  by (auto split: sum.splits)

theorem decode_in_bounds_witness:
  "case rd_message \<lparr>rd_data = [0x42, 1, 2], rd_pos = 0\<rparr> of
      Inl e \<Rightarrow> error_in_range (length [0x42, 1, 2 :: u8]) e
    | Inr (m, r) \<Rightarrow> rd_data r = [0x42, 1, 2] \<and> 0 \<le> rd_pos r \<and> rd_pos r \<le> length [0x42, 1, 2 :: u8]"
  by (rule decode_in_bounds) simp



end
