(* ===== verification/Decoder.thy ===== *)
theory Decoder
  imports Pgoutput Pgoutput_Facts
begin

text \<open>
  \<open>src/src/pgoutput.rs\<close>, second half: \<open>Decoder\<close> groups decoded messages into complete source
  transactions and keeps the relation cache. \<open>feed\<close> is the state machine with its error paths;
  \<open>tx_messages\<close> is the abstract specification: the messages a transaction is sent as.
\<close>

section \<open>State\<close>

datatype change =
    ChInsert u32 tuple
  | ChUpdate u32 "(u8 \<times> tuple) option" tuple
  | ChDelete u32 u8 tuple
  | ChTruncate "u32 list"

record source_transaction =
  tx_xid :: u32
  tx_commit_lsn :: u64
  tx_end_lsn :: u64
  tx_changes :: "change list"

record decoder =
  dc_relations :: "u32 \<rightharpoonup> relation"
  dc_current :: "source_transaction option"
  dc_complete :: "source_transaction list"

datatype feed_error =
    DecodeError decode_error
  | BeginWhileOpen
  | CommitWithoutBegin
  | ChangeOutsideTransaction

text \<open>\<open>Decoder::default()\<close>.\<close>

definition new_decoder :: decoder where
  "new_decoder = \<lparr>dc_relations = Map.empty, dc_current = None, dc_complete = []\<rparr>"

section \<open>Operations\<close>

definition dc_push :: "change \<Rightarrow> decoder \<Rightarrow> feed_error + decoder" where
  "dc_push c d =
     (case dc_current d of
        None \<Rightarrow> Inl ChangeOutsideTransaction
      | Some tx \<Rightarrow> Inr (d\<lparr>dc_current := Some (tx\<lparr>tx_changes := tx_changes tx @ [c]\<rparr>)\<rparr>))"

text \<open>
  The \<open>zip\<close> loop of the \<open>Relation\<close> arm: a column keeps the resolved type name of its predecessor
  at the same position when name, type and modifier are unchanged; \<open>zip\<close> stops at the shorter
  list, so further columns of the new relation are left as they are.
\<close>

fun keep_type_names :: "relation_column list \<Rightarrow> relation_column list \<Rightarrow> relation_column list" where
  "keep_type_names (c # cs) (p # ps) =
     (if rc_name c = rc_name p \<and> rc_typid c = rc_typid p \<and> rc_typmod c = rc_typmod p
      then c\<lparr>rc_type_name := rc_type_name p\<rparr> else c) # keep_type_names cs ps"
| "keep_type_names cs [] = cs"
| "keep_type_names [] ps = []"

definition dc_relation :: "relation \<Rightarrow> decoder \<Rightarrow> decoder" where
  "dc_relation rel d =
     (let rel' = (case dc_relations d (rel_id rel) of
                    None \<Rightarrow> rel
                  | Some prev \<Rightarrow>
                      rel\<lparr>rel_columns := keep_type_names (rel_columns rel) (rel_columns prev)\<rparr>)
      in d\<lparr>dc_relations := (dc_relations d)(rel_id rel \<mapsto> rel')\<rparr>)"

fun feed_message :: "message \<Rightarrow> decoder \<Rightarrow> feed_error + decoder" where
  "feed_message (Begin final_lsn xid) d =
     (if dc_current d \<noteq> None then Inl BeginWhileOpen
      else Inr (d\<lparr>dc_current := Some \<lparr>tx_xid = xid, tx_commit_lsn = final_lsn, tx_end_lsn = 0,
                                     tx_changes = []\<rparr>\<rparr>))"
| "feed_message (Commit commit_lsn end_lsn) d =
     (case dc_current d of
        None \<Rightarrow> Inl CommitWithoutBegin
      | Some tx \<Rightarrow>
          Inr (d\<lparr>dc_current := None,
                 dc_complete := dc_complete d @
                   [tx\<lparr>tx_commit_lsn := commit_lsn, tx_end_lsn := end_lsn\<rparr>]\<rparr>))"
| "feed_message (MRelation rel) d = Inr (dc_relation rel d)"
| "feed_message (MInsert relid new) d = dc_push (ChInsert relid new) d"
| "feed_message (MUpdate relid old new) d = dc_push (ChUpdate relid old new) d"
| "feed_message (MDelete relid key_kind old) d = dc_push (ChDelete relid key_kind old) d"
| "feed_message (MTruncate relids) d = dc_push (ChTruncate relids) d"
| "feed_message (MIgnored kind) d = Inr d"

definition feed :: "u8 list \<Rightarrow> decoder \<Rightarrow> feed_error + decoder" where
  "feed data d =
     (case decode data of
        Inl e \<Rightarrow> Inl (DecodeError e)
      | Inr m \<Rightarrow> feed_message m d)"

definition has_incomplete :: "decoder \<Rightarrow> bool" where
  "has_incomplete d \<longleftrightarrow> dc_current d \<noteq> None"

definition discard_incomplete :: "decoder \<Rightarrow> decoder" where
  "discard_incomplete d = d\<lparr>dc_current := None\<rparr>"

definition take_complete :: "decoder \<Rightarrow> source_transaction list \<times> decoder" where
  "take_complete d = (dc_complete d, d\<lparr>dc_complete := []\<rparr>)"

section \<open>The stream a log is sent as\<close>

fun change_message :: "change \<Rightarrow> message" where
  "change_message (ChInsert relid new) = MInsert relid new"
| "change_message (ChUpdate relid old new) = MUpdate relid old new"
| "change_message (ChDelete relid key_kind old) = MDelete relid key_kind old"
| "change_message (ChTruncate relids) = MTruncate relids"

definition tx_messages :: "u64 \<times> source_transaction \<Rightarrow> message list" where
  "tx_messages ft = (case ft of (final_lsn, tx) \<Rightarrow>
     Begin final_lsn (tx_xid tx) # map change_message (tx_changes tx) @
     [Commit (tx_commit_lsn tx) (tx_end_lsn tx)])"

text \<open>
  The end of a stream cut off inside a transaction: the open transaction the decoder holds.
\<close>

definition tail_messages :: "source_transaction option \<Rightarrow> message list" where
  "tail_messages t = (case t of
     None \<Rightarrow> []
   | Some tx \<Rightarrow> Begin (tx_commit_lsn tx) (tx_xid tx) # map change_message (tx_changes tx))"

text \<open>Messages that carry no transaction content and may appear anywhere.\<close>

fun metadata :: "message \<Rightarrow> bool" where
  "metadata (MRelation rel) \<longleftrightarrow> True"
| "metadata (MIgnored kind) \<longleftrightarrow> True"
| "metadata _ \<longleftrightarrow> False"

section \<open>Feeding\<close>

lemma feed_change_message:
  "feed_message (change_message c) d = dc_push c d"
  by (cases c) simp_all

text \<open>Metadata touches the relation cache only, so it commutes with everything else.\<close>

lemma feed_metadata:
  "metadata m \<Longrightarrow> \<exists>rels. feed_message m d = Inr (d\<lparr>dc_relations := rels\<rparr>)"
  by (cases m) (auto simp: dc_relation_def Let_def intro: exI [of _ "dc_relations d"])

text \<open>The part of the state the transactions live in.\<close>

definition tx_state :: "decoder \<Rightarrow> source_transaction option \<times> source_transaction list" where
  "tx_state d = (dc_current d, dc_complete d)"

lemma tx_state_relations [simp]: "tx_state (d\<lparr>dc_relations := rels\<rparr>) = tx_state d"
  by (simp add: tx_state_def)

lemma dc_push_tx_state:
  "tx_state d = tx_state e \<Longrightarrow> map_sum id tx_state (dc_push c d) = map_sum id tx_state (dc_push c e)"
  by (auto simp: dc_push_def tx_state_def split: option.splits)

lemma feed_message_tx_state:
  "\<not> metadata m \<Longrightarrow> tx_state d = tx_state e \<Longrightarrow>
   map_sum id tx_state (feed_message m d) = map_sum id tx_state (feed_message m e)"
  by (cases m) (auto simp: tx_state_def split: option.splits intro!: dc_push_tx_state)

lemma rfold_tx_state:
  assumes "tx_state d = tx_state e"
  shows "map_sum id tx_state (rfold feed_message ms d) =
         map_sum id tx_state (rfold feed_message (filter (\<lambda>m. \<not> metadata m) ms) e)"
  using assms
proof (induction ms arbitrary: d e)
  case Nil
  then show ?case by simp
next
  case (Cons m ms)
  show ?case
  proof (cases "metadata m")
    case True
    with feed_metadata [OF True, of d] Cons show ?thesis by force
  next
    case False
    from feed_message_tx_state [OF False Cons.prems]
    have "map_sum id tx_state (feed_message m d) = map_sum id tx_state (feed_message m e)" .
    with False Cons.IH show ?thesis
      by (cases "feed_message m d"; cases "feed_message m e") auto
  qed
qed

lemma rfold_changes:
  assumes "dc_current d = Some tx"
  shows "rfold feed_message (map change_message cs) d =
    Inr (d\<lparr>dc_current := Some (tx\<lparr>tx_changes := tx_changes tx @ cs\<rparr>)\<rparr>)"
  using assms
proof (induction cs arbitrary: d tx)
  case Nil
  then show ?case by simp
next
  case (Cons c cs)
  then show ?case by (simp add: feed_change_message dc_push_def)
qed

lemma rfold_transaction:
  assumes "dc_current d = None"
  shows "rfold feed_message (tx_messages ft) d = Inr (d\<lparr>dc_complete := dc_complete d @ [snd ft]\<rparr>)"
  using assms
  by (cases ft) (auto simp: tx_messages_def rfold_append rfold_changes)

lemma rfold_transactions:
  assumes "dc_current d = None"
  shows "rfold feed_message (concat (map tx_messages fts)) d =
    Inr (d\<lparr>dc_complete := dc_complete d @ map snd fts\<rparr>)"
  using assms
proof (induction fts arbitrary: d)
  case Nil
  then show ?case by simp
next
  case (Cons ft fts)
  then show ?case by (simp add: rfold_append rfold_transaction)
qed

lemma rfold_tail:
  assumes "dc_current d = None" and "\<forall>tx. tail = Some tx \<longrightarrow> tx_end_lsn tx = 0"
  shows "rfold feed_message (tail_messages tail) d = Inr (d\<lparr>dc_current := tail\<rparr>)"
  using assms by (cases tail) (auto simp: tail_messages_def rfold_changes)

lemma rfold_stream:
  assumes "dc_current d = None" and "\<forall>tx. tail = Some tx \<longrightarrow> tx_end_lsn tx = 0"
    and "filter (\<lambda>m. \<not> metadata m) ms = concat (map tx_messages fts) @ tail_messages tail"
  shows "\<exists>d'. rfold feed_message ms d = Inr d' \<and> dc_current d' = tail \<and>
    dc_complete d' = dc_complete d @ map snd fts"
proof -
  have "rfold feed_message (filter (\<lambda>m. \<not> metadata m) ms) d =
    Inr (d\<lparr>dc_complete := dc_complete d @ map snd fts, dc_current := tail\<rparr>)"
    using assms by (simp add: rfold_append rfold_transactions rfold_tail)
  with rfold_tx_state [of d d ms] show ?thesis
    by (cases "rfold feed_message ms d") (auto simp: tx_state_def)
qed

text \<open>Feeding encoded messages is feeding the messages.\<close>

lemma feed_encoded:
  assumes "list_all2 (\<lambda>bs m. \<exists>ts fl extra. bs = enc_message ts fl m @ extra) datas ms"
    and "\<forall>m \<in> set ms. ok_message m"
  shows "rfold feed datas d = rfold feed_message ms d"
  using assms
proof (induction datas ms arbitrary: d rule: list_all2_induct)
  case Nil
  show ?case by simp
next
  case (Cons bs datas m ms)
  then obtain ts fl extra where "bs = enc_message ts fl m @ extra" by blast
  with Cons.prems have "feed bs d = feed_message m d"
    by (simp add: feed_def decode_enc)
  with Cons show ?case by (cases "feed_message m d") simp_all
qed

section \<open>The relation cache\<close>

text \<open>
  \<open>names_resolved ft\<close>: every type name in the cache is \<open>ft\<close> of the column's own type and modifier,
  \<open>ft\<close> being what \<open>format_type\<close> answers. The worker only fills in such names.
\<close>

definition columns_resolved :: "(u32 \<Rightarrow> u32 \<Rightarrow> string) \<Rightarrow> relation_column list \<Rightarrow> bool" where
  "columns_resolved ft cols \<longleftrightarrow>
     (\<forall>c \<in> set cols. rc_type_name c \<in> {None, Some (ft (rc_typid c) (rc_typmod c))})"

definition names_resolved :: "(u32 \<Rightarrow> u32 \<Rightarrow> string) \<Rightarrow> decoder \<Rightarrow> bool" where
  "names_resolved ft d \<longleftrightarrow>
     (\<forall>rel \<in> ran (dc_relations d). columns_resolved ft (rel_columns rel))"

lemma columns_resolved_Cons [simp]:
  "columns_resolved ft (c # cs) \<longleftrightarrow>
     rc_type_name c \<in> {None, Some (ft (rc_typid c) (rc_typmod c))} \<and> columns_resolved ft cs"
  by (simp add: columns_resolved_def)

lemma columns_resolved_keep:
  "columns_resolved ft cs \<Longrightarrow> columns_resolved ft ps \<Longrightarrow> columns_resolved ft (keep_type_names cs ps)"
  by (induction cs ps rule: keep_type_names.induct) auto

lemma names_resolved_relation:
  assumes "names_resolved ft d" and "columns_resolved ft (rel_columns rel)"
  shows "names_resolved ft (dc_relation rel d)"
proof -
  have "columns_resolved ft (rel_columns prev)" if "dc_relations d (rel_id rel) = Some prev" for prev
    using assms(1) that by (auto simp: names_resolved_def ran_def)
  with assms show ?thesis
    unfolding names_resolved_def dc_relation_def Let_def ran_def
    by (auto intro: columns_resolved_keep split: option.splits)
qed

lemma feed_message_relations:
  assumes "feed_message m d = Inr d'"
  shows "dc_relations d' = (case m of MRelation rel \<Rightarrow> dc_relations (dc_relation rel d) | _ \<Rightarrow> dc_relations d)"
  using assms by (cases m) (auto simp: dc_push_def split: option.splits if_splits)

lemma keep_type_names_same:
  assumes "map rc_name cs = map rc_name ps" "map rc_typid cs = map rc_typid ps"
    "map rc_typmod cs = map rc_typmod ps"
  shows "map rc_type_name (keep_type_names cs ps) = map rc_type_name ps"
  using assms by (induction cs ps rule: keep_type_names.induct) auto

text \<open>What \<open>decode\<close> returns carries no type name: only the worker resolves them.\<close>

definition yields :: "'a parser \<Rightarrow> ('a \<Rightarrow> bool) \<Rightarrow> bool" where
  "yields p P \<longleftrightarrow> (\<forall>r x r'. p r = Inr (x, r') \<longrightarrow> P x)"

lemma yields_pbind: "(\<And>x. yields (f x) P) \<Longrightarrow> yields (pbind p f) P"
  by (auto simp: yields_def pbind_def rbind_Inr_iff split: prod.splits)

lemma yields_pbind_strong: "yields p Q \<Longrightarrow> (\<And>x. Q x \<Longrightarrow> yields (f x) P) \<Longrightarrow> yields (pbind p f) P"
  unfolding yields_def pbind_def by (auto simp: rbind_Inr_iff split: prod.splits) blast

lemma yields_pret: "P x \<Longrightarrow> yields (pret x) P"
  by (simp add: yields_def pret_def)

lemma yields_pfail: "yields (pfail e) P"
  by (simp add: yields_def pfail_def)

lemma yields_prepeat: "yields p P \<Longrightarrow> yields (prepeat n p) (\<lambda>xs. \<forall>x \<in> set xs. P x)"
proof (induction n)
  case 0
  show ?case by (simp add: yields_pret)
next
  case (Suc n)
  show ?case
    unfolding prepeat.simps
    by (rule yields_pbind_strong [OF Suc.prems], rule yields_pbind_strong [OF Suc.IH [OF Suc.prems]])
      (rule yields_pret, simp)
qed

definition unresolved :: "message \<Rightarrow> bool" where
  "unresolved m \<longleftrightarrow> (\<forall>rel. m = MRelation rel \<longrightarrow> (\<forall>c \<in> set (rel_columns rel). rc_type_name c = None))"

lemma yields_relation: "yields rd_relation unresolved"
proof -
  have "yields rd_relation_column (\<lambda>c. rc_type_name c = None)"
    unfolding rd_relation_column_def by (intro yields_pbind yields_pret) simp
  then have cols: "yields (prepeat n rd_relation_column) (\<lambda>cs. \<forall>c \<in> set cs. rc_type_name c = None)" for n
    by (rule yields_prepeat)
  show ?thesis
    unfolding rd_relation_def
    by (rule yields_pbind, rule yields_pbind, rule yields_pbind, rule yields_pbind, rule yields_pbind,
        rule yields_pbind_strong [OF cols], rule yields_pret) (simp add: unresolved_def)
qed

lemma yields_message: "yields rd_message unresolved"
proof -
  have "yields rd_begin unresolved" "yields rd_commit unresolved" "yields rd_insert unresolved"
    "yields rd_update unresolved" "yields rd_delete unresolved" "yields rd_truncate unresolved"
    unfolding rd_begin_def rd_commit_def rd_insert_def rd_update_def rd_delete_def rd_truncate_def
    by (auto intro!: yields_pbind yields_pret yields_pfail simp: unresolved_def split: prod.splits)
  with yields_relation show ?thesis
    unfolding rd_message_def
    by (auto intro!: yields_pbind yields_pret yields_pfail simp: unresolved_def)
qed

lemma decode_unresolved: "decode data = Inr (MRelation rel) \<Longrightarrow> columns_resolved ft (rel_columns rel)"
  using yields_message unfolding yields_def decode_def unresolved_def columns_resolved_def
  by (fastforce simp: rbind_Inr_iff)

lemma feed_names_resolved:
  assumes "feed data d = Inr d'" and "names_resolved ft d"
  shows "names_resolved ft d'"
proof -
  from assms(1) obtain m where m: "decode data = Inr m" "feed_message m d = Inr d'"
    by (auto simp: feed_def split: sum.splits)
  show ?thesis
  proof (cases "\<exists>rel. m = MRelation rel")
    case True
    then obtain rel where rel: "m = MRelation rel" by blast
    with m have "names_resolved ft (dc_relation rel d)"
      by (intro names_resolved_relation [OF assms(2)] decode_unresolved) simp
    with rel m(2) show ?thesis by simp
  next
    case False
    with feed_message_relations [OF m(2)] have "dc_relations d' = dc_relations d"
      by (cases m) auto
    with assms(2) show ?thesis by (simp add: names_resolved_def)
  qed
qed

section \<open>Properties\<close>

text \<open>
  C8. The decoder recovers the log. Let a stream of messages be, apart from relation and ignored
  messages in any place, the messages of a list of transactions followed by a transaction cut off
  before its commit. Feeding the encoding of the stream to a fresh decoder succeeds, completes
  exactly these transactions in their order with all their changes, commit and end LSNs, and
  leaves exactly the cut-off transaction open; discarding it leaves nothing open.
\<close>

theorem feed_recovers_transactions:
  assumes "filter (\<lambda>m. \<not> metadata m) ms = concat (map tx_messages fts) @ tail_messages tail"
    and "\<forall>tx. tail = Some tx \<longrightarrow> tx_end_lsn tx = 0"
    and "\<forall>m \<in> set ms. ok_message m"
    and "list_all2 (\<lambda>bs m. \<exists>ts fl extra. bs = enc_message ts fl m @ extra) datas ms"
  shows "\<exists>d. rfold feed datas new_decoder = Inr d \<and>
    fst (take_complete d) = map snd fts \<and> has_incomplete d = (tail \<noteq> None) \<and>
    dc_current d = tail \<and> \<not> has_incomplete (discard_incomplete d) \<and>
    fst (take_complete (discard_incomplete d)) = map snd fts"
proof -
  have "\<exists>d. rfold feed_message ms new_decoder = Inr d \<and> dc_current d = tail \<and>
    dc_complete d = dc_complete new_decoder @ map snd fts"
    using assms by (intro rfold_stream) (simp_all add: new_decoder_def)
  with feed_encoded [OF assms(4,3)] show ?thesis
    by (auto simp: new_decoder_def take_complete_def has_incomplete_def discard_incomplete_def)
qed

definition example_tx :: "u64 \<Rightarrow> u64 \<Rightarrow> column_value \<Rightarrow> source_transaction" where
  "example_tx c e v = \<lparr>tx_xid = 7, tx_commit_lsn = c, tx_end_lsn = e,
     tx_changes = [ChInsert 16 [v], ChTruncate [16]]\<rparr>"

definition example_stream :: "message list" where
  "example_stream = [MIgnored 0x59, Begin 5 7, MInsert 16 [CNull], MIgnored 0x4F, MTruncate [16],
     Commit 9 10, Begin 11 7, MInsert 16 [CUnchanged], MTruncate [16]]"

theorem feed_recovers_transactions_witness:
  "\<exists>d. rfold feed (map (enc_message 0 0) example_stream) new_decoder = Inr d \<and>
    fst (take_complete d) = map snd [(5 :: u64, example_tx 9 10 CNull)] \<and>
    has_incomplete d = (Some (example_tx 11 0 CUnchanged) \<noteq> None) \<and>
    dc_current d = Some (example_tx 11 0 CUnchanged) \<and>
    \<not> has_incomplete (discard_incomplete d) \<and>
    fst (take_complete (discard_incomplete d)) = map snd [(5 :: u64, example_tx 9 10 CNull)]"
proof (rule feed_recovers_transactions)
  show "filter (\<lambda>m. \<not> metadata m) example_stream =
    concat (map tx_messages [(5, example_tx 9 10 CNull)]) @ tail_messages (Some (example_tx 11 0 CUnchanged))"
    by (simp add: example_stream_def example_tx_def tx_messages_def tail_messages_def)
  show "\<forall>tx. Some (example_tx 11 0 CUnchanged) = Some tx \<longrightarrow> tx_end_lsn tx = 0"
    by (simp add: example_tx_def)
  show "\<forall>m \<in> set example_stream. ok_message m"
    by (simp add: example_stream_def ok_tuple_def ok_column_def)
  show "list_all2 (\<lambda>bs m. \<exists>ts fl extra. bs = enc_message ts fl m @ extra)
    (map (enc_message 0 0) example_stream) example_stream"
    by (simp add: list_all2_map1 list_all2_same) (metis append_Nil2)
qed

text \<open>
  Type names are never stale: if every resolved name in the relation cache is \<open>format_type\<close> of
  its column's type and modifier, feeding any bytes keeps it so; a column whose type or modifier
  changed loses its name and is resolved again.
\<close>

theorem feed_keeps_names_resolved:
  assumes "feed data d = Inr d'" and "names_resolved ft d"
  shows "names_resolved ft d'"
  using assms by (rule feed_names_resolved)

definition example_relation :: "string option \<Rightarrow> relation" where
  "example_relation ty = \<lparr>rel_id = 16, rel_namespace = ''N'', rel_name = ''t'', rel_replident = 0x64,
     rel_columns = [\<lparr>rc_name = ''t'', rc_is_key = True, rc_typid = 4, rc_typmod = - 1,
                     rc_type_name = ty\<rparr>]\<rparr>"

definition example_decoder :: decoder where
  "example_decoder =
     \<lparr>dc_relations = [16 \<mapsto> example_relation (Some ''integer'')], dc_current = None, dc_complete = []\<rparr>"

theorem feed_keeps_names_resolved_witness:
  "\<exists>d'. feed (0x4F # [1, 2]) example_decoder = Inr d' \<and> names_resolved (\<lambda>_ _. ''integer'') d'"
proof -
  have "feed (0x4F # [1, 2]) example_decoder = Inr example_decoder"
    by code_simp
  moreover have "names_resolved (\<lambda>_ _. ''integer'') example_decoder"
    by (simp add: names_resolved_def columns_resolved_def example_decoder_def example_relation_def)
  ultimately show ?thesis
    using feed_keeps_names_resolved by blast
qed

text \<open>
  A relation message sent again with the same columns keeps every resolved type name.
\<close>

theorem feed_same_relation_keeps_names:
  assumes "dc_relations d (rel_id rel) = Some prev"
    and "map rc_name (rel_columns rel) = map rc_name (rel_columns prev)"
    and "map rc_typid (rel_columns rel) = map rc_typid (rel_columns prev)"
    and "map rc_typmod (rel_columns rel) = map rc_typmod (rel_columns prev)"
  shows "\<exists>d' rel'. feed_message (MRelation rel) d = Inr d' \<and> dc_relations d' (rel_id rel) = Some rel' \<and>
    map rc_type_name (rel_columns rel') = map rc_type_name (rel_columns prev)"
  using assms by (simp add: dc_relation_def keep_type_names_same)

theorem feed_same_relation_keeps_names_witness:
  "\<exists>d' rel'. feed_message (MRelation (example_relation None)) example_decoder = Inr d' \<and>
    dc_relations d' 16 = Some rel' \<and> map rc_type_name (rel_columns rel') = [Some ''integer'']"
  using feed_same_relation_keeps_names
    [of example_decoder "example_relation None" "example_relation (Some ''integer'')"]
  by (simp add: example_decoder_def example_relation_def)

text \<open>
  The errors of \<open>feed\<close> on a decodable message are exactly the three violations of the
  bracketing, and \<open>feed\<close> never fails otherwise: \<open>BEGIN\<close> inside a transaction, \<open>COMMIT\<close> or a row
  change outside one.
\<close>

theorem feed_message_errors:
  "(feed_message m d = Inl e) =
     (e = BeginWhileOpen \<and> has_incomplete d \<and> (\<exists>l x. m = Begin l x) \<or>
      e = CommitWithoutBegin \<and> \<not> has_incomplete d \<and> (\<exists>c l. m = Commit c l) \<or>
      e = ChangeOutsideTransaction \<and> \<not> has_incomplete d \<and> (\<exists>c. m = change_message c))"
proof (cases "\<exists>c. m = change_message c")
  case True
  then obtain c where c: "m = change_message c" by blast
  then have "m \<noteq> Begin l x" and "m \<noteq> Commit l l'" for l x l'
    by (cases c; simp)+
  with True show ?thesis
    by (auto simp: c feed_change_message has_incomplete_def dc_push_def split: option.splits)
next
  case False
  then have "\<not> (\<exists>r n. m = MInsert r n)" "\<not> (\<exists>r old n. m = MUpdate r old n)"
    "\<not> (\<exists>r k old. m = MDelete r k old)" "\<not> (\<exists>rs. m = MTruncate rs)"
    by (metis change_message.simps)+
  with False show ?thesis
    by (cases m) (auto simp: has_incomplete_def split: option.splits)
qed

end
