(* ===== verification/Idle.thy ===== *)
theory Idle
  imports Prelude
begin

text \<open>
  \<open>src/src/idle.rs\<close>: the idle window in shared memory. \<open>None\<close> is a server without
  \<open>shared_preload_libraries\<close> (\<open>INITIALIZED\<close> is false), where nothing is published and the stored
  frontier is taken as it is.
\<close>

record idle_window =
  iw_from :: u64
  iw_to :: u64

type_synonym idle_shmem = "idle_window option"

text \<open>\<open>register\<close>: shared memory is set up only while preloading; it starts zeroed.\<close>

definition register :: "bool \<Rightarrow> idle_shmem" where
  "register preloading = (if preloading then Some \<lparr>iw_from = 0, iw_to = 0\<rparr> else None)"

definition publish :: "u64 \<Rightarrow> u64 \<Rightarrow> idle_shmem \<Rightarrow> idle_shmem" where
  "publish from to shm = (if shm \<noteq> None then Some \<lparr>iw_from = from, iw_to = to\<rparr> else None)"

definition effective_frontier :: "idle_shmem \<Rightarrow> u64 \<Rightarrow> u64" where
  "effective_frontier shm frontier =
     (case shm of
        None \<Rightarrow> frontier
      | Some window \<Rightarrow>
          if iw_from window \<noteq> 0 \<and> iw_from window \<le> frontier \<and> frontier < iw_to window
          then iw_to window else frontier)"

section \<open>Soundness\<close>

text \<open>
  \<open>quiet shm commits\<close>: the worker's claim when it publishes, that no transaction touching a
  published table ends in \<open>(from, to]\<close>.
\<close>

definition quiet :: "idle_shmem \<Rightarrow> u64 set \<Rightarrow> bool" where
  "quiet shm commits \<longleftrightarrow>
     (\<forall>w. shm = Some w \<longrightarrow> iw_from w \<noteq> 0 \<longrightarrow> (\<forall>l \<in> commits. \<not> (iw_from w < l \<and> l \<le> iw_to w)))"

lemma effective_frontier_ge: "frontier \<le> effective_frontier shm frontier"
  by (auto simp: effective_frontier_def split: option.splits)

lemma effective_frontier_mono: "f \<le> g \<Longrightarrow> effective_frontier shm f \<le> effective_frontier shm g"
  by (auto simp: effective_frontier_def split: option.splits)

lemma effective_frontier_sound:
  assumes "quiet shm commits"
  shows "{l \<in> commits. l \<le> effective_frontier shm frontier} = {l \<in> commits. l \<le> frontier}"
proof -
  have "l \<le> frontier" if "l \<in> commits" "l \<le> effective_frontier shm frontier" for l
  proof (cases "effective_frontier shm frontier = frontier")
    case True
    with that show ?thesis by simp
  next
    case False
    then obtain w where w: "shm = Some w" "iw_from w \<noteq> 0" "iw_from w \<le> frontier"
        "effective_frontier shm frontier = iw_to w"
      by (auto simp: effective_frontier_def split: option.splits if_splits)
    with assms that show ?thesis by (force simp: quiet_def)
  qed
  then show ?thesis
    using effective_frontier_ge [of frontier shm] by (auto intro: order_trans)
qed

section \<open>Properties\<close>

text \<open>
  C13. Waiting on the effective frontier is sound: when the published window is quiet, the
  effective frontier covers exactly the same source transactions as the stored frontier, so a
  \<open>wait_for\<close> that returns true never claims a transaction the view has not absorbed. The effective
  frontier never lies below the stored one and is monotone in it.
\<close>

theorem effective_frontier_covers_same_commits:
  assumes "quiet shm commits"
  shows "{l \<in> commits. l \<le> effective_frontier shm frontier} = {l \<in> commits. l \<le> frontier} \<and>
    frontier \<le> effective_frontier shm frontier \<and>
    effective_frontier shm frontier \<le> effective_frontier shm (max frontier g)"
  using assms effective_frontier_sound effective_frontier_ge effective_frontier_mono by auto

theorem effective_frontier_covers_same_commits_witness:
  "{l \<in> {3, 9}. l \<le> effective_frontier (publish 5 8 (register True)) 6} = {l \<in> {3, 9}. l \<le> 6} \<and>
    6 \<le> effective_frontier (publish 5 8 (register True)) 6 \<and>
    effective_frontier (publish 5 8 (register True)) 6 \<le>
      effective_frontier (publish 5 8 (register True)) (max 6 7)"
  by (rule effective_frontier_covers_same_commits) (simp add: quiet_def publish_def register_def)

end
