(* ===== verification/Catalog.thy ===== *)
theory Catalog
  imports Lsn Decoder Apply Idle
begin

text \<open>
  What the extension keeps in the database: the tables of \<open>src/sql/bootstrap.sql\<close>, the storage and
  shadow tables, the replication slot's confirmed position and the notifications sent; the settings
  of \<open>src/src/guc.rs\<close>; and PostgreSQL transactions as the worker uses them. A statement of the code
  on one of these tables is its effect on the record; statements on the extension's own catalog
  do not fail, statements that evaluate user expressions or casts may.
\<close>

section \<open>Settings and the host\<close>

record settings =
  st_poll_interval_ms :: int
  st_retain_deltas :: int
  st_max_slot_lag_bytes :: int
  st_max_apply_failures :: int
  st_batch_changes :: int

definition default_settings :: settings where
  "default_settings = \<lparr>st_poll_interval_ms = 100, st_retain_deltas = 100000,
     st_max_slot_lag_bytes = 2 ^ 30, st_max_apply_failures = 3, st_batch_changes = 5000\<rparr>"

text \<open>The bounds PostgreSQL enforces on the settings.\<close>

definition settings_in_range :: "settings \<Rightarrow> bool" where
  "settings_in_range st \<longleftrightarrow>
     1 \<le> st_poll_interval_ms st \<and> st_poll_interval_ms st \<le> 60000 \<and>
     1 \<le> st_retain_deltas st \<and> st_retain_deltas st < 2 ^ 31 \<and>
     1048576 \<le> st_max_slot_lag_bytes st \<and> st_max_slot_lag_bytes st < 2 ^ 31 \<and>
     1 \<le> st_max_apply_failures st \<and> st_max_apply_failures st \<le> 1000000 \<and>
     1 \<le> st_batch_changes st \<and> st_batch_changes st \<le> 1000000"

text \<open>
  \<open>database()\<close>: the name is given, and more than white space; a name that is not UTF-8 is not
  representable here.
\<close>

definition worker_database :: "string option \<Rightarrow> string option" where
  "worker_database setting =
     (case setting of None \<Rightarrow> None | Some s \<Rightarrow> if trim s \<noteq> '''' then Some s else None)"

text \<open>
  The parameters of the model: PostgreSQL's SQL evaluation, \<open>format_type(typid, typmod)\<close>,
  \<open>serde_json\<close>'s parser and printer, and the settings.
\<close>

record host =
  h_pg :: pg
  h_format_type :: "u32 \<Rightarrow> u32 \<Rightarrow> string option"
  h_parse :: "string \<Rightarrow> json option"
  h_print :: "json \<Rightarrow> string"
  h_settings :: settings

section \<open>Tables\<close>

text \<open>
  A row of \<open>nabla.views\<close>. \<open>vw_spec\<close> is the deserialised \<open>spec\<close>, \<open>None\<close> when it is corrupt.
\<close>

record view_entry =
  vw_id :: int
  vw_name :: string
  vw_definition :: string
  vw_spec :: "view_spec option"
  vw_frontier :: u64
  vw_epoch :: int
  vw_status :: string
  vw_last_seq :: int
  vw_apply_failures :: int
  vw_last_error :: "string option"
  vw_stale_reason :: "string option"
  vw_populated :: bool

record delta_entry =
  de_view :: int
  de_seq :: int
  de_lsn :: u64
  de_xid :: u32
  de_op :: char
  de_row :: string

record shadow_entry =
  se_relid :: u32
  se_table :: string
  se_frontier :: u64
  se_refcount :: int
  se_columns :: "string list"
  se_pk_columns :: "string list"
  se_column_types :: "string list"
  se_join_keys :: "string list"
  se_failed :: bool
  se_stale_reason :: "string option"

text \<open>
  \<open>db_views\<close> is kept in the order of the ids; \<open>db_storage\<close> holds the table \<open>nabla_store.v<id>\<close> and
  \<open>db_shadow_rows\<close> the table \<open>nabla_shadow.t<oid>\<close>, whose physical columns and types are in
  \<open>db_shadow_columns\<close> (\<open>None\<close>: no such table); \<open>db_slot\<close> is the slot's
  \<open>confirmed_flush_lsn\<close>, \<open>None\<close> when there is no slot.
\<close>

record db =
  db_views :: "view_entry list"
  db_deltas :: "delta_entry list"
  db_shadows :: "shadow_entry list"
  db_relations :: "(int \<times> u32) list"
  db_storage :: "int \<rightharpoonup> row list"
  db_shadow_columns :: "u32 \<rightharpoonup> (string \<times> string) list"
  db_shadow_rows :: "u32 \<Rightarrow> row list"
  db_slot :: "u64 option"
  db_notified :: "(string \<times> string) list"

definition storage_name :: "int \<Rightarrow> string" where
  "storage_name view_id = ''nabla_store.v'' @ int_text view_id"

text \<open>A \<open>pg_lsn\<close> read back through its text: \<open>lsn::parse(text).unwrap_or(0)\<close>.\<close>

definition read_lsn :: "u64 \<Rightarrow> u64" where
  "read_lsn l = (case lsn_parse (lsn_format l) of None \<Rightarrow> 0 | Some n \<Rightarrow> n)"

lemma read_lsn [simp]: "read_lsn l = l"
  by (simp add: read_lsn_def lsn_parse_format_eq)

section \<open>Updates\<close>

text \<open>\<open>UPDATE nabla.views SET ... WHERE id = $1\<close> and \<open>UPDATE nabla.shadows SET ... WHERE relid = $1\<close>.\<close>

definition update_view :: "int \<Rightarrow> (view_entry \<Rightarrow> view_entry) \<Rightarrow> db \<Rightarrow> db" where
  "update_view i f d =
     d\<lparr>db_views := map (\<lambda>v. if vw_id v = i then f v else v) (db_views d)\<rparr>"

definition update_shadow :: "u32 \<Rightarrow> (shadow_entry \<Rightarrow> shadow_entry) \<Rightarrow> db \<Rightarrow> db" where
  "update_shadow o1 f d =
     d\<lparr>db_shadows := map (\<lambda>s. if se_relid s = o1 then f s else s) (db_shadows d)\<rparr>"

definition find_id :: "int \<Rightarrow> db \<Rightarrow> view_entry option" where
  "find_id i d = find (\<lambda>v. vw_id v = i) (db_views d)"

definition storage :: "db \<Rightarrow> int \<Rightarrow> row list" where
  "storage d i = (case db_storage d i of None \<Rightarrow> [] | Some rows \<Rightarrow> rows)"

definition deltas_of :: "int \<Rightarrow> db \<Rightarrow> delta_entry list" where
  "deltas_of i d = filter (\<lambda>e. de_view e = i) (db_deltas d)"

definition live :: "view_entry \<Rightarrow> bool" where
  "live v \<longleftrightarrow> vw_status v = ''live''"

named_theorems db_simps "how updates of one table show in another"

lemma update_view_simps [simp, db_simps]:
  "db_deltas (update_view i f d) = db_deltas d"
  "db_shadows (update_view i f d) = db_shadows d"
  "db_relations (update_view i f d) = db_relations d"
  "db_storage (update_view i f d) = db_storage d"
  "db_shadow_columns (update_view i f d) = db_shadow_columns d"
  "db_shadow_rows (update_view i f d) = db_shadow_rows d"
  "db_slot (update_view i f d) = db_slot d"
  "db_notified (update_view i f d) = db_notified d"
  by (simp_all add: update_view_def)

lemma update_shadow_simps [simp, db_simps]:
  "db_views (update_shadow o1 f d) = db_views d"
  "db_deltas (update_shadow o1 f d) = db_deltas d"
  "db_relations (update_shadow o1 f d) = db_relations d"
  "db_storage (update_shadow o1 f d) = db_storage d"
  "db_shadow_columns (update_shadow o1 f d) = db_shadow_columns d"
  "db_shadow_rows (update_shadow o1 f d) = db_shadow_rows d"
  "db_slot (update_shadow o1 f d) = db_slot d"
  "db_notified (update_shadow o1 f d) = db_notified d"
  by (simp_all add: update_shadow_def)

lemma find_id_update_view:
  assumes "\<And>v. vw_id (f v) = vw_id v"
  shows "find_id j (update_view i f d) = (if j = i then map_option f (find_id i d) else find_id j d)"
proof -
  have "find (\<lambda>v. vw_id v = j) (map (\<lambda>v. if vw_id v = i then f v else v) vs) =
    (if j = i then map_option f (find (\<lambda>v. vw_id v = i) vs) else find (\<lambda>v. vw_id v = j) vs)" for vs
    using assms by (induction vs) auto
  then show ?thesis by (simp add: find_id_def update_view_def)
qed

lemma ids_update_view:
  assumes "\<And>v. vw_id (f v) = vw_id v"
  shows "map vw_id (db_views (update_view i f d)) = map vw_id (db_views d)"
  using assms by (simp add: update_view_def)

section \<open>Transactions\<close>

text \<open>
  A body runs on the database and either raises (a PostgreSQL error or a panic, \<open>Inl\<close>) or returns
  a value and the changed database. \<open>try_transaction\<close> commits whatever the body returns, an \<open>Err\<close>
  value included, and aborts when it raises.
\<close>

type_synonym 'a body = "db \<Rightarrow> string + 'a \<times> db"

definition try_transaction :: "'a body \<Rightarrow> db \<Rightarrow> (string + 'a) \<times> db" where
  "try_transaction body d =
     (case body d of
        Inl message \<Rightarrow> (Inl message, d)
      | Inr (x, d') \<Rightarrow> (Inr x, d'))"

text \<open>The calls \<open>try_transaction(...)??\<close>: both kinds of error end the caller.\<close>

definition try_flat :: "(string + 'a) body \<Rightarrow> db \<Rightarrow> (string + 'a) \<times> db" where
  "try_flat body d =
     (case try_transaction body d of
        (Inl message, d') \<Rightarrow> (Inl message, d')
      | (Inr r, d') \<Rightarrow> (r, d'))"

lemma try_flat_simps:
  "body d = Inl m \<Longrightarrow> try_flat body d = (Inl m, d)"
  "body d = Inr (r, d') \<Longrightarrow> try_flat body d = (r, d')"
  by (simp_all add: try_flat_def try_transaction_def)

end
