(* ===== verification/Shadow_Rows.thy ===== *)
theory Shadow_Rows
  imports Catalog
begin

text \<open>
  The shadow tables as the worker maintains them (\<open>src/src/worker.rs\<close>, section "shadows"): reading
  the old row of a change by primary key, applying a change, and the reaction to schema drift. A
  shadow table is the list of its rows.
\<close>

section \<open>State\<close>

record shadow =
  sh_relid :: u32
  sh_table :: string
  sh_frontier :: u64
  sh_failed :: bool
  sh_columns :: "string list"
  sh_column_types :: "string list"
  sh_pk_columns :: "string list"
  sh_advanced :: bool

definition load_shadow :: "shadow_entry \<Rightarrow> shadow" where
  "load_shadow e =
     \<lparr>sh_relid = se_relid e, sh_table = se_table e, sh_frontier = read_lsn (se_frontier e),
      sh_failed = se_failed e, sh_columns = se_columns e, sh_column_types = se_column_types e,
      sh_pk_columns = se_pk_columns e, sh_advanced = False\<rparr>"

definition load_shadows :: "db \<Rightarrow> u32 \<rightharpoonup> shadow" where
  "load_shadows d = map_of (map (\<lambda>e. (se_relid e, load_shadow e)) (db_shadows d))"

section \<open>Relations of changes\<close>

text \<open>
  \<open>resolve_types\<close>: every column without a type name gets PostgreSQL's \<open>format_type\<close>.
\<close>

definition resolve_column_type :: "host \<Rightarrow> relation_column \<Rightarrow> string + relation_column" where
  "resolve_column_type h c =
     (case rc_type_name c of
        Some ty \<Rightarrow> Inr c
      | None \<Rightarrow>
          rbind (ok_or (''unknown type oid '' @ int_text (uint (rc_typid c)))
                   (h_format_type h (rc_typid c) (rc_typmod c)))
            (\<lambda>name. Inr (c\<lparr>rc_type_name := Some name\<rparr>)))"

definition resolve_types :: "host \<Rightarrow> relation \<Rightarrow> string + relation" where
  "resolve_types h rel =
     rbind (rmap (resolve_column_type h) (rel_columns rel)) (\<lambda>cs. Inr (rel\<lparr>rel_columns := cs\<rparr>))"

fun change_relids :: "change \<Rightarrow> u32 list" where
  "change_relids (ChInsert relid new) = [relid]"
| "change_relids (ChUpdate relid old new) = [relid]"
| "change_relids (ChDelete relid kind old) = [relid]"
| "change_relids (ChTruncate relids) = relids"

section \<open>Keys\<close>

text \<open>\<open>t.get(idx)\<close> when it is a text.\<close>

definition text_at :: "tuple option \<Rightarrow> nat \<Rightarrow> string option" where
  "text_at t idx =
     (case Option.bind t (\<lambda>t. nth_opt t idx) of Some (CText s) \<Rightarrow> Some s | _ \<Rightarrow> None)"

definition key_value :: "relation \<Rightarrow> tuple option \<Rightarrow> tuple option \<Rightarrow> string \<Rightarrow> string + nat \<times> string" where
  "key_value rel old new pk =
     rbind (ok_or (''primary key column '' @ pk @ '' is missing from the decoded row'')
              (rel_column_index rel pk)) (\<lambda>idx.
     rbind (ok_or (''primary key column '' @ pk @ '' has no value in the decoded row'')
              (case text_at old idx of Some s \<Rightarrow> Some s | None \<Rightarrow> text_at new idx)) (\<lambda>v.
     Inr (idx, v)))"

definition key_values :: "string list \<Rightarrow> relation \<Rightarrow> tuple option \<Rightarrow> tuple option \<Rightarrow>
    string + (nat \<times> string) list" where
  "key_values pk_columns rel old new =
     (if pk_columns = [] then Inl ''no primary key columns recorded for the shadow''
      else rmap (key_value rel old new) pk_columns)"

text \<open>
  \<open>key_predicate\<close>: \<open>column = $n::type AND ...\<close> with its values, as columns, types and values.
\<close>

definition key_predicate :: "relation \<Rightarrow> (nat \<times> string) list \<Rightarrow>
    string + (string \<times> string) list \<times> string option list" where
  "key_predicate rel keys =
     rbind (rmap (\<lambda>(idx, v). rbind (ok_or ''type not resolved'' (rc_type_name (rel_columns rel ! idx)))
              (\<lambda>ty. Inr ((rc_name (rel_columns rel ! idx), ty), Some v))) keys) (\<lambda>cvs.
     if cvs = [] then Inl ''empty key predicate'' else Inr (map fst cvs, map snd cvs))"

text \<open>The predicate as PostgreSQL evaluates it on a row.\<close>

definition key_test :: "(string \<times> datum) list \<Rightarrow> row \<Rightarrow> bool" where
  "key_test ks r \<longleftrightarrow> (\<forall>(c, d) \<in> set ks. sql_eq (col r c) d)"

definition row_keys :: "host \<Rightarrow> shadow \<Rightarrow> relation \<Rightarrow> tuple option \<Rightarrow> tuple option \<Rightarrow>
    string + (string \<times> datum) list" where
  "row_keys h sh rel old new =
     rbind (key_values (sh_pk_columns sh) rel old new) (\<lambda>keys.
     rbind (key_predicate rel keys) (\<lambda>(conds, vals).
     key_datums (h_pg h) conds vals))"

section \<open>Reading the old row\<close>

definition shadow_column_indexes :: "shadow \<Rightarrow> relation \<Rightarrow> nat list" where
  "shadow_column_indexes sh rel = List.map_filter (rel_column_index rel) (sh_columns sh)"

text \<open>A column read as \<open>column::text\<close>.\<close>

definition text_value :: "pg \<Rightarrow> datum \<Rightarrow> column_value" where
  "text_value pg d = (if d = Null then CNull else CText (pg_text pg d))"

definition row_tuple :: "pg \<Rightarrow> relation \<Rightarrow> nat list \<Rightarrow> row \<Rightarrow> tuple" where
  "row_tuple pg rel indexes r =
     fold (\<lambda>idx t. t[idx := text_value pg (col r (rc_name (rel_columns rel ! idx)))]) indexes
       (replicate (length (rel_columns rel)) CNull)"

definition shadow_old_row :: "host \<Rightarrow> shadow \<Rightarrow> relation \<Rightarrow> tuple option \<Rightarrow> tuple option \<Rightarrow> row list \<Rightarrow>
    string + tuple" where
  "shadow_old_row h sh rel old new rows =
     rbind (row_keys h sh rel old new) (\<lambda>ks.
     case find (key_test ks) rows of
       Some r \<Rightarrow> Inr (row_tuple (h_pg h) rel (shadow_column_indexes sh rel) r)
     | None \<Rightarrow> Inl (''row not found in shadow '' @ sh_table sh @
                     '' (shadow out of sync with the base table)''))"

section \<open>Applying a change\<close>

definition shadow_delete :: "host \<Rightarrow> shadow \<Rightarrow> relation \<Rightarrow> tuple option \<Rightarrow> tuple option \<Rightarrow> row list \<Rightarrow>
    string + row list" where
  "shadow_delete h sh rel old new rows =
     rbind (row_keys h sh rel old new) (\<lambda>ks. Inr (filter (\<lambda>r. \<not> key_test ks r) rows))"

text \<open>
  The INSERT: the active columns of the decoded row, cast to their types. A tuple shorter than the
  relation panics (an error of the subtransaction), and so does a key that is already there,
  through the shadow's unique index.
\<close>

definition shadow_value :: "host \<Rightarrow> relation \<Rightarrow> tuple \<Rightarrow> nat \<Rightarrow> string + string \<times> datum" where
  "shadow_value h rel t idx =
     rbind (ok_or ''type not resolved'' (rc_type_name (rel_columns rel ! idx))) (\<lambda>ty.
     rbind (ok_or ''index out of bounds'' (nth_opt t idx)) (\<lambda>v.
     rbind (case v of CText s \<Rightarrow> pg_cast (h_pg h) ty s | _ \<Rightarrow> Inr Null) (\<lambda>d.
     Inr (rc_name (rel_columns rel ! idx), d))))"

definition same_key :: "string list \<Rightarrow> row \<Rightarrow> row \<Rightarrow> bool" where
  "same_key pk r s \<longleftrightarrow> (\<forall>c \<in> set pk. sql_eq (col r c) (col s c))"

definition shadow_insert :: "host \<Rightarrow> shadow \<Rightarrow> relation \<Rightarrow> tuple \<Rightarrow> row list \<Rightarrow> string + row list" where
  "shadow_insert h sh rel t rows =
     (let indexes = shadow_column_indexes sh rel in
      if indexes = [] then Inl ''the shadow has no active column present in the decoded row''
      else rbind (rmap (shadow_value h rel t) indexes) (\<lambda>r.
        if \<exists>s \<in> set rows. same_key (sh_pk_columns sh) s r
        then Inl ''duplicate key value violates unique constraint''
        else Inr (rows @ [r])))"

fun shadow_apply :: "host \<Rightarrow> shadow \<Rightarrow> relation \<Rightarrow> change \<Rightarrow> tuple option \<Rightarrow> tuple option \<Rightarrow> row list \<Rightarrow>
    string + row list" where
  "shadow_apply h sh rel (ChInsert relid new) old_full new_full rows =
     rbind (ok_or ''missing new row'' new_full) (\<lambda>t. shadow_insert h sh rel t rows)"
| "shadow_apply h sh rel (ChDelete relid kind old) old_full new_full rows =
     shadow_delete h sh rel (Some old) None rows"
| "shadow_apply h sh rel (ChUpdate relid old new) old_full new_full rows =
     rbind (shadow_delete h sh rel
              (case old_full of Some t \<Rightarrow> Some t | None \<Rightarrow> map_option snd old) (Some new) rows) (\<lambda>rows'.
     rbind (ok_or ''missing new row'' new_full) (\<lambda>t. shadow_insert h sh rel t rows'))"
| "shadow_apply h sh rel (ChTruncate relids) old_full new_full rows = Inr rows"

section \<open>Failure and drift\<close>

definition record_shadow_failure :: "shadow \<Rightarrow> string \<Rightarrow> db \<Rightarrow> shadow \<times> db" where
  "record_shadow_failure sh message d =
     (sh\<lparr>sh_failed := True\<rparr>,
      update_shadow (sh_relid sh)
        (\<lambda>e. e\<lparr>se_stale_reason := Some (''shadow '' @ sh_table sh @ '' could not be maintained: '' @ message),
              se_failed := True\<rparr>) d)"

text \<open>The decoded relation still has column \<open>name\<close> with type \<open>ty\<close>.\<close>

definition provides :: "relation \<Rightarrow> string \<times> string \<Rightarrow> bool" where
  "provides rel nt \<longleftrightarrow>
     (\<exists>c \<in> set (rel_columns rel). rc_name c = fst nt \<and> rc_type_name c = Some (snd nt))"

definition drift_reason :: "string \<Rightarrow> string \<Rightarrow> string" where
  "drift_reason name qualified =
     ''column '' @ quoted name @ '' of '' @ qualified @ '' was dropped, renamed or changed type''"

definition drifted :: "shadow \<Rightarrow> relation \<Rightarrow> string list" where
  "drifted sh rel =
     map fst (filter (\<lambda>nt. \<not> provides rel nt) (zip (sh_columns sh) (sh_column_types sh)))"

definition shadow_drift :: "shadow \<Rightarrow> relation \<Rightarrow> string \<Rightarrow> db \<Rightarrow> shadow \<times> db" where
  "shadow_drift sh rel qualified d =
     (let gone = drifted sh rel;
          reason = join_text ''; '' (map (\<lambda>c. drift_reason c qualified) gone);
          keep = filter (\<lambda>nt. fst nt \<notin> set gone) (zip (sh_columns sh) (sh_column_types sh)) in
      if gone = [] then (sh, d)
      else if \<exists>c \<in> set gone. c \<in> set (sh_pk_columns sh) then record_shadow_failure sh reason d
      else (sh\<lparr>sh_columns := map fst keep, sh_column_types := map snd keep\<rparr>,
            update_shadow (sh_relid sh)
              (\<lambda>e. e\<lparr>se_columns := map fst keep, se_column_types := map snd keep,
                    se_stale_reason := Some reason\<rparr>) d))"

end
