(* ===== verification/Live_View.thy ===== *)
theory Live_View
  imports Shadow_Rows
begin

text \<open>
  A live view as one round of the worker holds it (\<open>LiveView\<close> of \<open>src/src/worker.rs\<close>), and the
  planning of one change for one view (\<open>plan_change\<close>). The vectors \<open>pending\<close> and \<open>absorbed\<close> of
  \<open>apply_round\<close>, which run parallel to the views, are the fields \<open>lv_pending\<close> and \<open>lv_absorbed\<close>.
\<close>

section \<open>State\<close>

record pending_delta =
  pd_seq :: int
  pd_lsn :: u64
  pd_xid :: u32
  pd_op :: char
  pd_row_json :: string

record live_view =
  lv_id :: int
  lv_name :: string
  lv_spec :: view_spec
  lv_frontier :: u64
  lv_last_seq :: int
  lv_apply_failures :: int
  lv_definition :: string
  lv_touched :: bool
  lv_ops :: "op list"
  lv_failed :: "string option"
  lv_stale :: "string option"
  lv_dead :: bool
  lv_failed_this_round :: bool
  lv_pending :: "pending_delta list"
  lv_absorbed :: "u64 option"

text \<open>\<open>load_live_views\<close>: views with a corrupt spec are skipped.\<close>

definition load_live_view :: "view_entry \<Rightarrow> live_view option" where
  "load_live_view e = map_option (\<lambda>spec.
     \<lparr>lv_id = vw_id e, lv_name = vw_name e, lv_spec = spec, lv_frontier = read_lsn (vw_frontier e),
      lv_last_seq = vw_last_seq e, lv_apply_failures = vw_apply_failures e,
      lv_definition = vw_definition e, lv_touched = False, lv_ops = [], lv_failed = None,
      lv_stale = None, lv_dead = False, lv_failed_this_round = False, lv_pending = [],
      lv_absorbed = None\<rparr>) (vw_spec e)"

definition load_live_views :: "db \<Rightarrow> live_view list" where
  "load_live_views d = List.map_filter load_live_view (filter live (db_views d))"

section \<open>Questions a view answers\<close>

definition relation_index :: "live_view \<Rightarrow> u32 \<Rightarrow> nat option" where
  "relation_index view relid = position (\<lambda>b. br_oid b = relid) (sp_relations (lv_spec view))"

definition same_column :: "relation \<Rightarrow> tuple \<Rightarrow> tuple \<Rightarrow> string \<Rightarrow> bool" where
  "same_column rel old new name =
     (case rel_column_index rel name of
        None \<Rightarrow> False
      | Some i \<Rightarrow>
          (case (nth_opt old i, nth_opt new i) of
             (_, Some CUnchanged) \<Rightarrow> True
           | (Some a, Some b) \<Rightarrow> a = b
           | _ \<Rightarrow> False))"

definition touches_used_columns :: "live_view \<Rightarrow> u32 \<Rightarrow> relation \<Rightarrow> tuple option \<Rightarrow> tuple \<Rightarrow> bool" where
  "touches_used_columns view relid rel old new =
     (case relation_index view relid of
        None \<Rightarrow> True
      | Some index \<Rightarrow>
          (case old of
             None \<Rightarrow> True
           | Some o1 \<Rightarrow>
               \<not> (\<forall>name \<in> set (br_used_columns (sp_relations (lv_spec view) ! index)).
                    same_column rel o1 new name)))"

definition active_for :: "live_view \<Rightarrow> u32 \<Rightarrow> u64 \<Rightarrow> bool" where
  "active_for view relid end_lsn \<longleftrightarrow>
     lv_failed view = None \<and> lv_stale view = None \<and> end_lsn > lv_frontier view \<and>
     relation_index view relid \<noteq> None"

definition drift :: "live_view \<Rightarrow> u32 \<Rightarrow> relation \<Rightarrow> string option" where
  "drift view relid rel =
     Option.bind (relation_index view relid) (\<lambda>index.
       let base = sp_relations (lv_spec view) ! index in
       map_option (\<lambda>nt. drift_reason (fst nt) (br_qualified base))
         (find (\<lambda>nt. \<not> provides rel nt) (zip (br_used_columns base) (br_used_column_types base))))"

text \<open>\<open>str::to_lowercase\<close> on ASCII; a byte outside ASCII is kept.\<close>

definition lower_char :: "char \<Rightarrow> char" where
  "lower_char c = (let n = of_char c :: nat in if 65 \<le> n \<and> n \<le> 90 then char_of (n + 32) else c)"

definition to_lowercase :: "string \<Rightarrow> string" where
  "to_lowercase s = map lower_char s"

text \<open>\<open>str::contains\<close>.\<close>

fun contains :: "string \<Rightarrow> string \<Rightarrow> bool" where
  "contains [] t \<longleftrightarrow> t = []"
| "contains (c # s) t \<longleftrightarrow> take (length t) (c # s) = t \<or> contains s t"

definition mentions :: "live_view \<Rightarrow> string \<Rightarrow> bool" where
  "mentions view c = contains (to_lowercase (lv_definition view)) (to_lowercase c)"

section \<open>Planning one change\<close>

text \<open>
  \<open>resolve_unchanged\<close> in planning position: a reason is \<open>Planned::Stale\<close>, a panic is an error of the
  subtransaction.
\<close>

definition with_resolved :: "resolve_error + tuple \<Rightarrow> (tuple \<Rightarrow> string + planned) \<Rightarrow> string + planned" where
  "with_resolved r k =
     (case r of
        Inl (StaleReason s) \<Rightarrow> Inr (PlannedStale s)
      | Inl IndexPanic \<Rightarrow> Inl ''index out of bounds''
      | Inr t \<Rightarrow> k t)"

definition truncate_reason :: string where
  "truncate_reason = ''base table was truncated; TRUNCATE is not maintained incrementally''"

definition ahead_reason :: "relation \<Rightarrow> string" where
  "ahead_reason rel = ''old row of '' @ rel_name rel @
     '' unavailable (its shadow is ahead of the view)''"

definition plan_change_join :: "host \<Rightarrow> (u32 \<Rightarrow> row list) \<Rightarrow> live_view \<Rightarrow> relation \<Rightarrow> change \<Rightarrow>
    tuple option \<Rightarrow> string + planned" where
  "plan_change_join h shadows view rel ch old_full =
     rbind (ok_or ''view does not use this relation'' (relation_index view (rel_id rel))) (\<lambda>index.
     let plan = plan_join (h_pg h) shadows (lv_spec view) index rel in
     case ch of
       ChInsert relid new \<Rightarrow>
         with_resolved (resolve_unchanged rel new None (mentions view)) (\<lambda>new.
         rbind (plan new 1) (\<lambda>ops. Inr (Ops ops)))
     | ChDelete relid kind old \<Rightarrow>
         (case old_full of
            None \<Rightarrow> Inr (PlannedStale (ahead_reason rel))
          | Some old \<Rightarrow> rbind (plan old (- 1)) (\<lambda>ops. Inr (Ops ops)))
     | ChUpdate relid old' new \<Rightarrow>
         (case old_full of
            None \<Rightarrow> Inr (PlannedStale (ahead_reason rel))
          | Some old \<Rightarrow>
              if \<not> touches_used_columns view (rel_id rel) rel (Some old) new then Inr (Ops [])
              else rbind (plan old (- 1)) (\<lambda>dels.
                with_resolved (resolve_unchanged rel new (Some old) (mentions view)) (\<lambda>new.
                rbind (plan new 1) (\<lambda>ins. Inr (Ops (dels @ ins))))))
     | ChTruncate relids \<Rightarrow> Inr (PlannedStale truncate_reason))"

definition plan_change_single :: "host \<Rightarrow> live_view \<Rightarrow> relation \<Rightarrow> change \<Rightarrow> string + planned" where
  "plan_change_single h view rel ch =
     (case ch of
        ChInsert relid new \<Rightarrow>
          with_resolved (resolve_unchanged rel new None (mentions view)) (\<lambda>new.
          rbind (plan_single_insert (h_pg h) (lv_spec view) rel new) (\<lambda>ops. Inr (Ops ops)))
      | ChDelete relid kind old \<Rightarrow> plan_single_delete (h_pg h) (lv_spec view) rel kind old
      | ChUpdate relid old new \<Rightarrow>
          (if case old of
                None \<Rightarrow> False
              | Some (kind, full) \<Rightarrow>
                  kind = 0x4F \<and> \<not> touches_used_columns view (rel_id rel) rel (Some full) new
           then Inr (Ops [])
           else
             (let (kind, old_tuple) = (case old of None \<Rightarrow> (0x4B, new) | Some kt \<Rightarrow> kt) in
              rbind (plan_single_delete (h_pg h) (lv_spec view) rel kind old_tuple) (\<lambda>planned.
              case planned of
                PlannedStale s \<Rightarrow> Inr (PlannedStale s)
              | Ops dels \<Rightarrow>
                  with_resolved (resolve_unchanged rel new (map_option snd old) (mentions view)) (\<lambda>new.
                  rbind (plan_single_insert (h_pg h) (lv_spec view) rel new) (\<lambda>ins.
                  Inr (Ops (dels @ ins)))))))
      | ChTruncate relids \<Rightarrow> Inr (PlannedStale truncate_reason))"

definition plan_change :: "host \<Rightarrow> (u32 \<Rightarrow> row list) \<Rightarrow> live_view \<Rightarrow> relation \<Rightarrow> change \<Rightarrow>
    tuple option \<Rightarrow> string + planned" where
  "plan_change h shadows view rel ch old_full =
     (if is_join (lv_spec view) then plan_change_join h shadows view rel ch old_full
      else plan_change_single h view rel ch)"

end
