(* ===== verification/Round.thy ===== *)
theory Round
  imports Live_View
begin

text \<open>
  \<open>apply_round\<close> of \<open>src/src/worker.rs\<close>: every complete source transaction of one peek, applied in
  one transaction of the worker. The round state holds the database as the transaction sees it, the
  live views, the shadows and the failure position. A subtransaction that fails leaves its part of
  the state as it was. \<open>HashMap\<close> iteration, whose order Rust leaves open, follows the order of first
  appearance.
\<close>

section \<open>State\<close>

record round =
  rn_db :: db
  rn_views :: "live_view list"
  rn_shadows :: "u32 \<rightharpoonup> shadow"
  rn_blocked :: "nat option"

record round_stats =
  rs_deltas :: nat
  rs_processed :: nat
  rs_blocked_at :: "nat option"

type_synonym relations = "(u32 \<times> relation) list"

section \<open>Collecting relations\<close>

definition collect_relation :: "host \<Rightarrow> u32 \<Rightarrow> relations \<times> decoder \<Rightarrow> string + relations \<times> decoder" where
  "collect_relation h relid st = (case st of (rels, dec) \<Rightarrow>
     if map_of rels relid \<noteq> None then Inr (rels, dec)
     else
       rbind (ok_or (''change for unknown relation '' @ int_text (uint relid)) (dc_relations dec relid)) (\<lambda>rel.
       rbind (resolve_types h rel) (\<lambda>rel.
       Inr (rels @ [(relid, rel)], dec\<lparr>dc_relations := (dc_relations dec)(relid \<mapsto> rel)\<rparr>))))"

definition collect_relations :: "host \<Rightarrow> decoder \<Rightarrow> source_transaction list \<Rightarrow>
    string + relations \<times> decoder" where
  "collect_relations h dec txs =
     rfold (collect_relation h) (concat (map change_relids (concat (map tx_changes txs)))) ([], dec)"

section \<open>Schema drift\<close>

definition qualified_name :: "live_view list \<Rightarrow> u32 \<Rightarrow> relation \<Rightarrow> string" where
  "qualified_name views relid rel =
     (case List.map_filter (\<lambda>v. find (\<lambda>b. br_oid b = relid) (sp_relations (lv_spec v))) views of
        b # _ \<Rightarrow> br_qualified b
      | [] \<Rightarrow> rel_namespace rel @ ''.'' @ rel_name rel)"

definition view_drift :: "u64 \<Rightarrow> u32 \<Rightarrow> relation \<Rightarrow> live_view \<Rightarrow> live_view" where
  "view_drift round_end relid rel view =
     (if lv_stale view = None \<and> round_end > lv_frontier view then
        (case drift view relid rel of
           None \<Rightarrow> view
         | Some reason \<Rightarrow> view\<lparr>lv_stale := Some reason\<rparr>)
      else view)"

definition drift_relation :: "u64 \<Rightarrow> u32 \<times> relation \<Rightarrow> round \<Rightarrow> round" where
  "drift_relation round_end rr rn = (case rr of (relid, rel) \<Rightarrow>
     let rn = (case rn_shadows rn relid of
                 None \<Rightarrow> rn
               | Some sh \<Rightarrow>
                   if \<not> sh_failed sh \<and> round_end > sh_frontier sh then
                     (case shadow_drift sh rel (qualified_name (rn_views rn) relid rel) (rn_db rn) of
                        (sh', d') \<Rightarrow> rn\<lparr>rn_shadows := (rn_shadows rn)(relid \<mapsto> sh'), rn_db := d'\<rparr>)
                   else rn)
     in rn\<lparr>rn_views := map (view_drift round_end relid rel) (rn_views rn)\<rparr>)"

section \<open>Phase 1: one change\<close>

definition shadow_active :: "(u32 \<rightharpoonup> shadow) \<Rightarrow> u32 \<Rightarrow> u64 \<Rightarrow> bool" where
  "shadow_active shadows relid end_lsn =
     (case shadows relid of
        None \<Rightarrow> False
      | Some sh \<Rightarrow> \<not> sh_failed sh \<and> end_lsn > sh_frontier sh)"

text \<open>
  The old row from the shadow: \<open>None\<close> when it is not asked for, \<open>Some (Inl e)\<close> when reading failed.
\<close>

definition old_row :: "host \<Rightarrow> round \<Rightarrow> u64 \<Rightarrow> relation \<Rightarrow> change \<Rightarrow> u32 \<Rightarrow> (string + tuple) option" where
  "old_row h rn end_lsn rel ch relid =
     (if shadow_active (rn_shadows rn) relid end_lsn then
        (case (ch, rn_shadows rn relid) of
           (ChUpdate i old new, Some sh) \<Rightarrow>
             Some (shadow_old_row h sh rel (map_option snd old) (Some new) (db_shadow_rows (rn_db rn) relid))
         | (ChDelete i kind old, Some sh) \<Rightarrow>
             Some (shadow_old_row h sh rel (Some old) None (db_shadow_rows (rn_db rn) relid))
         | _ \<Rightarrow> None)
      else None)"

fun old_full :: "(string + tuple) option \<Rightarrow> tuple option" where
  "old_full (Some (Inr t)) = Some t"
| "old_full _ = None"

fun shadow_error :: "(string + tuple) option \<Rightarrow> string option" where
  "shadow_error (Some (Inl e)) = Some e"
| "shadow_error _ = None"

definition plan_view :: "host \<Rightarrow> (u32 \<Rightarrow> row list) \<Rightarrow> u64 \<Rightarrow> relation \<Rightarrow> change \<Rightarrow> u32 \<Rightarrow>
    (string + tuple) option \<Rightarrow> live_view \<Rightarrow> live_view" where
  "plan_view h shadow_rows end_lsn rel ch relid old view =
     (if lv_dead view \<or> \<not> active_for view relid end_lsn then view
      else case (shadow_error old, is_join (lv_spec view)) of
        (Some e, True) \<Rightarrow>
          view\<lparr>lv_stale := Some (''shadow of '' @ rel_name rel @ '' could not provide the old row: '' @ e)\<rparr>
      | _ \<Rightarrow>
          (case plan_change h shadow_rows view rel ch (old_full old) of
             Inr (Ops ops) \<Rightarrow> view\<lparr>lv_ops := lv_ops view @ ops\<rparr>
           | Inr (PlannedStale s) \<Rightarrow> view\<lparr>lv_stale := Some s\<rparr>
           | Inl message \<Rightarrow> view\<lparr>lv_failed := Some message\<rparr>))"

text \<open>The new row for the shadow, with unchanged TOAST values taken from the shadow's old row.\<close>

definition new_full :: "relation \<Rightarrow> change \<Rightarrow> tuple option \<Rightarrow> string + tuple option" where
  "new_full rel ch old =
     (case ch of
        ChInsert relid new \<Rightarrow> Inr (Some new)
      | ChUpdate relid old' new \<Rightarrow>
          (case resolve_unchanged rel new old (\<lambda>_. True) of
             Inl (StaleReason s) \<Rightarrow> Inr None
           | Inl IndexPanic \<Rightarrow> Inl ''index out of bounds''
           | Inr t \<Rightarrow> Inr (Some t))
      | _ \<Rightarrow> Inr None)"

fun is_update :: "change \<Rightarrow> bool" where
  "is_update (ChUpdate relid old new) \<longleftrightarrow> True"
| "is_update _ \<longleftrightarrow> False"

definition shadow_failure_for_view :: "u32 \<Rightarrow> relation \<Rightarrow> string \<Rightarrow> live_view \<Rightarrow> live_view" where
  "shadow_failure_for_view relid rel message view =
     (if is_join (lv_spec view) \<and> relation_index view relid \<noteq> None \<and> lv_stale view = None \<and> \<not> lv_dead view
      then view\<lparr>lv_stale := Some (''shadow of '' @ rel_name rel @ '' could not be maintained: '' @ message)\<rparr>
      else view)"

definition shadow_outcome :: "host \<Rightarrow> shadow \<Rightarrow> relation \<Rightarrow> change \<Rightarrow> (string + tuple) option \<Rightarrow>
    tuple option \<Rightarrow> row list \<Rightarrow> string + row list" where
  "shadow_outcome h sh rel ch old new rows =
     (case shadow_error old of
        Some e \<Rightarrow> Inl e
      | None \<Rightarrow>
          if is_update ch \<and> new = None
          then Inl ''unchanged TOAST value could not be recovered from the shadow''
          else shadow_apply h sh rel ch (old_full old) new rows)"

definition maintain_shadow :: "host \<Rightarrow> shadow \<Rightarrow> relation \<Rightarrow> change \<Rightarrow> u32 \<Rightarrow> (string + tuple) option \<Rightarrow>
    tuple option \<Rightarrow> round \<Rightarrow> round" where
  "maintain_shadow h sh rel ch relid old new rn =
     (case shadow_outcome h sh rel ch old new (db_shadow_rows (rn_db rn) relid) of
        Inr rows \<Rightarrow>
          rn\<lparr>rn_db := (rn_db rn)\<lparr>db_shadow_rows := (db_shadow_rows (rn_db rn))(relid := rows)\<rparr>\<rparr>
      | Inl message \<Rightarrow>
          (case record_shadow_failure sh message (rn_db rn) of
             (sh', d') \<Rightarrow>
               rn\<lparr>rn_shadows := (rn_shadows rn)(relid \<mapsto> sh'), rn_db := d',
                  rn_views := map (shadow_failure_for_view relid rel message) (rn_views rn)\<rparr>))"

definition plan_relid :: "host \<Rightarrow> relations \<Rightarrow> u64 \<Rightarrow> change \<Rightarrow> u32 \<Rightarrow> round \<Rightarrow> string + round" where
  "plan_relid h rels end_lsn ch relid rn =
     rbind (ok_or ''no entry found for key'' (map_of rels relid)) (\<lambda>rel.
     let old = old_row h rn end_lsn rel ch relid;
         rn' = rn\<lparr>rn_views :=
                 map (plan_view h (db_shadow_rows (rn_db rn)) end_lsn rel ch relid old) (rn_views rn)\<rparr> in
     case rn_shadows rn relid of
       None \<Rightarrow> Inr rn'
     | Some sh \<Rightarrow>
         if shadow_active (rn_shadows rn) relid end_lsn then
           rbind (new_full rel ch (old_full old)) (\<lambda>new. Inr (maintain_shadow h sh rel ch relid old new rn'))
         else Inr rn')"

definition plan_tx :: "host \<Rightarrow> relations \<Rightarrow> source_transaction \<Rightarrow> round \<Rightarrow> string + round" where
  "plan_tx h rels tx =
     rfold (\<lambda>ch. rfold (plan_relid h rels (tx_end_lsn tx) ch) (change_relids ch)) (tx_changes tx)"

section \<open>Phase 2: one view\<close>

definition mark_stale :: "live_view \<Rightarrow> string \<Rightarrow> db \<Rightarrow> db" where
  "mark_stale view reason =
     update_view (lv_id view) (\<lambda>e. e\<lparr>vw_status := ''stale'', vw_stale_reason := Some reason\<rparr>)"

text \<open>\<open>record_failure\<close>: the third component says that the view is still live.\<close>

definition record_failure :: "host \<Rightarrow> live_view \<Rightarrow> string \<Rightarrow> db \<Rightarrow> live_view \<times> db \<times> bool" where
  "record_failure h view message d =
     (let failures = lv_apply_failures view + 1;
          view = view\<lparr>lv_apply_failures := failures\<rparr>;
          reason = ''apply failed '' @ int_text failures @ '' times: '' @ message in
      if failures \<ge> max (st_max_apply_failures (h_settings h)) 1
      then (view\<lparr>lv_stale := Some reason\<rparr>,
            update_view (lv_id view)
              (\<lambda>e. e\<lparr>vw_status := ''stale'', vw_stale_reason := Some reason,
                    vw_apply_failures := failures, vw_last_error := Some message\<rparr>) d,
            False)
      else (view,
            update_view (lv_id view)
              (\<lambda>e. e\<lparr>vw_apply_failures := failures, vw_last_error := Some message\<rparr>) d,
            True))"

text \<open>A failure in phase 2: recorded, and the view is out for the rest of the round.\<close>

definition fail_view :: "host \<Rightarrow> nat \<Rightarrow> live_view \<Rightarrow> string \<Rightarrow> db \<times> nat option \<Rightarrow>
    live_view \<times> db \<times> nat option" where
  "fail_view h ti view message st = (case st of (d, blocked) \<Rightarrow>
     case record_failure h view message d of (view, d, still_live) \<Rightarrow>
       (view\<lparr>lv_failed_this_round := True, lv_dead := True\<rparr>, d,
        if still_live \<and> blocked = None then Some ti else blocked))"

definition number_deltas :: "source_transaction \<Rightarrow> int \<Rightarrow> delta list \<Rightarrow> pending_delta list" where
  "number_deltas tx last_seq ds =
     map (\<lambda>(i, d). \<lparr>pd_seq = last_seq + 1 + int i, pd_lsn = tx_end_lsn tx, pd_xid = tx_xid tx,
                    pd_op = d_op d, pd_row_json = d_row_json d\<rparr>) (enumerate 0 ds)"

definition absorb :: "source_transaction \<Rightarrow> delta list \<Rightarrow> live_view \<Rightarrow> live_view" where
  "absorb tx ds view =
     view\<lparr>lv_last_seq := lv_last_seq view + int (length ds),
          lv_pending := lv_pending view @ number_deltas tx (lv_last_seq view) ds,
          lv_touched := lv_touched view \<or> ds \<noteq> [],
          lv_frontier := tx_end_lsn tx,
          lv_absorbed := Some (tx_end_lsn tx)\<rparr>"

definition execute_view :: "host \<Rightarrow> nat \<Rightarrow> source_transaction \<Rightarrow> live_view \<Rightarrow> db \<times> nat option \<Rightarrow>
    live_view \<times> db \<times> nat option" where
  "execute_view h ti tx view st = (case st of (d, blocked) \<Rightarrow>
     if lv_dead view \<or> tx_end_lsn tx \<le> lv_frontier view then (view, d, blocked)
     else case lv_stale view of
       Some reason \<Rightarrow> (view\<lparr>lv_stale := None, lv_dead := True\<rparr>, mark_stale view reason d, blocked)
     | None \<Rightarrow>
         (case lv_failed view of
            Some message \<Rightarrow> fail_view h ti (view\<lparr>lv_failed := None\<rparr>) message (d, blocked)
          | None \<Rightarrow>
              (case execute (h_pg h) (lv_spec view) (lv_ops view) (storage d (lv_id view)) of
                 Inl message \<Rightarrow> fail_view h ti (view\<lparr>lv_ops := []\<rparr>) message (d, blocked)
               | Inr (rows, ds) \<Rightarrow>
                   (absorb tx (net (h_parse h) (h_print h) (lv_spec view) ds) (view\<lparr>lv_ops := []\<rparr>),
                    d\<lparr>db_storage := (db_storage d)(lv_id view \<mapsto> rows)\<rparr>, blocked))))"

text \<open>The loop over the views.\<close>

fun execute_views :: "host \<Rightarrow> nat \<Rightarrow> source_transaction \<Rightarrow> live_view list \<Rightarrow> db \<times> nat option \<Rightarrow>
    live_view list \<times> db \<times> nat option" where
  "execute_views h ti tx [] st = ([], fst st, snd st)"
| "execute_views h ti tx (view # views) st =
     (case execute_view h ti tx view st of (view', d, blocked) \<Rightarrow>
      case execute_views h ti tx views (d, blocked) of (views', d, blocked) \<Rightarrow>
        (view' # views', d, blocked))"

definition advance_shadow :: "source_transaction \<Rightarrow> shadow \<Rightarrow> shadow" where
  "advance_shadow tx sh =
     (if \<not> sh_failed sh \<and> tx_end_lsn tx > sh_frontier sh
      then sh\<lparr>sh_frontier := tx_end_lsn tx, sh_advanced := True\<rparr> else sh)"

definition apply_tx :: "host \<Rightarrow> relations \<Rightarrow> nat \<times> source_transaction \<Rightarrow> round \<Rightarrow> string + round" where
  "apply_tx h rels itx rn = (case itx of (ti, tx) \<Rightarrow>
     rbind (plan_tx h rels tx rn) (\<lambda>rn.
     case execute_views h ti tx (rn_views rn) (rn_db rn, rn_blocked rn) of (views, d, blocked) \<Rightarrow>
       Inr (rn\<lparr>rn_views := views, rn_db := d, rn_blocked := blocked,
               rn_shadows := (\<lambda>o1. map_option (advance_shadow tx) (rn_shadows rn o1))\<rparr>)))"

section \<open>The end of the round\<close>

definition delta_entry :: "live_view \<Rightarrow> pending_delta \<Rightarrow> delta_entry" where
  "delta_entry view p =
     \<lparr>de_view = lv_id view, de_seq = pd_seq p, de_lsn = pd_lsn p, de_xid = pd_xid p,
      de_op = pd_op p, de_row = pd_row_json p\<rparr>"

text \<open>\<open>insert_deltas\<close>: the chunks of 200 rows, inserted one after another.\<close>

function insert_deltas :: "live_view \<Rightarrow> pending_delta list \<Rightarrow> db \<Rightarrow> db" where
  "insert_deltas view ps d =
     (if ps = [] then d
      else insert_deltas view (drop 200 ps)
             (d\<lparr>db_deltas := db_deltas d @ map (delta_entry view) (take 200 ps)\<rparr>))"
  by pat_completeness auto
termination
  by (relation "measure (\<lambda>(view, ps, d). length ps)") auto

declare insert_deltas.simps [simp del]

definition collect_garbage :: "host \<Rightarrow> live_view \<Rightarrow> db \<Rightarrow> db" where
  "collect_garbage h view d =
     d\<lparr>db_deltas := filter (\<lambda>e. \<not> (de_view e = lv_id view \<and>
         de_seq e \<le> lv_last_seq view - st_retain_deltas (h_settings h))) (db_deltas d)\<rparr>"

definition notify :: "live_view \<Rightarrow> pending_delta \<Rightarrow> db \<Rightarrow> db" where
  "notify view p d =
     d\<lparr>db_notified := db_notified d @
         [(''nabla:'' @ lv_name view, int_text (pd_seq p) @ '':'' @ lsn_format (pd_lsn p))]\<rparr>"

definition store_view :: "live_view \<Rightarrow> u64 \<Rightarrow> db \<Rightarrow> db" where
  "store_view view end_lsn =
     update_view (lv_id view)
       (if lv_failed_this_round view
        then (\<lambda>e. e\<lparr>vw_frontier := end_lsn, vw_last_seq := lv_last_seq view\<rparr>)
        else (\<lambda>e. e\<lparr>vw_frontier := end_lsn, vw_last_seq := lv_last_seq view,
                   vw_apply_failures := 0, vw_last_error := None\<rparr>))"

definition finish_view :: "host \<Rightarrow> live_view \<Rightarrow> db \<Rightarrow> db" where
  "finish_view h view d =
     (case lv_absorbed view of
        None \<Rightarrow> d
      | Some end_lsn \<Rightarrow>
          (let d = store_view view end_lsn d in
           if lv_pending view = [] then d
           else notify view (last (lv_pending view))
                  (collect_garbage h view (insert_deltas view (lv_pending view) d))))"

definition finish_shadows :: "(u32 \<rightharpoonup> shadow) \<Rightarrow> db \<Rightarrow> db" where
  "finish_shadows shadows d =
     d\<lparr>db_shadows := map (\<lambda>e. case shadows (se_relid e) of
           None \<Rightarrow> e
         | Some sh \<Rightarrow> if sh_advanced sh then e\<lparr>se_frontier := sh_frontier sh\<rparr> else e) (db_shadows d)\<rparr>"

section \<open>The round\<close>

definition storages_exist :: "live_view list \<Rightarrow> db \<Rightarrow> bool" where
  "storages_exist views d \<longleftrightarrow> (\<forall>v \<in> set views. db_storage d (lv_id v) \<noteq> None)"

definition start_round :: "db \<Rightarrow> u64 \<Rightarrow> relations \<Rightarrow> round" where
  "start_round d round_end rels =
     fold (drift_relation round_end) rels
       \<lparr>rn_db = d, rn_views = load_live_views d, rn_shadows = load_shadows d, rn_blocked = None\<rparr>"

definition finish_round :: "host \<Rightarrow> round \<Rightarrow> db" where
  "finish_round h rn =
     finish_shadows (rn_shadows rn) (fold (finish_view h) (rn_views rn) (rn_db rn))"

definition round_end :: "source_transaction list \<Rightarrow> u64" where
  "round_end txs = (if txs = [] then 0 else tx_end_lsn (last txs))"

definition total_deltas :: "live_view list \<Rightarrow> nat" where
  "total_deltas views =
     sum_list (map (\<lambda>v. if lv_absorbed v = None then 0 else length (lv_pending v)) views)"

text \<open>
  \<open>LOCK TABLE\<close> on a storage table that is gone raises. The decoder is returned because
  \<open>resolve_types\<close> fills in its relations.
\<close>

definition apply_round :: "host \<Rightarrow> decoder \<Rightarrow> source_transaction list \<Rightarrow> (string + decoder \<times> round_stats) body" where
  "apply_round h dec txs d =
     (if \<not> storages_exist (load_live_views d) d then Inl ''relation does not exist''
      else case collect_relations h dec txs of
        Inl message \<Rightarrow> Inr (Inl message, d)
      | Inr (rels, dec) \<Rightarrow>
          rbind (rfold (apply_tx h rels) (enumerate 0 txs) (start_round d (round_end txs) rels)) (\<lambda>rn.
          Inr (Inr (dec, \<lparr>rs_deltas = total_deltas (rn_views rn), rs_processed = length txs,
                          rs_blocked_at = rn_blocked rn\<rparr>),
               finish_round h rn)))"

end
