(* ===== verification/Round_Facts.thy ===== *)
theory Round_Facts
  imports Round
begin

text \<open>
  The structure of a round: which tables each step touches, a rule that lifts an invariant of one
  view through every step of the round to the whole list of views, and the bookkeeping invariant
  \<open>tracks\<close> that ties a view in memory to its catalog row.
\<close>

section \<open>Loading\<close>

definition loaded :: "view_entry \<Rightarrow> bool" where
  "loaded e \<longleftrightarrow> live e \<and> vw_spec e \<noteq> None"

definition loaded_entries :: "db \<Rightarrow> view_entry list" where
  "loaded_entries d = filter loaded (db_views d)"

lemma load_live_view_Some:
  "vw_spec e \<noteq> None \<Longrightarrow> load_live_view e = Some (the (load_live_view e))"
  by (auto simp: load_live_view_def)

lemma load_live_views_map:
  "load_live_views d = map (\<lambda>e. the (load_live_view e)) (loaded_entries d)"
proof -
  have "List.map_filter load_live_view (filter live es) =
    map (\<lambda>e. the (load_live_view e)) (filter loaded es)" for es
    by (induction es) (auto simp: loaded_def map_filter_simps load_live_view_def)
  then show ?thesis by (simp add: load_live_views_def loaded_entries_def)
qed

text \<open>The loops of \<open>resolve_types\<close> and of the collection only add relations.\<close>

section \<open>Which tables a step touches\<close>

text \<open>
  Between the start of a round and its end the transaction writes the status columns of
  \<open>nabla.views\<close>, the shadow catalog, the shadow rows and the storage tables; nothing else.
\<close>

definition status_only :: "view_entry \<Rightarrow> view_entry \<Rightarrow> bool" where
  "status_only e f \<longleftrightarrow>
     vw_id f = vw_id e \<and> vw_name f = vw_name e \<and> vw_definition f = vw_definition e \<and>
     vw_spec f = vw_spec e \<and> vw_frontier f = vw_frontier e \<and> vw_epoch f = vw_epoch e \<and>
     vw_last_seq f = vw_last_seq e \<and> vw_populated f = vw_populated e \<and>
     (vw_status f = vw_status e \<or> vw_status f = ''stale'')"

definition untouched :: "db \<Rightarrow> db \<Rightarrow> bool" where
  "untouched d d' \<longleftrightarrow>
     db_deltas d' = db_deltas d \<and> db_relations d' = db_relations d \<and> db_slot d' = db_slot d \<and>
     db_notified d' = db_notified d \<and> list_all2 status_only (db_views d) (db_views d')"

lemma status_only_refl [simp, intro]: "status_only e e"
  by (simp add: status_only_def)

lemma status_only_trans: "status_only e f \<Longrightarrow> status_only f g \<Longrightarrow> status_only e g"
  by (auto simp: status_only_def)

lemma untouched_refl [simp, intro]: "untouched d d"
  by (simp add: untouched_def list_all2_refl)

lemma untouched_trans [trans]: "untouched d e \<Longrightarrow> untouched e f \<Longrightarrow> untouched d f"
  unfolding untouched_def
  by (auto intro: list_all2_trans [where ?P1.0 = status_only and ?P2.0 = status_only] status_only_trans)

lemma untouched_update_view:
  assumes "\<And>e. status_only e (f e)"
  shows "untouched d (update_view i f d)"
  using assms by (auto simp: untouched_def update_view_def list_all2_conv_all_nth)

lemma untouched_update_shadow: "untouched d (update_shadow o1 f d)"
  by (simp add: untouched_def list_all2_refl)

lemma record_failure_untouched:
  "record_failure h view m d = (view', d', still_live) \<Longrightarrow> untouched d d'"
  by (auto simp: record_failure_def Let_def status_only_def intro!: untouched_update_view split: if_splits)

lemma execute_view_untouched:
  assumes "execute_view h ti tx view (d, b) = (view', d', b')"
  shows "untouched d d'"
proof -
  have "untouched d (mark_stale view r d)" for r
    unfolding mark_stale_def by (rule untouched_update_view) (simp add: status_only_def)
  moreover have "untouched d d'" if "fail_view h ti v m (d, b) = (view', d', b')" for v m
    using that by (auto simp: fail_view_def dest: record_failure_untouched split: prod.splits)
  moreover have "untouched d (d\<lparr>db_storage := s\<rparr>)" for s
    by (simp add: untouched_def list_all2_refl)
  ultimately show ?thesis
    using assms by (auto simp: execute_view_def split: if_splits option.splits sum.splits)
qed

lemma execute_views_untouched:
  "execute_views h ti tx views (d, b) = (views', d', b') \<Longrightarrow> untouched d d'"
proof (induction views arbitrary: d b views')
  case Nil
  then show ?case by auto
next
  case (Cons v views)
  then show ?case
    by (auto split: prod.splits dest: execute_view_untouched intro: untouched_trans)
qed

lemma shadow_drift_untouched: "shadow_drift sh rel q d = (sh', d') \<Longrightarrow> untouched d d'"
  by (auto simp: shadow_drift_def record_shadow_failure_def Let_def untouched_update_shadow split: if_splits)

lemma drift_relation_untouched: "untouched (rn_db rn) (rn_db (drift_relation end_lsn rr rn))"
  by (auto simp: drift_relation_def Let_def dest: shadow_drift_untouched split: prod.splits option.splits)

lemma maintain_shadow_untouched:
  "untouched (rn_db rn) (rn_db (maintain_shadow h sh rel ch relid old new rn))"
proof -
  have "untouched d (d\<lparr>db_shadow_rows := s\<rparr>)" for d s
    by (simp add: untouched_def list_all2_refl)
  then show ?thesis
    by (auto simp: maintain_shadow_def Let_def record_shadow_failure_def untouched_update_shadow
        split: sum.splits)
qed

lemma plan_relid_untouched:
  assumes "plan_relid h rels end_lsn ch relid rn = Inr rn'"
  shows "untouched (rn_db rn) (rn_db rn')"
proof -
  have "untouched (rn_db rn) (rn_db (maintain_shadow h sh rel ch relid old new (rn\<lparr>rn_views := vs\<rparr>)))"
    for sh rel old new vs
    using maintain_shadow_untouched [of "rn\<lparr>rn_views := vs\<rparr>"] by simp
  then show ?thesis
    using assms by (auto simp: plan_relid_def Let_def rbind_Inr_iff split: option.splits if_splits)
qed

text \<open>A loop whose body leaves the tables alone leaves them alone.\<close>

lemma rfold_untouched:
  assumes "rfold f xs rn = Inr rn'"
    and "\<And>x rn rn'. f x rn = Inr rn' \<Longrightarrow> untouched (rn_db rn) (rn_db rn')"
  shows "untouched (rn_db rn) (rn_db rn')"
  by (rule rfold_invariant [OF assms(1), where P = "\<lambda>r. untouched (rn_db rn) (rn_db r)"])
    (auto intro: untouched_trans assms(2))

lemma plan_tx_untouched: "plan_tx h rels tx rn = Inr rn' \<Longrightarrow> untouched (rn_db rn) (rn_db rn')"
  unfolding plan_tx_def by (erule rfold_untouched, erule rfold_untouched, erule plan_relid_untouched)

lemma apply_txE:
  assumes "apply_tx h rels (ti, tx) rn = Inr rn'"
  obtains mid vs d b where "plan_tx h rels tx rn = Inr mid"
    and "execute_views h ti tx (rn_views mid) (rn_db mid, rn_blocked mid) = (vs, d, b)"
    and "rn' = mid\<lparr>rn_views := vs, rn_db := d, rn_blocked := b,
      rn_shadows := (\<lambda>o1. map_option (advance_shadow tx) (rn_shadows mid o1))\<rparr>"
proof -
  obtain mid where mid: "plan_tx h rels tx rn = Inr mid" using assms by (auto simp: apply_tx_def)
  obtain vs d b where "execute_views h ti tx (rn_views mid) (rn_db mid, rn_blocked mid) = (vs, d, b)"
    by (rule prod_cases3)
  with assms mid that show thesis by (simp add: apply_tx_def)
qed

lemma apply_tx_untouched: "apply_tx h rels itx rn = Inr rn' \<Longrightarrow> untouched (rn_db rn) (rn_db rn')"
  by (cases itx) (auto elim!: apply_txE dest!: plan_tx_untouched execute_views_untouched
      intro: untouched_trans)

lemma start_round_untouched: "untouched d (rn_db (start_round d end_lsn rels))"
proof -
  have "untouched (rn_db rn) (rn_db (fold (drift_relation end_lsn) rels rn))" for rn
    by (induction rels arbitrary: rn) (auto intro: untouched_trans drift_relation_untouched)
  then show ?thesis by (simp add: start_round_def) (metis round.select_convs(1))
qed

lemma round_untouched:
  "rfold (apply_tx h rels) itxs (start_round d end_lsn rels) = Inr rn \<Longrightarrow> untouched d (rn_db rn)"
  by (blast intro: untouched_trans start_round_untouched rfold_untouched apply_tx_untouched)

section \<open>Invariants of one view\<close>

text \<open>
  A relation between a loaded catalog row and the view in memory that every step on one view
  preserves holds for all views at the end of the round.
\<close>

locale view_invariant =
  fixes h :: host and P :: "view_entry \<Rightarrow> live_view \<Rightarrow> bool"
  assumes load: "loaded e \<Longrightarrow> P e (the (load_live_view e))"
    and drift: "P e v \<Longrightarrow> P e (view_drift end_lsn relid rel v)"
    and plan: "P e v \<Longrightarrow> P e (plan_view h shadows end_lsn rel ch relid old v)"
    and shadow_failure: "P e v \<Longrightarrow> P e (shadow_failure_for_view relid rel message v)"
    and exec: "P e v \<Longrightarrow> execute_view h ti tx v (d, b) = (v', d', b') \<Longrightarrow> P e v'"
begin

abbreviation invariant :: "view_entry list \<Rightarrow> round \<Rightarrow> bool" where
  "invariant es rn \<equiv> list_all2 P es (rn_views rn)"

lemma map_step: "list_all2 P es vs \<Longrightarrow> (\<And>e v. P e v \<Longrightarrow> P e (f v)) \<Longrightarrow> list_all2 P es (map f vs)"
  by (auto simp: list_all2_conv_all_nth)

lemma start: "invariant (loaded_entries d) (start_round d end_lsn rels)"
proof -
  have step: "invariant es rn \<Longrightarrow> invariant es (drift_relation end_lsn rr rn)" for es rr rn
    by (auto simp: drift_relation_def Let_def intro!: map_step drift split: prod.splits option.splits)
  have "invariant es (fold (drift_relation end_lsn) rels rn)" if "invariant es rn" for es rn
    using that by (induction rels arbitrary: rn) (auto intro: step)
  moreover have "list_all2 P es (map (\<lambda>e. the (load_live_view e)) es)" if "\<forall>e \<in> set es. loaded e" for es
    using that by (induction es) (auto intro: load)
  ultimately show ?thesis by (simp add: start_round_def load_live_views_map loaded_entries_def)
qed

lemma shadow_step: "invariant es rn \<Longrightarrow> invariant es (maintain_shadow h sh rel ch relid old new rn)"
  by (auto simp: maintain_shadow_def Let_def record_shadow_failure_def
      intro!: map_step shadow_failure split: sum.splits)

lemma plan_relid: "plan_relid h rels end_lsn ch relid rn = Inr rn' \<Longrightarrow> invariant es rn \<Longrightarrow> invariant es rn'"
  by (auto simp: plan_relid_def Let_def rbind_Inr_iff intro!: shadow_step map_step plan
      split: option.splits if_splits)

lemma plan_tx: "plan_tx h rels tx rn = Inr rn' \<Longrightarrow> invariant es rn \<Longrightarrow> invariant es rn'"
  unfolding plan_tx_def
  by (erule rfold_invariant, assumption, erule rfold_invariant, assumption, rule plan_relid)

lemma execute: "execute_views h ti tx vs (d, b) = (vs', d', b') \<Longrightarrow> list_all2 P es vs \<Longrightarrow> list_all2 P es vs'"
  by (induction vs arbitrary: es d b vs') (auto simp: list_all2_Cons2 split: prod.splits intro: exec)

lemma apply_tx: "apply_tx h rels itx rn = Inr rn' \<Longrightarrow> invariant es rn \<Longrightarrow> invariant es rn'"
  by (cases itx) (auto elim!: apply_txE dest: plan_tx execute)

lemma end_of_round:
  "rfold (apply_tx h rels) itxs (start_round d end_lsn rels) = Inr rn \<Longrightarrow> invariant (loaded_entries d) rn"
  by (erule rfold_invariant, rule start, rule apply_tx)

end

section \<open>A view follows its catalog row\<close>

definition tracks :: "view_entry \<Rightarrow> live_view \<Rightarrow> bool" where
  "tracks e v \<longleftrightarrow>
     lv_id v = vw_id e \<and> lv_name v = vw_name e \<and> vw_spec e = Some (lv_spec v) \<and>
     (case lv_absorbed v of
        None \<Rightarrow> lv_frontier v = vw_frontier e \<and> lv_pending v = [] \<and> lv_last_seq v = vw_last_seq e
      | Some l \<Rightarrow>
          lv_frontier v = l \<and> vw_frontier e < l \<and> vw_last_seq e \<le> lv_last_seq v \<and>
          map pd_seq (lv_pending v) = [vw_last_seq e + 1 .. lv_last_seq v] \<and>
          sorted (map pd_lsn (lv_pending v)) \<and>
          (\<forall>p \<in> set (lv_pending v). vw_frontier e < pd_lsn p \<and> pd_lsn p \<le> l))"

text \<open>Steps that leave the fields \<open>tracks\<close> reads alone.\<close>

definition same_track :: "live_view \<Rightarrow> live_view \<Rightarrow> bool" where
  "same_track v w \<longleftrightarrow>
     lv_id w = lv_id v \<and> lv_name w = lv_name v \<and> lv_spec w = lv_spec v \<and>
     lv_frontier w = lv_frontier v \<and> lv_last_seq w = lv_last_seq v \<and>
     lv_pending w = lv_pending v \<and> lv_absorbed w = lv_absorbed v"

lemma tracks_same: "same_track v w \<Longrightarrow> tracks e v = tracks e w"
  by (simp add: same_track_def tracks_def cong: option.case_cong)

lemma same_track_steps:
  "same_track v (view_drift end_lsn relid rel v)"
  "same_track v (plan_view h shadows end_lsn rel ch relid old v)"
  "same_track v (shadow_failure_for_view relid rel message v)"
  by (simp_all add: same_track_def view_drift_def plan_view_def shadow_failure_for_view_def
      split: option.splits sum.splits planned.splits bool.splits)

lemma same_track_fail:
  "fail_view h ti v m (d, b) = (v', d', b') \<Longrightarrow> same_track v v'"
  by (auto simp: fail_view_def record_failure_def Let_def same_track_def split: if_splits)

lemma number_deltas_seq: "map pd_seq (number_deltas tx s ds) = [s + 1 .. s + int (length ds)]"
proof (rule nth_equalityI)
  show "length (map pd_seq (number_deltas tx s ds)) = length [s + 1 .. s + int (length ds)]"
    by (simp add: number_deltas_def)
qed (simp add: number_deltas_def nth_enumerate_eq)

lemma number_deltas_lsn: "map pd_lsn (number_deltas tx s ds) = replicate (length ds) (tx_end_lsn tx)"
  by (rule nth_equalityI) (simp_all add: number_deltas_def nth_enumerate_eq)

lemma upto_append: "i \<le> j + 1 \<Longrightarrow> j \<le> k \<Longrightarrow> [i .. j] @ [j + 1 .. k] = [i .. k]"
proof (induction "nat (j + 1 - i)" arbitrary: i)
  case 0
  then have "i = j + 1" by simp
  then show ?case by simp
next
  case (Suc n)
  then have "[i + 1 .. j] @ [j + 1 .. k] = [i + 1 .. k]" by simp
  then show ?case using Suc by (simp add: upto_rec1)
qed

lemma tracks_absorb:
  assumes "tracks e v" and "lv_frontier v < tx_end_lsn tx"
  shows "tracks e (absorb tx ds v)"
proof -
  let ?new = "number_deltas tx (lv_last_seq v) ds"
  have lsn: "pd_lsn p = tx_end_lsn tx" if "p \<in> set ?new" for p
    using that number_deltas_lsn [of tx "lv_last_seq v" ds]
    by (metis in_set_replicate in_set_conv_nth length_map nth_map nth_mem)
  have seqs: "map pd_seq (lv_pending v) = [vw_last_seq e + 1 .. lv_last_seq v]"
    and le: "vw_last_seq e \<le> lv_last_seq v" and f: "vw_frontier e \<le> lv_frontier v"
    and s: "sorted (map pd_lsn (lv_pending v))"
    and b: "\<forall>p \<in> set (lv_pending v). vw_frontier e < pd_lsn p \<and> pd_lsn p \<le> lv_frontier v"
    using assms(1) by (auto simp: tracks_def split: option.splits)
  have "map pd_seq (lv_pending v @ ?new) = [vw_last_seq e + 1 .. lv_last_seq v + int (length ds)]"
    using upto_append [of "vw_last_seq e + 1" "lv_last_seq v" "lv_last_seq v + int (length ds)"] le
    by (simp add: seqs number_deltas_seq)
  moreover have "sorted (map pd_lsn (lv_pending v @ ?new))"
    using s b lsn assms(2) by (auto simp: sorted_append number_deltas_lsn intro: order_trans less_imp_le)
  moreover have "\<forall>p \<in> set (lv_pending v @ ?new). vw_frontier e < pd_lsn p \<and> pd_lsn p \<le> tx_end_lsn tx"
    using b lsn assms(2) f by (auto intro: order_trans less_imp_le)
  ultimately show ?thesis
    using assms le f by (auto simp: tracks_def absorb_def)
qed

lemma tracks_exec:
  assumes "tracks e v" and "execute_view h ti tx v (d, b) = (v', d', b')"
  shows "tracks e v'"
proof -
  have fail: "tracks e w" if "fail_view h ti (v\<lparr>lv_failed := x\<rparr>) m (d, b) = (w, d', b')" for x m w
    using same_track_fail [OF that] assms(1) tracks_same [of v w] by (simp add: same_track_def)
  have fail': "tracks e w" if "fail_view h ti (v\<lparr>lv_ops := []\<rparr>) m (d, b) = (w, d', b')" for m w
    using same_track_fail [OF that] assms(1) tracks_same [of v w] by (simp add: same_track_def)
  have dead: "tracks e (v\<lparr>lv_stale := None, lv_dead := True\<rparr>)" and ops: "tracks e (v\<lparr>lv_ops := []\<rparr>)"
    using assms(1) by (simp_all add: tracks_def cong: option.case_cong)
  show ?thesis
  proof (cases "lv_dead v \<or> tx_end_lsn tx \<le> lv_frontier v")
    case True
    with assms show ?thesis by (simp add: execute_view_def)
  next
    case False
    then have "tracks e (absorb tx ds (v\<lparr>lv_ops := []\<rparr>))" for ds
      using ops by (intro tracks_absorb) auto
    with False assms(2) fail fail' dead show ?thesis
      by (auto simp: execute_view_def split: option.splits sum.splits)
  qed
qed

interpretation tracked: view_invariant h tracks for h
proof unfold_locales
  show "loaded e \<Longrightarrow> tracks e (the (load_live_view e))" for e
    by (auto simp: loaded_def tracks_def load_live_view_def)
qed (use tracks_same same_track_steps in blast, use tracks_same same_track_steps in blast,
     use tracks_same same_track_steps in blast, rule tracks_exec)

section \<open>What executing one view leaves to the others\<close>

lemma execute_view_shadow_rows:
  "execute_view h ti tx view (d, b) = (view', d', b') \<Longrightarrow> db_shadow_rows d' = db_shadow_rows d"
  by (auto simp: execute_view_def fail_view_def record_failure_def mark_stale_def Let_def
      split: if_splits option.splits sum.splits)

lemma execute_views_shadow_rows:
  "execute_views h ti tx views (d, b) = (views', d', b') \<Longrightarrow> db_shadow_rows d' = db_shadow_rows d"
  by (induction views arbitrary: d b views')
    (auto split: prod.splits simp: execute_view_shadow_rows)

definition same_slice :: "int \<Rightarrow> db \<Rightarrow> db \<Rightarrow> bool" where
  "same_slice i d d' \<longleftrightarrow> find_id i d' = find_id i d \<and> db_storage d' i = db_storage d i"

text \<open>A recorded failure position is kept; a new one is the transaction being applied.\<close>

definition later :: "nat \<Rightarrow> nat option \<Rightarrow> nat option \<Rightarrow> bool" where
  "later ti b b' \<longleftrightarrow> b' = b \<or> (b = None \<and> b' = Some ti)"

lemma same_slice_refl [simp, intro]: "same_slice i d d"
  by (simp add: same_slice_def)

lemma same_slice_trans: "same_slice i d e \<Longrightarrow> same_slice i e f \<Longrightarrow> same_slice i d f"
  by (simp add: same_slice_def)

lemma later_refl [simp, intro]: "later ti b b"
  by (simp add: later_def)

lemma later_trans: "later ti a b \<Longrightarrow> later ti b c \<Longrightarrow> later ti a c"
  by (auto simp: later_def)

lemma same_slice_update_view:
  assumes "\<And>e. vw_id (f e) = vw_id e" and "j \<noteq> i"
  shows "same_slice j d (update_view i f d)"
  using assms by (simp add: same_slice_def find_id_update_view)

lemma fail_view_others:
  assumes "fail_view h ti v m (d, b) = (v', d', b')"
  shows "j \<noteq> lv_id v \<Longrightarrow> same_slice j d d'" and "later ti b b'" and "lv_id v' = lv_id v"
    and "db_storage d' = db_storage d"
  using assms
  by (auto simp: fail_view_def record_failure_def Let_def later_def intro!: same_slice_update_view
      split: if_splits)

lemma execute_view_others:
  assumes "execute_view h ti tx v (d, b) = (v', d', b')"
  shows "j \<noteq> lv_id v \<Longrightarrow> same_slice j d d'" and "later ti b b'" and "lv_id v' = lv_id v"
proof -
  have "same_slice j d (mark_stale v r d)" if "j \<noteq> lv_id v" for r
    using that unfolding mark_stale_def by (intro same_slice_update_view) simp_all
  moreover have "same_slice j d (d\<lparr>db_storage := (db_storage d)(lv_id v \<mapsto> rows)\<rparr>)" if "j \<noteq> lv_id v" for rows
    using that by (simp add: same_slice_def find_id_def)
  ultimately show "j \<noteq> lv_id v \<Longrightarrow> same_slice j d d'" "later ti b b'" "lv_id v' = lv_id v"
    using assms fail_view_others
    by (force simp: execute_view_def absorb_def split: if_splits option.splits sum.splits)+
qed

lemma execute_views_others:
  assumes "execute_views h ti tx views (d, b) = (views', d', b')"
  shows "j \<notin> lv_id ` set views \<Longrightarrow> same_slice j d d'" and "later ti b b'" and "map lv_id views' = map lv_id views"
  using assms
proof (induction views arbitrary: d b views')
  case Nil
  {
    case 1 then show ?case by simp
  next
    case 2 then show ?case by simp
  next
    case 3 then show ?case by simp
  }
next
  case (Cons v views)
  have split: "\<exists>v' d0 b0 vs. execute_view h ti tx v (d, b) = (v', d0, b0) \<and>
      execute_views h ti tx views (d0, b0) = (vs, d', b') \<and> views' = v' # vs"
    if "execute_views h ti tx (v # views) (d, b) = (views', d', b')" for d b views'
    using that by (auto split: prod.splits)
  {
    case 1
    from split [OF 1(2)] obtain v' d0 b0 vs where e: "execute_view h ti tx v (d, b) = (v', d0, b0)"
      "execute_views h ti tx views (d0, b0) = (vs, d', b')" by blast
    from 1 have "j \<noteq> lv_id v" "j \<notin> lv_id ` set views" by auto
    with e show ?case using execute_view_others(1) Cons.IH(1) same_slice_trans by blast
  next
    case 2
    with split show ?case using execute_view_others(2) Cons.IH(2) later_trans by blast
  next
    case 3
    with split show ?case using execute_view_others(3) Cons.IH(3) by (metis list.simps(9))
  }
qed

text \<open>
  The loop over the views, seen from the view at position \<open>j\<close>: the others change neither its
  catalog row nor its storage table.
\<close>

lemma execute_views_nth:
  assumes "execute_views h ti tx views (d, b) = (views', d', b')"
    and "distinct (map lv_id views)" and "j < length views"
  obtains d0 b0 d1 b1 where "execute_view h ti tx (views ! j) (d0, b0) = (views' ! j, d1, b1)"
    and "same_slice (lv_id (views ! j)) d d0" and "same_slice (lv_id (views ! j)) d1 d'"
    and "later ti b b0" and "later ti b1 b'"
proof -
  have "\<exists>d0 b0 d1 b1. execute_view h ti tx (views ! j) (d0, b0) = (views' ! j, d1, b1) \<and>
      same_slice (lv_id (views ! j)) d d0 \<and> same_slice (lv_id (views ! j)) d1 d' \<and> later ti b b0 \<and> later ti b1 b'"
    using assms
  proof (induction views arbitrary: d b views' j)
    case Nil
    then show ?case by simp
  next
    case (Cons v views)
    from Cons.prems(1) obtain v' d0 b0 vs where e: "execute_view h ti tx v (d, b) = (v', d0, b0)"
      "execute_views h ti tx views (d0, b0) = (vs, d', b')" "views' = v' # vs"
      by (auto split: prod.splits)
    show ?case
    proof (cases j)
      case 0
      have "same_slice (lv_id v) d0 d'" using execute_views_others(1) [OF e(2)] Cons.prems(2) by auto
      with e 0 execute_views_others(2) [OF e(2)] show ?thesis
        by (intro exI [of _ d] exI [of _ b] exI [of _ d0] exI [of _ b0]) simp
    next
      case (Suc n)
      from Cons.IH [OF e(2), of n] Cons.prems Suc obtain d2 b2 d3 b3 where
        "execute_view h ti tx (views ! n) (d2, b2) = (vs ! n, d3, b3)"
        "same_slice (lv_id (views ! n)) d0 d2" "same_slice (lv_id (views ! n)) d3 d'" "later ti b0 b2" "later ti b3 b'"
        by auto
      moreover have "views ! n \<in> set views" using Cons.prems(3) Suc by simp
      then have "lv_id (views ! n) \<noteq> lv_id v" using Cons.prems(2) by (auto simp: image_iff)
      then have "same_slice (lv_id (views ! n)) d d0" using execute_view_others(1) [OF e(1)] by blast
      ultimately show ?thesis
        using e Suc execute_view_others(2) [OF e(1)]
        by (auto intro: same_slice_trans later_trans intro!: exI)
    qed
  qed
  with that show thesis by blast
qed

section \<open>Planning leaves catalog rows and storage tables alone\<close>

lemma find_id_maintain:
  "db_storage (rn_db (maintain_shadow h sh rel ch relid old new rn)) = db_storage (rn_db rn)"
  "db_views (rn_db (maintain_shadow h sh rel ch relid old new rn)) = db_views (rn_db rn)"
  "rn_blocked (maintain_shadow h sh rel ch relid old new rn) = rn_blocked rn"
  by (simp_all add: maintain_shadow_def Let_def record_shadow_failure_def split: sum.splits)

definition same_tables :: "round \<Rightarrow> round \<Rightarrow> bool" where
  "same_tables rn rn' \<longleftrightarrow>
     db_storage (rn_db rn') = db_storage (rn_db rn) \<and> db_views (rn_db rn') = db_views (rn_db rn) \<and>
     rn_blocked rn' = rn_blocked rn"

lemma plan_relid_tables: "plan_relid h rels end_lsn ch relid rn = Inr rn' \<Longrightarrow> same_tables rn rn'"
  by (auto simp: plan_relid_def Let_def rbind_Inr_iff same_tables_def find_id_maintain
      split: option.splits if_splits)

lemma rfold_tables:
  assumes "rfold f xs rn = Inr rn'"
    and "\<And>x rn rn'. f x rn = Inr rn' \<Longrightarrow> same_tables rn rn'"
  shows "same_tables rn rn'"
  by (rule rfold_invariant [OF assms(1), where P = "\<lambda>r. same_tables rn r"])
    (auto simp: same_tables_def dest!: assms(2))

lemma plan_tx_tables: "plan_tx h rels tx rn = Inr rn' \<Longrightarrow> same_tables rn rn'"
  unfolding plan_tx_def by (erule rfold_tables, erule rfold_tables, erule plan_relid_tables)

lemma start_round_tables:
  "db_storage (rn_db (start_round d end_lsn rels)) = db_storage d"
  "db_views (rn_db (start_round d end_lsn rels)) = db_views d"
  "rn_blocked (start_round d end_lsn rels) = None"
proof -
  have drift: "same_tables rn (drift_relation end_lsn rr rn)" for rr rn
    by (auto simp: same_tables_def drift_relation_def Let_def shadow_drift_def record_shadow_failure_def
        split: prod.splits option.splits if_splits)
  have "same_tables rn (fold (drift_relation end_lsn) rels rn)" for rn
  proof (induction rels arbitrary: rn)
    case Nil
    show ?case by (simp add: same_tables_def)
  next
    case (Cons rr rels)
    from Cons.IH [of "drift_relation end_lsn rr rn"] drift [of rn rr] show ?case
      by (simp add: same_tables_def)
  qed
  from this [of "\<lparr>rn_db = d, rn_views = load_live_views d, rn_shadows = load_shadows d, rn_blocked = None\<rparr>"]
  show "db_storage (rn_db (start_round d end_lsn rels)) = db_storage d"
    "db_views (rn_db (start_round d end_lsn rels)) = db_views d"
    "rn_blocked (start_round d end_lsn rels) = None"
    by (simp_all add: same_tables_def start_round_def)
qed


section \<open>One transaction, seen from one view\<close>

text \<open>What planning may change of a view: its operations and its reasons to stop, nothing else.\<close>

definition planned_from :: "live_view \<Rightarrow> live_view \<Rightarrow> bool" where
  "planned_from v w \<longleftrightarrow>
     same_track v w \<and> lv_dead w = lv_dead v \<and> lv_failed_this_round w = lv_failed_this_round v \<and>
     lv_apply_failures w = lv_apply_failures v \<and> lv_definition w = lv_definition v"

lemma planned_from_refl [simp, intro]: "planned_from v v"
  by (simp add: planned_from_def same_track_def)

lemma planned_from_trans: "planned_from u v \<Longrightarrow> planned_from v w \<Longrightarrow> planned_from u w"
  by (simp add: planned_from_def same_track_def)

lemma planned_from_steps:
  "planned_from v (view_drift end_lsn relid rel v)"
  "planned_from v (plan_view h shadows end_lsn rel ch relid old v)"
  "planned_from v (shadow_failure_for_view relid rel message v)"
  by (simp_all add: planned_from_def same_track_def view_drift_def plan_view_def shadow_failure_for_view_def
      split: option.splits sum.splits planned.splits bool.splits)

lemma list_all2_map_refl: "(\<And>v. R v (f v)) \<Longrightarrow> list_all2 R vs (map f vs)"
  by (simp add: list_all2_conv_all_nth)

lemma planned_all_trans:
  "list_all2 planned_from us vs \<Longrightarrow> list_all2 planned_from vs ws \<Longrightarrow> list_all2 planned_from us ws"
  by (rule list_all2_trans [OF planned_from_trans])

lemma maintain_shadow_views:
  "list_all2 planned_from (rn_views rn) (rn_views (maintain_shadow h sh rel ch relid old new rn))"
proof -
  have "rn_views (maintain_shadow h sh rel ch relid old new rn) = rn_views rn \<or>
    (\<exists>m. rn_views (maintain_shadow h sh rel ch relid old new rn) =
      map (shadow_failure_for_view relid rel m) (rn_views rn))"
    unfolding maintain_shadow_def Let_def record_shadow_failure_def by (auto split: sum.splits)
  then show ?thesis
    using list_all2_map_refl [where R = planned_from, OF planned_from_steps(3)]
    by (auto simp: list_all2_refl)
qed

lemma plan_relid_views:
  assumes "plan_relid h rels end_lsn ch relid rn = Inr rn'"
  shows "list_all2 planned_from (rn_views rn) (rn_views rn')"
proof -
  obtain rel where rel: "map_of rels relid = Some rel"
    using assms by (auto simp: plan_relid_def rbind_Inr_iff)
  let ?rn = "rn\<lparr>rn_views := map (plan_view h (db_shadow_rows (rn_db rn)) end_lsn rel ch relid
    (old_row h rn end_lsn rel ch relid)) (rn_views rn)\<rparr>"
  have one: "list_all2 planned_from (rn_views rn) (rn_views ?rn)"
    by (simp add: list_all2_map_refl planned_from_steps)
  have "rn' = ?rn \<or> (\<exists>sh old new. rn' = maintain_shadow h sh rel ch relid old new ?rn)"
    using assms rel by (auto simp: plan_relid_def Let_def rbind_Inr_iff split: option.splits if_splits)
  then show ?thesis
    using one planned_all_trans [OF one maintain_shadow_views] by auto
qed

lemma rfold_planned:
  assumes "rfold f xs rn = Inr rn'"
    and "\<And>x rn rn'. f x rn = Inr rn' \<Longrightarrow> list_all2 planned_from (rn_views rn) (rn_views rn')"
  shows "list_all2 planned_from (rn_views rn) (rn_views rn')"
  by (rule rfold_invariant [OF assms(1), where P = "\<lambda>r. list_all2 planned_from (rn_views rn) (rn_views r)"])
    (auto intro: list_all2_refl planned_all_trans assms(2))

lemma plan_tx_views:
  "plan_tx h rels tx rn = Inr rn' \<Longrightarrow> list_all2 planned_from (rn_views rn) (rn_views rn')"
  unfolding plan_tx_def by (erule rfold_planned, erule rfold_planned, erule plan_relid_views)

lemma planned_ids: "list_all2 planned_from vs ws \<Longrightarrow> map lv_id ws = map lv_id vs"
  by (rule nth_equalityI) (auto simp: list_all2_conv_all_nth planned_from_def same_track_def)

lemma apply_tx_ids: "apply_tx h rels (ti, tx) rn = Inr rn' \<Longrightarrow> map lv_id (rn_views rn') = map lv_id (rn_views rn)"
  by (elim apply_txE) (simp add: execute_views_others(3) planned_ids [OF plan_tx_views])

lemma apply_tx_mid:
  assumes "apply_tx h rels (ti, tx) rn = Inr rn'"
    and "distinct (map lv_id (rn_views rn))" and "j < length (rn_views rn)"
  obtains mid d0 b0 d1 b1 where "plan_tx h rels tx rn = Inr mid" and "planned_from (rn_views rn ! j) (rn_views mid ! j)"
    and "execute_view h ti tx (rn_views mid ! j) (d0, b0) = (rn_views rn' ! j, d1, b1)"
    and "same_slice (lv_id (rn_views mid ! j)) (rn_db rn) d0" and "same_slice (lv_id (rn_views mid ! j)) d1 (rn_db rn')"
    and "later ti (rn_blocked rn) b0" and "later ti b1 (rn_blocked rn')"
proof -
  obtain mid vs d b where mid: "plan_tx h rels tx rn = Inr mid"
    and ex: "execute_views h ti tx (rn_views mid) (rn_db mid, rn_blocked mid) = (vs, d, b)"
    and rn': "rn' = mid\<lparr>rn_views := vs, rn_db := d, rn_blocked := b,
      rn_shadows := (\<lambda>o1. map_option (advance_shadow tx) (rn_shadows mid o1))\<rparr>"
    using assms(1) by (rule apply_txE)
  have pl: "list_all2 planned_from (rn_views rn) (rn_views mid)" using mid by (rule plan_tx_views)
  have "distinct (map lv_id (rn_views mid))" "j < length (rn_views mid)"
    using assms(2,3) planned_ids [OF pl] list_all2_lengthD [OF pl] by simp_all
  from execute_views_nth [OF ex this] obtain d0 b0 d1 b1 where
    "execute_view h ti tx (rn_views mid ! j) (d0, b0) = (vs ! j, d1, b1)"
    "same_slice (lv_id (rn_views mid ! j)) (rn_db mid) d0" "same_slice (lv_id (rn_views mid ! j)) d1 d"
    "later ti (rn_blocked mid) b0" "later ti b1 b" by blast
  moreover have "planned_from (rn_views rn ! j) (rn_views mid ! j)"
    using pl assms(3) by (simp add: list_all2_conv_all_nth)
  moreover have "same_tables rn mid" using mid by (rule plan_tx_tables)
  ultimately show thesis
    using that mid rn' by (simp add: same_tables_def same_slice_def find_id_def)
qed

lemma apply_tx_nth:
  assumes "apply_tx h rels (ti, tx) rn = Inr rn'"
    and "distinct (map lv_id (rn_views rn))" and "j < length (rn_views rn)"
  obtains w d0 b0 d1 b1 where "planned_from (rn_views rn ! j) w"
    and "execute_view h ti tx w (d0, b0) = (rn_views rn' ! j, d1, b1)"
    and "same_slice (lv_id w) (rn_db rn) d0" and "same_slice (lv_id w) d1 (rn_db rn')"
    and "later ti (rn_blocked rn) b0" and "later ti b1 (rn_blocked rn')"
  by (rule apply_tx_mid [OF assms]) (rule that)

lemma start_views:
  "list_all2 planned_from (load_live_views d) (rn_views (start_round d end_lsn rels))"
proof -
  have "list_all2 planned_from (rn_views rn) (rn_views (fold (drift_relation end_lsn) rels rn))" for rn
  proof (induction rels arbitrary: rn)
    case Nil
    show ?case by (simp add: list_all2_refl)
  next
    case (Cons rr rels)
    have "list_all2 planned_from (rn_views rn) (rn_views (drift_relation end_lsn rr rn))"
      using list_all2_map_refl [where R = planned_from, OF planned_from_steps(1)]
      by (auto simp: drift_relation_def Let_def split: prod.splits option.splits)
    with Cons.IH show ?case by (auto intro: planned_all_trans)
  qed
  then show ?thesis by (simp add: start_round_def) (metis round.select_convs(2))
qed

end
