(* ===== verification/Round_Log.thy ===== *)
theory Round_Log
  imports Round_Facts
begin

text \<open>
  What a round leaves in the catalog: the end of a round view by view, the delta log invariant
  (contiguous sequence numbers up to \<open>last_seq\<close>, LSNs sorted and never beyond the frontier), and
  the progress of frontiers.
\<close>

section \<open>The end of a round, view by view\<close>

lemma insert_deltas_eq:
  "insert_deltas view ps d = d\<lparr>db_deltas := db_deltas d @ map (delta_entry view) ps\<rparr>"
proof (induction view ps d rule: insert_deltas.induct)
  case (1 view ps d)
  show ?case
  proof (cases "ps = []")
    case True
    then show ?thesis by (simp add: insert_deltas.simps)
  next
    case False
    then show ?thesis
      using 1 by (subst insert_deltas.simps) (simp flip: map_append)
  qed
qed

definition finish_entry :: "live_view \<Rightarrow> view_entry \<Rightarrow> view_entry" where
  "finish_entry v e =
     (case lv_absorbed v of
        None \<Rightarrow> e
      | Some l \<Rightarrow>
          (if lv_failed_this_round v
           then e\<lparr>vw_frontier := l, vw_last_seq := lv_last_seq v\<rparr>
           else e\<lparr>vw_frontier := l, vw_last_seq := lv_last_seq v, vw_apply_failures := 0,
                 vw_last_error := None\<rparr>))"

definition finish_deltas :: "host \<Rightarrow> live_view \<Rightarrow> delta_entry list \<Rightarrow> delta_entry list" where
  "finish_deltas h v es =
     (if lv_absorbed v = None \<or> lv_pending v = [] then es
      else filter (\<lambda>e. de_seq e > lv_last_seq v - st_retain_deltas (h_settings h))
             (es @ map (delta_entry v) (lv_pending v)))"

lemma finish_entry_id [simp]: "vw_id (finish_entry v e) = vw_id e"
  by (simp add: finish_entry_def split: option.splits)

lemma find_id_finish_view:
  "find_id i (finish_view h v d) =
     (if i = lv_id v then map_option (finish_entry v) (find_id i d) else find_id i d)"
proof -
  have "find_id i (store_view v l d) = (if i = lv_id v
      then map_option (\<lambda>e. if lv_failed_this_round v
           then e\<lparr>vw_frontier := l, vw_last_seq := lv_last_seq v\<rparr>
           else e\<lparr>vw_frontier := l, vw_last_seq := lv_last_seq v, vw_apply_failures := 0,
                 vw_last_error := None\<rparr>) (find_id i d) else find_id i d)" for l
    by (simp add: store_view_def find_id_update_view)
  then show ?thesis
    by (cases "lv_absorbed v"; cases "find_id i d")
      (auto simp: finish_view_def finish_entry_def Let_def insert_deltas_eq collect_garbage_def notify_def
        find_id_def)
qed

lemma deltas_of_steps:
  "deltas_of i (store_view v l d) = deltas_of i d"
  "deltas_of i (notify v p d) = deltas_of i d"
  "deltas_of i (insert_deltas v ps d) =
     deltas_of i d @ (if i = lv_id v then map (delta_entry v) ps else [])"
  "deltas_of i (collect_garbage h v d) =
     (if i = lv_id v
      then filter (\<lambda>e. de_seq e > lv_last_seq v - st_retain_deltas (h_settings h)) (deltas_of i d)
      else deltas_of i d)"
proof -
  show "deltas_of i (insert_deltas v ps d) =
     deltas_of i d @ (if i = lv_id v then map (delta_entry v) ps else [])"
    by (induction ps) (auto simp: insert_deltas_eq deltas_of_def delta_entry_def)
  show "deltas_of i (collect_garbage h v d) =
     (if i = lv_id v
      then filter (\<lambda>e. de_seq e > lv_last_seq v - st_retain_deltas (h_settings h)) (deltas_of i d)
      else deltas_of i d)"
    by (auto simp: deltas_of_def collect_garbage_def not_le intro!: filter_cong)
qed (simp_all add: deltas_of_def store_view_def notify_def)

lemma deltas_of_finish_view:
  "deltas_of i (finish_view h v d) =
     (if i = lv_id v then finish_deltas h v (deltas_of i d) else deltas_of i d)"
  by (cases "lv_absorbed v") (simp_all add: finish_view_def finish_deltas_def Let_def deltas_of_steps)

lemma ids_finish_view: "map vw_id (db_views (finish_view h v d)) = map vw_id (db_views d)"
  by (cases "lv_absorbed v")
    (auto simp: finish_view_def Let_def insert_deltas_eq collect_garbage_def notify_def store_view_def
      ids_update_view)

lemma storage_finish_view [simp]:
  "db_storage (finish_view h v d) = db_storage d"
  "db_slot (finish_view h v d) = db_slot d"
  "db_shadow_rows (finish_view h v d) = db_shadow_rows d"
  by (cases "lv_absorbed v";
      simp add: finish_view_def Let_def insert_deltas_eq collect_garbage_def notify_def store_view_def)+

lemma finish_views_other:
  assumes "i \<notin> lv_id ` set vs"
  shows "find_id i (fold (finish_view h) vs d) = find_id i d"
    and "deltas_of i (fold (finish_view h) vs d) = deltas_of i d"
  using assms
  by (induction vs arbitrary: d) (simp_all add: find_id_finish_view deltas_of_finish_view)

lemma finish_views_nth:
  assumes "v \<in> set vs" and "distinct (map lv_id vs)"
  shows "find_id (lv_id v) (fold (finish_view h) vs d) = map_option (finish_entry v) (find_id (lv_id v) d)"
    and "deltas_of (lv_id v) (fold (finish_view h) vs d) = finish_deltas h v (deltas_of (lv_id v) d)"
  using assms
proof (induction vs arbitrary: d)
  case Nil
  {
    case 1 then show ?case by simp
  next
    case 2 then show ?case by simp
  }
next
  case (Cons w vs)
  {
    case 1
    then show ?case
      using Cons.IH(1) [of "finish_view h w d"] finish_views_other(1) [of "lv_id v" vs h]
      by (cases "w = v") (auto simp: find_id_finish_view image_iff)
  next
    case 2
    then show ?case
      using Cons.IH(2) [of "finish_view h w d"] finish_views_other(2) [of "lv_id v" vs h]
      by (cases "w = v") (auto simp: deltas_of_finish_view image_iff)
  }
qed

lemma fold_finish_simps [simp]:
  "db_storage (fold (finish_view h) vs d) = db_storage d"
  "db_slot (fold (finish_view h) vs d) = db_slot d"
  "db_shadow_rows (fold (finish_view h) vs d) = db_shadow_rows d"
  "map vw_id (db_views (fold (finish_view h) vs d)) = map vw_id (db_views d)"
  by (induction vs arbitrary: d) (simp_all add: ids_finish_view)

lemma finish_shadows_simps [simp]:
  "find_id i (finish_shadows s d) = find_id i d"
  "deltas_of i (finish_shadows s d) = deltas_of i d"
  "db_views (finish_shadows s d) = db_views d"
  "db_storage (finish_shadows s d) = db_storage d"
  "db_slot (finish_shadows s d) = db_slot d"
  "db_shadow_rows (finish_shadows s d) = db_shadow_rows d"
  by (simp_all add: finish_shadows_def find_id_def deltas_of_def)

section \<open>Rounds that succeed\<close>

definition unique_ids :: "db \<Rightarrow> bool" where
  "unique_ids d \<longleftrightarrow> distinct (map vw_id (db_views d))"

lemma find_id_unique: "unique_ids d \<Longrightarrow> e \<in> set (db_views d) \<Longrightarrow> find_id (vw_id e) d = Some e"
proof -
  have "distinct (map vw_id es) \<Longrightarrow> e \<in> set es \<Longrightarrow> find (\<lambda>v. vw_id v = vw_id e) es = Some e" for es
    by (induction es) (auto simp: image_iff)
  then show "unique_ids d \<Longrightarrow> e \<in> set (db_views d) \<Longrightarrow> find_id (vw_id e) d = Some e"
    by (simp add: unique_ids_def find_id_def)
qed

lemma find_idD: "find_id i d = Some e \<Longrightarrow> e \<in> set (db_views d) \<and> vw_id e = i"
  by (auto simp: find_id_def find_Some_iff in_set_conv_nth)

lemma unique_ids_untouched: "untouched d d' \<Longrightarrow> map vw_id (db_views d') = map vw_id (db_views d)"
  by (rule nth_equalityI) (auto simp: untouched_def list_all2_conv_all_nth status_only_def)

lemma find_id_untouched:
  assumes "untouched d d'" and "find_id i d = Some e"
  shows "\<exists>c. find_id i d' = Some c \<and> status_only e c"
proof -
  have "list_all2 status_only es fs \<Longrightarrow> find (\<lambda>v. vw_id v = i) es = Some e \<Longrightarrow>
    \<exists>c. find (\<lambda>v. vw_id v = i) fs = Some c \<and> status_only e c" for es fs
    by (induction es fs rule: list_all2_induct) (auto simp: status_only_def split: if_splits)
  with assms show ?thesis unfolding untouched_def find_id_def by blast
qed

lemma apply_roundE:
  assumes "apply_round h dec txs d = Inr (Inr (dec', st), d')"
  obtains rels rn where "collect_relations h dec txs = Inr (rels, dec')"
    and "rfold (apply_tx h rels) (enumerate 0 txs) (start_round d (round_end txs) rels) = Inr rn"
    and "d' = finish_round h rn" and "rs_blocked_at st = rn_blocked rn"
    and "rs_processed st = length txs" and "rs_deltas st = total_deltas (rn_views rn)"
  using assms
  by (auto simp: apply_round_def rbind_Inr_iff split: if_splits sum.splits prod.splits)

lemma tracked_ids: "list_all2 tracks es vs \<Longrightarrow> map lv_id vs = map vw_id es"
  by (rule nth_equalityI) (auto simp: list_all2_conv_all_nth tracks_def)

text \<open>
  The round seen from one loaded view: its final state in memory, its catalog row before the end of
  the round, and what the end of the round makes of them.
\<close>

lemma round_view:
  assumes "rfold (apply_tx h rels) itxs (start_round d end_lsn rels) = Inr rn"
    and "unique_ids d" and "e \<in> set (loaded_entries d)"
  obtains v c where "v \<in> set (rn_views rn)" and "tracks e v" and "status_only e c"
    and "find_id (vw_id e) (rn_db rn) = Some c"
    and "find_id (vw_id e) (finish_round h rn) = Some (finish_entry v c)"
    and "deltas_of (vw_id e) (finish_round h rn) = finish_deltas h v (deltas_of (vw_id e) d)"
    and "distinct (map lv_id (rn_views rn))"
proof -
  have all: "list_all2 tracks (loaded_entries d) (rn_views rn)"
    using assms(1) by (rule tracked.end_of_round)
  have dist: "distinct (map lv_id (rn_views rn))"
    using assms(2) tracked_ids [OF all] by (simp add: unique_ids_def loaded_entries_def distinct_map_filter)
  obtain v where v: "v \<in> set (rn_views rn)" "tracks e v"
    using assms(3) all by (metis in_set_conv_nth list_all2_conv_all_nth)
  have id: "lv_id v = vw_id e" using v(2) by (simp add: tracks_def)
  have u: "untouched d (rn_db rn)" using assms(1) by (rule round_untouched)
  have "find_id (vw_id e) d = Some e"
    using assms(2,3) find_id_unique by (auto simp: loaded_entries_def)
  then obtain c where c: "find_id (vw_id e) (rn_db rn) = Some c" "status_only e c"
    using find_id_untouched [OF u] by blast
  have "deltas_of (vw_id e) (rn_db rn) = deltas_of (vw_id e) d"
    using u by (simp add: untouched_def deltas_of_def)
  then show thesis
    using that [OF v c(2,1)] finish_views_nth [OF v(1) dist, of h "rn_db rn"] id c(1) dist
    by (simp add: finish_round_def)
qed

lemma finish_round_other:
  assumes "rfold (apply_tx h rels) itxs (start_round d end_lsn rels) = Inr rn"
    and "unique_ids d" and "find_id i d = Some e" and "\<not> loaded e"
  shows "find_id i (finish_round h rn) = find_id i (rn_db rn)"
    and "deltas_of i (finish_round h rn) = deltas_of i d"
proof -
  have all: "list_all2 tracks (loaded_entries d) (rn_views rn)"
    using assms(1) by (rule tracked.end_of_round)
  have "i \<notin> vw_id ` set (loaded_entries d)"
  proof
    assume "i \<in> vw_id ` set (loaded_entries d)"
    then obtain f where f: "f \<in> set (db_views d)" "loaded f" "vw_id f = i" by (auto simp: loaded_entries_def)
    with find_id_unique [OF assms(2) f(1)] assms(3,4) show False by simp
  qed
  then have "i \<notin> lv_id ` set (rn_views rn)" using tracked_ids [OF all] by (metis set_map)
  moreover have "deltas_of i (rn_db rn) = deltas_of i d"
    using round_untouched [OF assms(1)] by (simp add: untouched_def deltas_of_def)
  ultimately show "find_id i (finish_round h rn) = find_id i (rn_db rn)"
    "deltas_of i (finish_round h rn) = deltas_of i d"
    by (simp_all add: finish_round_def finish_views_other)
qed

end
