(* ===== verification/Round_Properties.thy ===== *)
theory Round_Properties
  imports Round_Log Example_Pg
begin

text \<open>
  The properties of \<open>apply_round\<close>: a failed round changes nothing, the delta log stays contiguous,
  frontiers and logs only grow, replayed transactions are skipped, the slot is held before the
  first transaction a live view missed, and one view's failure does not reach another view.
\<close>

section \<open>The delta log\<close>

text \<open>
  The log of a view: consecutive sequence numbers ending in \<open>last_seq\<close>, LSNs in order, none beyond
  the frontier.
\<close>

definition log_ok :: "view_entry \<Rightarrow> delta_entry list \<Rightarrow> bool" where
  "log_ok v es \<longleftrightarrow>
     map de_seq es = [vw_last_seq v + 1 - int (length es) .. vw_last_seq v] \<and>
     sorted (map de_lsn es) \<and> (\<forall>e \<in> set es. de_lsn e \<le> vw_frontier v)"

definition catalog_ok :: "db \<Rightarrow> bool" where
  "catalog_ok d \<longleftrightarrow> unique_ids d \<and> (\<forall>v \<in> set (db_views d). log_ok v (deltas_of (vw_id v) d))"

lemma filter_upto: "filter (\<lambda>x. x > k) [a .. b] = [max a (k + 1) .. b]"
proof (induction "nat (b + 1 - a)" arbitrary: a)
  case 0
  then show ?case by simp
next
  case (Suc n)
  then have "filter (\<lambda>x. x > k) [a + 1 .. b] = [max (a + 1) (k + 1) .. b]" by simp
  with Suc(2) show ?case by (auto simp: upto_rec1 max_def intro!: arg_cong [where f = "\<lambda>x. [x .. b]"])
qed

lemma upto_interval_length:
  "map f es = [a .. b] \<Longrightarrow> map f es = [b + 1 - int (length es) .. b]"
proof -
  assume u: "map f es = [a .. b]"
  then have "length es = nat (b - a + 1)" by (metis length_map length_upto)
  with u show ?thesis by (cases "a \<le> b") auto
qed

lemma log_ok_filter:
  assumes "log_ok v es"
  shows "log_ok v (filter (\<lambda>e. de_seq e > k) es)"
proof -
  have "map de_seq (filter (\<lambda>e. de_seq e > k) es) = filter (\<lambda>x. x > k) (map de_seq es)"
    by (simp add: filter_map comp_def)
  also have "\<dots> = [max (vw_last_seq v + 1 - int (length es)) (k + 1) .. vw_last_seq v]"
    using assms by (simp add: log_ok_def filter_upto)
  finally have "map de_seq (filter (\<lambda>e. de_seq e > k) es) =
      [vw_last_seq v + 1 - int (length (filter (\<lambda>e. de_seq e > k) es)) .. vw_last_seq v]"
    by (rule upto_interval_length)
  moreover have "sorted (map de_lsn (filter (\<lambda>e. de_seq e > k) es))"
    using assms by (simp add: log_ok_def sorted_filter)
  ultimately show ?thesis using assms by (simp add: log_ok_def)
qed

lemma log_ok_finish:
  assumes "log_ok e es" and "tracks e v" and "status_only e c"
  shows "log_ok (finish_entry v c) (finish_deltas h v es)"
proof (cases "lv_absorbed v")
  case None
  with assms show ?thesis
    by (simp add: finish_entry_def finish_deltas_def log_ok_def status_only_def)
next
  case (Some l)
  let ?w = "finish_entry v c" and ?new = "map (delta_entry v) (lv_pending v)"
  have t: "vw_frontier e < l" "map pd_seq (lv_pending v) = [vw_last_seq e + 1 .. lv_last_seq v]"
    "sorted (map pd_lsn (lv_pending v))" "vw_last_seq e \<le> lv_last_seq v"
    "\<forall>p \<in> set (lv_pending v). vw_frontier e < pd_lsn p \<and> pd_lsn p \<le> l"
    using assms(2) Some by (simp_all add: tracks_def)
  have w: "vw_last_seq ?w = lv_last_seq v" "vw_frontier ?w = l"
    using Some by (simp_all add: finish_entry_def)
  have new: "map de_seq ?new = [vw_last_seq e + 1 .. lv_last_seq v]" "map de_lsn ?new = map pd_lsn (lv_pending v)"
    using t(2) by (simp_all add: delta_entry_def comp_def)
  have "map de_seq (es @ ?new) = [vw_last_seq e + 1 - int (length es) .. lv_last_seq v]"
    using assms(1) new(1) upto_append [of "vw_last_seq e + 1 - int (length es)" "vw_last_seq e" "lv_last_seq v"] t(4)
    by (simp add: log_ok_def)
  then have "map de_seq (es @ ?new) = [lv_last_seq v + 1 - int (length (es @ ?new)) .. lv_last_seq v]"
    by (rule upto_interval_length)
  moreover have "sorted (map de_lsn (es @ ?new))"
  proof -
    have "sorted (map de_lsn ?new)" using t(3) new(2) by (simp only:)
    moreover have "de_lsn x \<le> de_lsn y" if "x \<in> set es" "y \<in> set ?new" for x y
    proof -
      have "de_lsn x \<le> vw_frontier e" using assms(1) that(1) by (simp add: log_ok_def)
      also have "vw_frontier e < de_lsn y" using t(5) that(2) by (auto simp: delta_entry_def)
      finally show ?thesis by simp
    qed
    ultimately show ?thesis using assms(1) unfolding log_ok_def map_append sorted_append by auto
  qed
  moreover have "\<forall>x \<in> set (es @ ?new). de_lsn x \<le> l"
    using assms(1) t(1,5) by (auto simp: log_ok_def delta_entry_def intro: order_trans less_imp_le)
  ultimately have all: "log_ok ?w (es @ ?new)" using w by (simp add: log_ok_def)
  show ?thesis
  proof (cases "lv_pending v = []")
    case True
    with all Some show ?thesis by (simp add: finish_deltas_def)
  next
    case False
    with Some log_ok_filter [OF all] show ?thesis by (simp add: finish_deltas_def del: filter_append)
  qed
qed

lemma unique_ids_finish:
  assumes "rfold (apply_tx h rels) itxs (start_round d end_lsn rels) = Inr rn"
  shows "map vw_id (db_views (finish_round h rn)) = map vw_id (db_views d)"
  using unique_ids_untouched [OF round_untouched [OF assms]] by (simp add: finish_round_def)

text \<open>A row of the catalog after the round comes from a row before it.\<close>

lemma find_id_before:
  assumes "map vw_id (db_views d') = map vw_id (db_views d)" and "find_id i d' = Some e'"
  obtains e where "find_id i d = Some e"
proof -
  have "i \<in> set (map vw_id (db_views d))" using find_idD [OF assms(2)] assms(1) by (metis image_eqI list.set_map)
  then have "find_id i d \<noteq> None" by (auto simp: find_id_def find_None_iff)
  with that show thesis by auto
qed

lemma log_round:
  assumes r: "rfold (apply_tx h rels) itxs (start_round d end_lsn rels) = Inr rn" and ok: "catalog_ok d"
  shows "catalog_ok (finish_round h rn)"
proof -
  have ids: "map vw_id (db_views (finish_round h rn)) = map vw_id (db_views d)" using r by (rule unique_ids_finish)
  have u: "unique_ids d" "unique_ids (finish_round h rn)"
    using ok ids by (simp_all add: catalog_ok_def unique_ids_def)
  have "log_ok w (deltas_of (vw_id w) (finish_round h rn))" if w: "w \<in> set (db_views (finish_round h rn))" for w
  proof -
    have fw: "find_id (vw_id w) (finish_round h rn) = Some w" using u(2) w by (rule find_id_unique)
    then obtain e where e: "find_id (vw_id w) d = Some e" using find_id_before [OF ids] by blast
    then have id: "vw_id e = vw_id w" and mem: "e \<in> set (db_views d)" using find_idD by auto
    have log: "log_ok e (deltas_of (vw_id w) d)" using ok mem id by (auto simp: catalog_ok_def)
    show ?thesis
    proof (cases "loaded e")
      case True
      then have "e \<in> set (loaded_entries d)" using mem by (simp add: loaded_entries_def)
      then obtain v c where "tracks e v" "status_only e c"
        "find_id (vw_id e) (finish_round h rn) = Some (finish_entry v c)"
        "deltas_of (vw_id e) (finish_round h rn) = finish_deltas h v (deltas_of (vw_id e) d)"
        using round_view [OF r u(1)] by blast
      with log fw id log_ok_finish show ?thesis by auto
    next
      case False
      from find_id_untouched [OF round_untouched [OF r] e] finish_round_other [OF r u(1) e False] fw
      have "status_only e w" by auto
      with log finish_round_other(2) [OF r u(1) e False] show ?thesis
        by (simp add: log_ok_def status_only_def)
    qed
  qed
  with u(2) show ?thesis by (simp add: catalog_ok_def)
qed

section \<open>Frontier, slot and storage\<close>

text \<open>
  After \<open>k\<close> transactions a view of the round is in one of three states: it went stale, it failed and
  reflects everything before the first failure, or it reflects all of them.
\<close>

definition safe_view :: "source_transaction list \<Rightarrow> nat \<Rightarrow> round \<Rightarrow> live_view \<Rightarrow> bool" where
  "safe_view txs k rn v \<longleftrightarrow>
     (\<exists>c. lv_dead v \<and> find_id (lv_id v) (rn_db rn) = Some c \<and> \<not> live c) \<or>
     (\<exists>m. lv_dead v \<and> rn_blocked rn = Some m \<and> (\<forall>i < m. tx_end_lsn (txs ! i) \<le> lv_frontier v)) \<or>
     (\<not> lv_dead v \<and> (\<forall>i < k. tx_end_lsn (txs ! i) \<le> lv_frontier v))"

definition safe_round :: "source_transaction list \<Rightarrow> nat \<Rightarrow> round \<Rightarrow> bool" where
  "safe_round txs k rn \<longleftrightarrow>
     distinct (map lv_id (rn_views rn)) \<and>
     (\<forall>m. rn_blocked rn = Some m \<longrightarrow> m < k) \<and>
     (\<forall>v \<in> set (rn_views rn). find_id (lv_id v) (rn_db rn) \<noteq> None \<and> safe_view txs k rn v)"

lemma fail_view_state:
  assumes "fail_view h ti v message (d, b) = (v', d', b')" and "find_id (lv_id v) d = Some c"
  shows "lv_dead v' \<and> lv_frontier v' = lv_frontier v \<and>
    (\<exists>c'. find_id (lv_id v) d' = Some c' \<and> (\<not> live c' \<or> (b' \<noteq> None \<and> later ti b b')))"
  using assms
  by (auto simp: fail_view_def record_failure_def Let_def find_id_update_view live_def later_def split: if_splits)

lemma execute_view_state:
  assumes "execute_view h ti tx v (d, b) = (v', d', b')" and "find_id (lv_id v) d = Some c"
  shows "\<exists>c'. find_id (lv_id v) d' = Some c' \<and>
    (if lv_dead v \<or> tx_end_lsn tx \<le> lv_frontier v then v' = v \<and> c' = c
     else (lv_dead v' \<and> lv_frontier v' = lv_frontier v \<and> (\<not> live c' \<or> (b' \<noteq> None \<and> later ti b b'))) \<or>
          (\<not> lv_dead v' \<and> lv_frontier v' = tx_end_lsn tx))"
proof -
  have fail: "\<exists>c'. find_id (lv_id v) d' = Some c' \<and> lv_dead v' \<and> lv_frontier v' = lv_frontier v \<and>
      (\<not> live c' \<or> (b' \<noteq> None \<and> later ti b b'))"
    if "fail_view h ti w message (d, b) = (v', d', b')" "lv_id w = lv_id v" "lv_frontier w = lv_frontier v"
    for w message
    using fail_view_state [OF that(1), of c] that assms(2) by auto
  have stale: "find_id (lv_id v) (mark_stale v r d) =
      Some (c\<lparr>vw_status := ''stale'', vw_stale_reason := Some r\<rparr>)" for r
    using assms(2) by (simp add: mark_stale_def find_id_update_view)
  have ok: "find_id (lv_id v) (d\<lparr>db_storage := s\<rparr>) = Some c" for s
    using assms(2) by (simp add: find_id_def)
  show ?thesis
  proof (cases "lv_dead v \<or> tx_end_lsn tx \<le> lv_frontier v")
    case True
    with assms show ?thesis by (auto simp: execute_view_def)
  next
    case False
    show ?thesis
    proof (cases "lv_stale v")
      case (Some r)
      with False assms(1) stale [of r] show ?thesis by (auto simp: execute_view_def live_def)
    next
      case None
      show ?thesis
      proof (cases "lv_failed v")
        case (Some m)
        with False assms(1) \<open>lv_stale v = None\<close> have "fail_view h ti (v\<lparr>lv_failed := None\<rparr>) m (d, b) = (v', d', b')"
          by (simp add: execute_view_def)
        from fail [OF this] False show ?thesis by auto
      next
        case None
        show ?thesis
        proof (cases "execute (h_pg h) (lv_spec v) (lv_ops v) (storage d (lv_id v))")
          case (Inl m)
          with False assms(1) \<open>lv_stale v = None\<close> None
          have "fail_view h ti (v\<lparr>lv_ops := []\<rparr>) m (d, b) = (v', d', b')"
            by (simp add: execute_view_def)
          from fail [OF this] False show ?thesis by auto
        next
          case (Inr r)
          with False assms(1) \<open>lv_stale v = None\<close> None ok show ?thesis
            by (cases r) (auto simp: execute_view_def absorb_def)
        qed
      qed
    qed
  qed
qed

lemma safe_round_step:
  assumes "safe_round txs k rn" and "apply_tx h rels (k, txs ! k) rn = Inr rn'"
  shows "safe_round txs (Suc k) rn'"
proof -
  let ?tx = "txs ! k"
  have dist: "distinct (map lv_id (rn_views rn))" and blk: "\<And>m. rn_blocked rn = Some m \<Longrightarrow> m < k"
    and views: "\<And>v. v \<in> set (rn_views rn) \<Longrightarrow> find_id (lv_id v) (rn_db rn) \<noteq> None \<and> safe_view txs k rn v"
    using assms(1) by (auto simp: safe_round_def)
  have ids: "map lv_id (rn_views rn') = map lv_id (rn_views rn)" using assms(2) by (rule apply_tx_ids)
  have later: "later k (rn_blocked rn) (rn_blocked rn')"
  proof -
    obtain mid vs d b where "plan_tx h rels ?tx rn = Inr mid"
      "execute_views h k ?tx (rn_views mid) (rn_db mid, rn_blocked mid) = (vs, d, b)"
      "rn_blocked rn' = b"
      using assms(2) by (rule apply_txE) auto
    with execute_views_others(2) plan_tx_tables show ?thesis unfolding same_tables_def by metis
  qed
  have blk': "m < Suc k" if "rn_blocked rn' = Some m" for m
    using later that blk by (auto simp: later_def intro: less_SucI)
  have "find_id (lv_id v') (rn_db rn') \<noteq> None \<and> safe_view txs (Suc k) rn' v'" if mem: "v' \<in> set (rn_views rn')" for v'
  proof -
    obtain j where j': "j < length (rn_views rn')" "v' = rn_views rn' ! j"
      using mem unfolding in_set_conv_nth by blast
    then have j: "j < length (rn_views rn)" "v' = rn_views rn' ! j"
      using arg_cong [OF ids, of length] by simp_all
    let ?v = "rn_views rn ! j"
    obtain w d0 b0 d1 b1 where pl: "planned_from ?v w" and ex: "execute_view h k ?tx w (d0, b0) = (v', d1, b1)"
      and s: "same_slice (lv_id w) (rn_db rn) d0" "same_slice (lv_id w) d1 (rn_db rn')"
      and l: "later k (rn_blocked rn) b0" "later k b1 (rn_blocked rn')"
      using apply_tx_nth [OF assms(2) dist j(1)] j(2) by blast
    have v: "find_id (lv_id ?v) (rn_db rn) \<noteq> None" "safe_view txs k rn ?v" using views [of ?v] j(1) by simp_all
    have w: "lv_id w = lv_id ?v" "lv_frontier w = lv_frontier ?v" "lv_dead w = lv_dead ?v"
      using pl by (simp_all add: planned_from_def same_track_def)
    have id': "lv_id v' = lv_id w" using execute_view_others(3) [OF ex] .
    obtain c where c: "find_id (lv_id w) d0 = Some c" "find_id (lv_id w) (rn_db rn) = Some c"
      using v(1) w(1) s(1) by (auto simp: same_slice_def)
    obtain c' where c': "find_id (lv_id w) d1 = Some c'" and
      st: "if lv_dead w \<or> tx_end_lsn ?tx \<le> lv_frontier w then v' = w \<and> c' = c
        else (lv_dead v' \<and> lv_frontier v' = lv_frontier w \<and> (\<not> live c' \<or> (b1 \<noteq> None \<and> later k b0 b1))) \<or>
          (\<not> lv_dead v' \<and> lv_frontier v' = tx_end_lsn ?tx)"
      using execute_view_state [OF ex c(1)] by blast
    have db': "find_id (lv_id v') (rn_db rn') = Some c'" using c' s(2) id' by (simp add: same_slice_def)
    have "safe_view txs (Suc k) rn' v'"
    proof (cases "lv_dead w \<or> tx_end_lsn ?tx \<le> lv_frontier w")
      case True
      with st have eq: "v' = w" "c' = c" by simp_all
      show ?thesis
      proof (cases "lv_dead w")
        case True
        with v(2) w c(2) have "\<not> live c \<or> (\<exists>m. rn_blocked rn = Some m \<and> (\<forall>i < m. tx_end_lsn (txs ! i) \<le> lv_frontier w))"
          by (auto simp: safe_view_def)
        with True eq db' later show ?thesis by (auto simp: safe_view_def later_def)
      next
        case False
        with v(2) w True have "\<forall>i < k. tx_end_lsn (txs ! i) \<le> lv_frontier w" "tx_end_lsn ?tx \<le> lv_frontier w"
          by (auto simp: safe_view_def)
        with False eq show ?thesis by (auto simp: safe_view_def less_Suc_eq)
      qed
    next
      case False
      then have old: "\<forall>i < k. tx_end_lsn (txs ! i) \<le> lv_frontier w" using v(2) w by (auto simp: safe_view_def)
      from False st consider
          (dead) "lv_dead v'" "lv_frontier v' = lv_frontier w" "\<not> live c' \<or> (b1 \<noteq> None \<and> later k b0 b1)"
        | (ok) "\<not> lv_dead v'" "lv_frontier v' = tx_end_lsn ?tx" by auto
      then show ?thesis
      proof cases
        case dead
        have "\<exists>m. rn_blocked rn' = Some m \<and> m \<le> k" if "b1 \<noteq> None"
          using that l(2) blk' by (auto simp: later_def less_Suc_eq_le)
        with dead old db' show ?thesis by (auto simp: safe_view_def)
      next
        case ok
        have "tx_end_lsn (txs ! i) \<le> tx_end_lsn ?tx" if "i < k" for i
          using old that False by (auto intro: order_trans less_imp_le)
        with ok show ?thesis by (auto simp: safe_view_def less_Suc_eq)
      qed
    qed
    with db' show ?thesis by simp
  qed
  with ids dist blk' show ?thesis by (auto simp: safe_round_def)
qed

lemma safe_round_start:
  assumes "unique_ids d"
  shows "safe_round txs 0 (start_round d end_lsn rels)"
proof -
  let ?rn = "start_round d end_lsn rels"
  have all: "list_all2 tracks (loaded_entries d) (rn_views ?rn)" by (rule tracked.start)
  have "list_all2 planned_from (load_live_views d) (rn_views ?rn)" by (rule start_views)
  moreover have "\<forall>v \<in> set (load_live_views d). \<not> lv_dead v"
    by (auto simp: load_live_views_map loaded_entries_def loaded_def load_live_view_def)
  ultimately have alive: "\<forall>v \<in> set (rn_views ?rn). \<not> lv_dead v"
    by (fastforce simp: list_all2_conv_all_nth in_set_conv_nth planned_from_def)
  have "find_id (lv_id v) (rn_db ?rn) \<noteq> None" if v: "v \<in> set (rn_views ?rn)" for v
  proof -
    obtain e where e: "e \<in> set (loaded_entries d)" "tracks e v"
      using all v by (metis in_set_conv_nth list_all2_conv_all_nth)
    then have "find_id (lv_id v) d = Some e"
      using find_id_unique [OF assms, of e] by (simp add: tracks_def loaded_entries_def)
    then show ?thesis by (simp add: find_id_def start_round_tables)
  qed
  moreover have "distinct (map lv_id (rn_views ?rn))"
    using assms tracked_ids [OF all] by (simp add: unique_ids_def loaded_entries_def distinct_map_filter)
  ultimately show ?thesis
    using alive by (auto simp: safe_round_def safe_view_def start_round_tables)
qed

lemma safe_round_end:
  assumes "unique_ids d"
    and "rfold (apply_tx h rels) (enumerate 0 txs) (start_round d end_lsn rels) = Inr rn"
  shows "safe_round txs (length txs) rn"
  using rfold_enumerate_invariant [OF assms(2), of "safe_round txs"] safe_round_start [OF assms(1)]
    safe_round_step by simp

lemma slot_safe_round:
  assumes u: "unique_ids d"
    and r: "rfold (apply_tx h rels) (enumerate 0 txs) (start_round d end_lsn rels) = Inr rn"
    and e': "find_id i (finish_round h rn) = Some e'" "live e'" "vw_spec e' \<noteq> None"
    and j: "j < (case rn_blocked rn of None \<Rightarrow> length txs | Some k \<Rightarrow> k)"
  shows "tx_end_lsn (txs ! j) \<le> vw_frontier e'"
proof -
  obtain e where e: "find_id i d = Some e" using find_id_before [OF unique_ids_finish [OF r]] e'(1) by blast
  have l: "loaded e"
  proof (rule ccontr)
    assume n: "\<not> loaded e"
    from find_id_untouched [OF round_untouched [OF r] e] finish_round_other(1) [OF r u e n] e'(1)
    have "status_only e e'" by auto
    with e' n show False by (auto simp: status_only_def loaded_def live_def)
  qed
  have id: "vw_id e = i" using find_idD [OF e] by simp
  have "e \<in> set (loaded_entries d)" using find_idD [OF e] l by (simp add: loaded_entries_def)
  then obtain v c where v: "v \<in> set (rn_views rn)" "tracks e v" "find_id i (rn_db rn) = Some c"
    and w: "e' = finish_entry v c" and so: "status_only e c"
    using round_view [OF r u] id e'(1) by (metis option.inject)
  have lc: "live c" using e'(2) w by (simp add: live_def finish_entry_def split: option.splits if_splits)
  have fr: "vw_frontier e' = lv_frontier v"
    using v(2) so w by (auto simp: tracks_def finish_entry_def status_only_def split: option.splits)
  have "safe_view txs (length txs) rn v" using safe_round_end [OF u r] v(1) by (simp add: safe_round_def)
  moreover have "lv_id v = i" using v(2) id by (simp add: tracks_def)
  moreover have "\<forall>m. rn_blocked rn = Some m \<longrightarrow> m < length txs" using safe_round_end [OF u r] by (simp add: safe_round_def)
  ultimately show ?thesis using v(3) lc j fr by (auto simp: safe_view_def split: option.splits)
qed


section \<open>A view that absorbed nothing keeps its storage table\<close>

lemma execute_view_storage:
  assumes "execute_view h ti tx v (d, b) = (v', d', b')"
  shows "lv_absorbed v' = lv_absorbed v \<and> db_storage d' (lv_id v) = db_storage d (lv_id v) \<or> lv_absorbed v' \<noteq> None"
proof -
  have fail: "lv_absorbed v' = lv_absorbed v \<and> db_storage d' = db_storage d"
    if "fail_view h ti w m (d, b) = (v', d', b')" "lv_absorbed w = lv_absorbed v" for w m
    using same_track_fail [OF that(1)] fail_view_others(4) [OF that(1)] that(2) by (simp add: same_track_def)
  show ?thesis
    using assms fail [of "v\<lparr>lv_failed := None\<rparr>"] fail [of "v\<lparr>lv_ops := []\<rparr>"]
    by (auto simp: execute_view_def absorb_def mark_stale_def split: if_splits option.splits sum.splits)
qed

definition storage_kept :: "db \<Rightarrow> round \<Rightarrow> bool" where
  "storage_kept d rn \<longleftrightarrow>
     distinct (map lv_id (rn_views rn)) \<and>
     (\<forall>v \<in> set (rn_views rn). lv_absorbed v = None \<longrightarrow> db_storage (rn_db rn) (lv_id v) = db_storage d (lv_id v)) \<and>
     (\<forall>i. i \<notin> lv_id ` set (rn_views rn) \<longrightarrow> db_storage (rn_db rn) i = db_storage d i)"

lemma storage_kept_step:
  assumes "storage_kept d rn" and "apply_tx h rels (ti, tx) rn = Inr rn'"
  shows "storage_kept d rn'"
proof -
  have dist: "distinct (map lv_id (rn_views rn))" using assms(1) by (simp add: storage_kept_def)
  have ids: "map lv_id (rn_views rn') = map lv_id (rn_views rn)" using assms(2) by (rule apply_tx_ids)
  have "db_storage (rn_db rn') (lv_id v') = db_storage d (lv_id v')"
    if mem: "v' \<in> set (rn_views rn')" and none: "lv_absorbed v' = None" for v'
  proof -
    obtain j where j': "j < length (rn_views rn')" "v' = rn_views rn' ! j"
      using mem unfolding in_set_conv_nth by blast
    then have j: "j < length (rn_views rn)" using arg_cong [OF ids, of length] by simp
    obtain w d0 b0 d1 b1 where pl: "planned_from (rn_views rn ! j) w"
      and ex: "execute_view h ti tx w (d0, b0) = (v', d1, b1)"
      and s: "same_slice (lv_id w) (rn_db rn) d0" "same_slice (lv_id w) d1 (rn_db rn')"
      unfolding j'(2) by (rule apply_tx_nth [OF assms(2) dist j])
    have w: "lv_id w = lv_id (rn_views rn ! j)" "lv_absorbed w = lv_absorbed (rn_views rn ! j)"
      using pl by (simp_all add: planned_from_def same_track_def)
    have "lv_absorbed w = None" "db_storage d1 (lv_id w) = db_storage d0 (lv_id w)"
      using execute_view_storage [OF ex] none by auto
    moreover have "db_storage (rn_db rn) (lv_id w) = db_storage d (lv_id w)"
      using assms(1) w \<open>lv_absorbed w = None\<close> j by (simp add: storage_kept_def)
    ultimately show ?thesis
      using s execute_view_others(3) [OF ex] by (simp add: same_slice_def)
  qed
  moreover have "db_storage (rn_db rn') i = db_storage d i" if i: "i \<notin> lv_id ` set (rn_views rn')" for i
  proof -
    obtain mid vs e b where m: "plan_tx h rels tx rn = Inr mid"
      and x: "execute_views h ti tx (rn_views mid) (rn_db mid, rn_blocked mid) = (vs, e, b)" and r: "rn_db rn' = e"
      using assms(2) by (elim apply_txE) simp
    have "i \<notin> lv_id ` set (rn_views rn)" "i \<notin> lv_id ` set (rn_views mid)"
      using i arg_cong [OF ids, of set] arg_cong [OF planned_ids [OF plan_tx_views [OF m]], of set] by simp_all
    then show ?thesis
      using execute_views_others(1) [OF x] plan_tx_tables [OF m] assms(1) r
      by (simp add: storage_kept_def same_slice_def same_tables_def)
  qed
  ultimately show ?thesis using dist ids by (simp add: storage_kept_def)
qed

lemma storage_kept_round:
  assumes "unique_ids d"
    and "rfold (apply_tx h rels) itxs (start_round d end_lsn rels) = Inr rn"
  shows "storage_kept d rn"
proof (rule rfold_invariant [OF assms(2)])
  have "list_all2 tracks (loaded_entries d) (rn_views (start_round d end_lsn rels))" by (rule tracked.start)
  then have "distinct (map lv_id (rn_views (start_round d end_lsn rels)))"
    using assms(1) tracked_ids by (fastforce simp: unique_ids_def loaded_entries_def distinct_map_filter)
  then show "storage_kept d (start_round d end_lsn rels)"
    by (simp add: storage_kept_def start_round_tables)
next
  show "storage_kept d s \<Longrightarrow> apply_tx h rels x s = Inr t \<Longrightarrow> storage_kept d t" for x s t
    by (cases x) (simp add: storage_kept_step)
qed

section \<open>Progress of one view\<close>

lemma filter_upto_length: "0 \<le> k \<Longrightarrow> map f es = [a .. b] \<Longrightarrow> int (length (filter (\<lambda>e. f e > b - k) es)) \<le> k"
proof -
  assume k: "0 \<le> k" and m: "map f es = [a .. b]"
  have "map f (filter (\<lambda>e. f e > b - k) es) = filter (\<lambda>x. x > b - k) [a .. b]"
    by (simp add: m [symmetric] filter_map comp_def)
  then have "length (filter (\<lambda>e. f e > b - k) es) = length [max a (b - k + 1) .. b]"
    by (metis filter_upto length_map)
  moreover have "int (nat (b - max a (b - k + 1) + 1)) \<le> k"
    using k by (cases "a \<le> b - k + 1") (simp_all add: max_def)
  ultimately show ?thesis by simp
qed

text \<open>How a catalog row and its log may change in a round.\<close>

definition progressed :: "int \<Rightarrow> view_entry \<Rightarrow> delta_entry list \<Rightarrow> view_entry \<Rightarrow> delta_entry list \<Rightarrow> bool" where
  "progressed retain e es e' es' \<longleftrightarrow>
     vw_frontier e \<le> vw_frontier e' \<and> vw_last_seq e \<le> vw_last_seq e' \<and>
     vw_epoch e' = vw_epoch e \<and> vw_spec e' = vw_spec e \<and> vw_name e' = vw_name e \<and>
     (vw_status e' = vw_status e \<or> vw_status e' = ''stale'') \<and>
     (vw_frontier e' = vw_frontier e \<longrightarrow> es' = es \<and> vw_last_seq e' = vw_last_seq e) \<and>
     (\<exists>new. map de_seq new = [vw_last_seq e + 1 .. vw_last_seq e'] \<and>
        (\<forall>n \<in> set new. vw_frontier e < de_lsn n \<and> de_lsn n \<le> vw_frontier e') \<and>
        es' = (if new = [] then es else filter (\<lambda>x. de_seq x > vw_last_seq e' - retain) (es @ new)))"

lemma progressed_same: "status_only e c \<Longrightarrow> progressed k e es c es"
  by (auto simp: progressed_def status_only_def intro!: exI [of _ "[]"])

lemma progressed_finish:
  assumes "tracks e v" and "status_only e c"
  shows "progressed (st_retain_deltas (h_settings h)) e es (finish_entry v c) (finish_deltas h v es)"
proof (cases "lv_absorbed v")
  case None
  with assms(2) progressed_same show ?thesis by (simp add: finish_entry_def finish_deltas_def)
next
  case (Some l)
  let ?w = "finish_entry v c" and ?new = "map (delta_entry v) (lv_pending v)"
  have t: "vw_frontier e < l" "map pd_seq (lv_pending v) = [vw_last_seq e + 1 .. lv_last_seq v]"
    "vw_last_seq e \<le> lv_last_seq v"
    "\<forall>p \<in> set (lv_pending v). vw_frontier e < pd_lsn p \<and> pd_lsn p \<le> l"
    using assms(1) Some by (simp_all add: tracks_def)
  have w: "vw_last_seq ?w = lv_last_seq v" "vw_frontier ?w = l" "vw_epoch ?w = vw_epoch e"
    "vw_spec ?w = vw_spec e" "vw_name ?w = vw_name e"
    "vw_status ?w = vw_status e \<or> vw_status ?w = ''stale''"
    using Some assms(2) by (auto simp: finish_entry_def status_only_def)
  have new: "map de_seq ?new = [vw_last_seq e + 1 .. lv_last_seq v]"
    "\<forall>n \<in> set ?new. vw_frontier e < de_lsn n \<and> de_lsn n \<le> l"
    using t by (auto simp: delta_entry_def comp_def)
  moreover have "finish_deltas h v es =
      (if ?new = [] then es else filter (\<lambda>x. de_seq x > lv_last_seq v - st_retain_deltas (h_settings h)) (es @ ?new))"
    using Some by (simp add: finish_deltas_def)
  ultimately show ?thesis
    unfolding progressed_def using w t(1,3) by (intro conjI exI [of _ ?new]) auto
qed

lemma round_entry:
  assumes r: "rfold (apply_tx h rels) itxs (start_round d end_lsn rels) = Inr rn"
    and u: "unique_ids d" and e: "find_id i d = Some e"
  shows "\<exists>e'. find_id i (finish_round h rn) = Some e' \<and>
    progressed (st_retain_deltas (h_settings h)) e (deltas_of i d) e' (deltas_of i (finish_round h rn)) \<and>
    (vw_frontier e' = vw_frontier e \<longrightarrow> db_storage (finish_round h rn) i = db_storage d i)"
proof -
  have id: "vw_id e = i" and mem: "e \<in> set (db_views d)" using find_idD [OF e] by simp_all
  have st: "db_storage (finish_round h rn) = db_storage (rn_db rn)" by (simp add: finish_round_def)
  have kept: "storage_kept d rn" using u r by (rule storage_kept_round)
  show ?thesis
  proof (cases "loaded e")
    case True
    then have "e \<in> set (loaded_entries d)" using mem by (simp add: loaded_entries_def)
    then obtain v c where v: "v \<in> set (rn_views rn)" "tracks e v" "status_only e c"
      "find_id i (finish_round h rn) = Some (finish_entry v c)"
      "deltas_of i (finish_round h rn) = finish_deltas h v (deltas_of i d)"
      using round_view [OF r u] id by metis
    have "db_storage (rn_db rn) i = db_storage d i" if "vw_frontier (finish_entry v c) = vw_frontier e"
    proof -
      have "lv_absorbed v = None"
        using that v(2) by (auto simp: tracks_def finish_entry_def split: option.splits if_splits)
      moreover have "lv_id v = i" using v(2) id by (simp add: tracks_def)
      ultimately show ?thesis using kept v(1) by (auto simp: storage_kept_def)
    qed
    with v st progressed_finish [OF v(2,3)] show ?thesis by auto
  next
    case False
    from find_id_untouched [OF round_untouched [OF r] e] obtain c where
      c: "find_id i (rn_db rn) = Some c" "status_only e c" by blast
    have "i \<notin> lv_id ` set (rn_views rn)"
    proof
      assume "i \<in> lv_id ` set (rn_views rn)"
      then have "i \<in> set (map vw_id (loaded_entries d))"
        using tracked_ids [OF tracked.end_of_round [OF r]] by (metis set_map)
      then obtain f where f: "f \<in> set (db_views d)" "loaded f" "vw_id f = i" by (auto simp: loaded_entries_def)
      with find_id_unique [OF u f(1)] e False show False by simp
    qed
    then have "db_storage (rn_db rn) i = db_storage d i" using kept by (simp add: storage_kept_def)
    with finish_round_other [OF r u e False] c progressed_same [OF c(2)] st show ?thesis by simp
  qed
qed


end
