(* ===== verification/Round_Isolation.thy ===== *)
theory Round_Isolation
  imports Round_Properties
begin

text \<open>
  Failure isolation and replay: two rounds that start from databases agreeing on one view and on the
  shadows end in databases agreeing on that view, whatever the other views are and however they
  fail; and a round over transactions everything already reflects is the identity.
\<close>

section \<open>Views by id\<close>

definition view_of :: "int \<Rightarrow> live_view list \<Rightarrow> live_view option" where
  "view_of i vs = find (\<lambda>v. lv_id v = i) vs"

lemma view_of_map: "(\<And>v. lv_id (f v) = lv_id v) \<Longrightarrow> view_of i (map f vs) = map_option f (view_of i vs)"
  unfolding view_of_def by (induction vs) auto

lemma view_of_None_iff: "view_of i vs = None \<longleftrightarrow> i \<notin> set (map lv_id vs)"
  by (auto simp: view_of_def find_None_iff)

lemma view_of_NoneD: "view_of i vs = None \<Longrightarrow> i \<notin> lv_id ` set vs"
  by (auto simp: view_of_def find_None_iff)

lemma view_of_SomeD: "view_of i vs = Some v \<Longrightarrow> \<exists>j < length vs. vs ! j = v \<and> lv_id v = i"
  by (auto simp: view_of_def find_Some_iff)

lemma view_of_set: "view_of i vs = Some v \<Longrightarrow> v \<in> set vs \<and> lv_id v = i"
  unfolding view_of_def by (induction vs) (auto split: if_splits)

lemma view_of_nth: "distinct (map lv_id vs) \<Longrightarrow> j < length vs \<Longrightarrow> view_of (lv_id (vs ! j)) vs = Some (vs ! j)"
proof (induction vs arbitrary: j)
  case Nil
  then show ?case by simp
next
  case (Cons v vs)
  then show ?case by (cases j) (auto simp: view_of_def image_iff)
qed

lemma view_of_ids: "map lv_id vs = map lv_id ws \<Longrightarrow> view_of i vs = None \<longleftrightarrow> view_of i ws = None"
  by (simp only: view_of_None_iff)

section \<open>Two rounds that agree on a view\<close>

definition agree :: "int \<Rightarrow> round \<Rightarrow> round \<Rightarrow> bool" where
  "agree i rn1 rn2 \<longleftrightarrow>
     view_of i (rn_views rn1) = view_of i (rn_views rn2) \<and> rn_shadows rn1 = rn_shadows rn2 \<and>
     db_shadow_rows (rn_db rn1) = db_shadow_rows (rn_db rn2) \<and>
     find_id i (rn_db rn1) = find_id i (rn_db rn2) \<and>
     db_storage (rn_db rn1) i = db_storage (rn_db rn2) i"

lemma shadow_drift_shadow: "fst (shadow_drift sh rel q1 d1) = fst (shadow_drift sh rel q2 d2)"
  by (simp add: shadow_drift_def record_shadow_failure_def Let_def)

lemma shadow_drift_db:
  "\<exists>f. snd (shadow_drift sh rel q d) = d \<or> snd (shadow_drift sh rel q d) = update_shadow (sh_relid sh) f d"
  by (auto simp: shadow_drift_def record_shadow_failure_def Let_def)

lemma find_id_update_shadow [simp]: "find_id i (update_shadow o1 f d) = find_id i d"
  by (simp add: find_id_def)

lemma shadow_drift_slices [simp]:
  "find_id i (snd (shadow_drift sh rel q d)) = find_id i d"
  "db_storage (snd (shadow_drift sh rel q d)) = db_storage d"
  "db_shadow_rows (snd (shadow_drift sh rel q d)) = db_shadow_rows d"
  using shadow_drift_db [of sh rel q d] by auto

lemma lv_id_steps [simp]:
  "lv_id (view_drift end_lsn relid rel v) = lv_id v"
  "lv_id (plan_view h shadows end_lsn rel ch relid old v) = lv_id v"
  "lv_id (shadow_failure_for_view relid rel message v) = lv_id v"
  using same_track_steps [of v] by (simp_all add: same_track_def)

lemma agree_drift:
  assumes "agree i rn1 rn2"
  shows "agree i (drift_relation end_lsn rr rn1) (drift_relation end_lsn rr rn2)"
proof (cases rr)
  case (Pair relid rel)
  show ?thesis
  proof (cases "rn_shadows rn1 relid")
    case None
    with assms Pair show ?thesis
      by (simp add: agree_def drift_relation_def view_of_map)
  next
    case (Some sh)
    have "fst (shadow_drift sh rel q1 d1) = fst (shadow_drift sh rel q2 d2)" for q1 q2 d1 d2
      by (rule shadow_drift_shadow)
    with assms Pair Some show ?thesis
      by (auto simp: agree_def drift_relation_def view_of_map case_prod_unfold Let_def)
  qed
qed

lemma agree_start:
  assumes "db_shadows d1 = db_shadows d2" and "db_shadow_rows d1 = db_shadow_rows d2"
    and "unique_ids d1" and "unique_ids d2"
    and "find_id i d1 = find_id i d2" and "db_storage d1 i = db_storage d2 i"
  shows "agree i (start_round d1 end_lsn rels) (start_round d2 end_lsn rels)"
proof -
  have load: "view_of i (load_live_views d) =
    Option.bind (find_id i d) (\<lambda>e. if live e then load_live_view e else None)" if "unique_ids d" for d
  proof -
    have "view_of i (List.map_filter load_live_view (filter live es)) =
        Option.bind (find (\<lambda>v. vw_id v = i) es) (\<lambda>e. if live e then load_live_view e else None)"
      if "distinct (map vw_id es)" for es
      using that
    proof (induction es)
      case Nil
      show ?case by (simp add: view_of_def map_filter_simps)
    next
      case (Cons e es)
      have no: "find (\<lambda>v. vw_id v = i) es = None" if "vw_id e = i"
        using Cons.prems that by (auto simp: find_None_iff image_iff)
      with Cons show ?case
        by (cases "vw_spec e") (auto simp: view_of_def map_filter_simps load_live_view_def)
    qed
    then show ?thesis using that by (simp add: load_live_views_def find_id_def unique_ids_def)
  qed
  let ?s = "\<lambda>d. \<lparr>rn_db = d, rn_views = load_live_views d, rn_shadows = load_shadows d, rn_blocked = None\<rparr>"
  have "agree i (?s d1) (?s d2)"
    using assms load by (simp add: agree_def load_shadows_def)
  moreover have "agree i (fold (drift_relation end_lsn) rels rn1) (fold (drift_relation end_lsn) rels rn2)"
    if "agree i rn1 rn2" for rn1 rn2
    using that by (induction rels arbitrary: rn1 rn2) (auto intro: agree_drift)
  ultimately show ?thesis by (simp add: start_round_def)
qed

lemma agree_plan_relid:
  assumes "agree i rn1 rn2" and "plan_relid h rels end_lsn ch relid rn1 = Inr rn1'"
    and "plan_relid h rels end_lsn ch relid rn2 = Inr rn2'"
  shows "agree i rn1' rn2'"
proof -
  obtain rel where rel: "map_of rels relid = Some rel"
    using assms(2) by (auto simp: plan_relid_def rbind_Inr_iff)
  let ?old = "old_row h rn1 end_lsn rel ch relid"
  have old: "old_row h rn2 end_lsn rel ch relid = ?old"
  proof -
    have "rn_shadows rn2 = rn_shadows rn1" "db_shadow_rows (rn_db rn2) = db_shadow_rows (rn_db rn1)"
      using assms(1) by (simp_all add: agree_def)
    then show ?thesis by (simp only: old_row_def)
  qed
  let ?plan = "\<lambda>rn. rn\<lparr>rn_views := map (plan_view h (db_shadow_rows (rn_db rn)) end_lsn rel ch relid ?old) (rn_views rn)\<rparr>"
  have plan: "agree i (?plan rn1) (?plan rn2)"
    using assms(1) by (simp add: agree_def view_of_map)
  have m: "agree i (maintain_shadow h sh rel ch relid old new r1) (maintain_shadow h sh rel ch relid old new r2)"
    if "agree i r1 r2" for sh old new r1 r2
  proof -
    have "db_shadow_rows (rn_db r1) = db_shadow_rows (rn_db r2)" using that by (simp add: agree_def)
    with that show ?thesis
      by (cases "shadow_outcome h sh rel ch old new (db_shadow_rows (rn_db r2) relid)")
        (simp_all add: agree_def maintain_shadow_def record_shadow_failure_def view_of_map find_id_def)
  qed
  have sh: "rn_shadows rn2 = rn_shadows rn1" using assms(1) by (simp add: agree_def)
  show ?thesis
  proof (cases "rn_shadows rn1 relid")
    case None
    with assms(2,3) rel old sh plan show ?thesis by (simp add: plan_relid_def Let_def)
  next
    case (Some s)
    show ?thesis
    proof (cases "shadow_active (rn_shadows rn1) relid end_lsn")
      case True
      then obtain new where "new_full rel ch (old_full ?old) = Inr new"
        "rn1' = maintain_shadow h s rel ch relid ?old new (?plan rn1)"
        "rn2' = maintain_shadow h s rel ch relid ?old new (?plan rn2)"
        using assms(2,3) rel old sh Some by (auto simp: plan_relid_def Let_def rbind_Inr_iff)
      with m [OF plan] show ?thesis by simp
    next
      case False
      with assms(2,3) rel old sh plan Some show ?thesis by (simp add: plan_relid_def Let_def)
    qed
  qed
qed

text \<open>Two runs of the same loop keep a relation that the body keeps.\<close>

lemma rfold_relation:
  assumes "rfold f xs s1 = Inr t1" and "rfold f xs s2 = Inr t2" and "R s1 s2"
    and "\<And>x s1 s2 t1 t2. f x s1 = Inr t1 \<Longrightarrow> f x s2 = Inr t2 \<Longrightarrow> R s1 s2 \<Longrightarrow> R t1 t2"
  shows "R t1 t2"
  using assms(1-3)
proof (induction xs arbitrary: s1 s2)
  case Nil
  then show ?case by simp
next
  case (Cons x xs)
  from Cons.prems obtain u1 u2 where "f x s1 = Inr u1" "rfold f xs u1 = Inr t1"
    "f x s2 = Inr u2" "rfold f xs u2 = Inr t2" by (auto simp: rbind_Inr_iff)
  with Cons.prems(3) Cons.IH assms(4) show ?case by blast
qed

lemma agree_plan_tx:
  assumes "plan_tx h rels tx rn1 = Inr rn1'" and "plan_tx h rels tx rn2 = Inr rn2'" and "agree i rn1 rn2"
  shows "agree i rn1' rn2'"
  using assms unfolding plan_tx_def
  by (rule rfold_relation) (erule rfold_relation, assumption+, rule agree_plan_relid)

section \<open>Executing a view reads its own tables only\<close>

lemma fail_view_local:
  assumes "fail_view h ti v m (d1, b1) = (v1, d1', b1')" and "fail_view h ti v m (d2, b2) = (v2, d2', b2')"
    and "find_id (lv_id v) d1 = find_id (lv_id v) d2"
  shows "v1 = v2 \<and> find_id (lv_id v) d1' = find_id (lv_id v) d2'"
  using assms by (auto simp: fail_view_def record_failure_def Let_def find_id_update_view split: if_splits)

lemma execute_view_local:
  assumes "execute_view h ti tx v (d1, b1) = (v1, d1', b1')" and "execute_view h ti tx v (d2, b2) = (v2, d2', b2')"
    and "find_id (lv_id v) d1 = find_id (lv_id v) d2" and "db_storage d1 (lv_id v) = db_storage d2 (lv_id v)"
  shows "v1 = v2 \<and> find_id (lv_id v) d1' = find_id (lv_id v) d2' \<and>
    db_storage d1' (lv_id v) = db_storage d2' (lv_id v)"
proof -
  have st: "storage d1 (lv_id v) = storage d2 (lv_id v)" using assms(4) by (simp add: storage_def)
  have fail: "v1 = v2 \<and> find_id (lv_id v) d1' = find_id (lv_id v) d2' \<and>
      db_storage d1' (lv_id v) = db_storage d2' (lv_id v)"
    if "fail_view h ti w m (d1, b1) = (v1, d1', b1')" "fail_view h ti w m (d2, b2) = (v2, d2', b2')"
      "lv_id w = lv_id v" for w m
    using fail_view_local [OF that(1,2)] fail_view_others(4) [OF that(1)] fail_view_others(4) [OF that(2)]
      assms(3,4) that(3) by simp
  show ?thesis
  proof (cases "lv_dead v \<or> tx_end_lsn tx \<le> lv_frontier v")
    case True
    with assms show ?thesis by (auto simp: execute_view_def)
  next
    case False
    show ?thesis
    proof (cases "lv_stale v")
      case (Some r)
      with False assms show ?thesis
        by (auto simp: execute_view_def mark_stale_def find_id_update_view)
    next
      case None
      show ?thesis
      proof (cases "lv_failed v")
        case (Some m)
        with False None assms(1,2) fail [of "v\<lparr>lv_failed := None\<rparr>" m] show ?thesis by (simp add: execute_view_def)
      next
        case fNone: None
        show ?thesis
        proof (cases "execute (h_pg h) (lv_spec v) (lv_ops v) (storage d2 (lv_id v))")
          case (Inl m)
          with False None fNone st assms(1,2) fail [of "v\<lparr>lv_ops := []\<rparr>" m] show ?thesis
            by (simp add: execute_view_def)
        next
          case (Inr r)
          with False None fNone st assms show ?thesis
            by (cases r) (auto simp: execute_view_def find_id_def)
        qed
      qed
    qed
  qed
qed

lemma same_slice_eqs: "same_slice i d d' \<Longrightarrow> find_id i d' = find_id i d \<and> db_storage d' i = db_storage d i"
  by (simp add: same_slice_def)

lemma agree_apply_tx:
  assumes "apply_tx h rels (ti, tx) rn1 = Inr rn1'" and "apply_tx h rels (ti, tx) rn2 = Inr rn2'"
    and ag: "agree i rn1 rn2"
    and d1: "distinct (map lv_id (rn_views rn1))" and d2: "distinct (map lv_id (rn_views rn2))"
  shows "agree i rn1' rn2'"
proof -
  obtain m1 vs1 e1 b1 where m1: "plan_tx h rels tx rn1 = Inr m1"
    and x1: "execute_views h ti tx (rn_views m1) (rn_db m1, rn_blocked m1) = (vs1, e1, b1)"
    and r1: "rn1' = m1\<lparr>rn_views := vs1, rn_db := e1, rn_blocked := b1,
      rn_shadows := (\<lambda>o1. map_option (advance_shadow tx) (rn_shadows m1 o1))\<rparr>"
    using assms(1) by (rule apply_txE)
  obtain m2 vs2 e2 b2 where m2: "plan_tx h rels tx rn2 = Inr m2"
    and x2: "execute_views h ti tx (rn_views m2) (rn_db m2, rn_blocked m2) = (vs2, e2, b2)"
    and r2: "rn2' = m2\<lparr>rn_views := vs2, rn_db := e2, rn_blocked := b2,
      rn_shadows := (\<lambda>o1. map_option (advance_shadow tx) (rn_shadows m2 o1))\<rparr>"
    using assms(2) by (rule apply_txE)
  have mid: "agree i m1 m2" using m1 m2 ag by (rule agree_plan_tx)
  have sr: "db_shadow_rows e1 = db_shadow_rows (rn_db m1)" "db_shadow_rows e2 = db_shadow_rows (rn_db m2)"
    using execute_views_shadow_rows x1 x2 by blast+
  have i1: "map lv_id vs1 = map lv_id (rn_views m1)" and i2: "map lv_id vs2 = map lv_id (rn_views m2)"
    using execute_views_others(3) x1 x2 by blast+
  have dm1: "distinct (map lv_id (rn_views m1))" and dm2: "distinct (map lv_id (rn_views m2))"
    using d1 d2 planned_ids [OF plan_tx_views [OF m1]] planned_ids [OF plan_tx_views [OF m2]] by simp_all
  have "view_of i vs1 = view_of i vs2 \<and> find_id i e1 = find_id i e2 \<and> db_storage e1 i = db_storage e2 i"
  proof (cases "view_of i (rn_views m1)")
    case None
    then have n: "view_of i (rn_views m2) = None" using mid by (simp add: agree_def)
    have "same_slice i (rn_db m1) e1" "same_slice i (rn_db m2) e2"
      using execute_views_others(1) x1 x2 view_of_NoneD None n by blast+
    moreover have "view_of i vs1 = None" "view_of i vs2 = None"
      using view_of_ids [OF i1] view_of_ids [OF i2] None n by simp_all
    ultimately show ?thesis using mid by (simp add: agree_def same_slice_def)
  next
    case (Some v)
    then have s2: "view_of i (rn_views m2) = Some v" using mid by (simp add: agree_def)
    obtain j1 where j1: "j1 < length (rn_views m1)" "rn_views m1 ! j1 = v" "lv_id v = i"
      using view_of_SomeD [OF Some] by blast
    obtain j2 where j2: "j2 < length (rn_views m2)" "rn_views m2 ! j2 = v"
      using view_of_SomeD [OF s2] by blast
    obtain p1 q1 p1' q1' where y1: "execute_view h ti tx v (p1, q1) = (vs1 ! j1, p1', q1')"
      and s1: "same_slice i (rn_db m1) p1" "same_slice i p1' e1"
      using execute_views_nth [OF x1 dm1 j1(1)] j1(2,3) by metis
    obtain p2 q2 p2' q2' where y2: "execute_view h ti tx v (p2, q2) = (vs2 ! j2, p2', q2')"
      and s2: "same_slice i (rn_db m2) p2" "same_slice i p2' e2"
      using execute_views_nth [OF x2 dm2 j2(1)] j2(2) j1(3) by metis
    have "find_id (lv_id v) p1 = find_id (lv_id v) p2" "db_storage p1 (lv_id v) = db_storage p2 (lv_id v)"
      using same_slice_eqs [OF s1(1)] same_slice_eqs [OF s2(1)] mid j1(3) by (simp_all add: agree_def)
    from execute_view_local [OF y1 y2 this] have loc: "vs1 ! j1 = vs2 ! j2"
      "find_id i p1' = find_id i p2'" "db_storage p1' i = db_storage p2' i" using j1(3) by auto
    have "lv_id (vs1 ! j1) = i" "lv_id (vs2 ! j2) = i"
      using execute_view_others(3) [OF y1] execute_view_others(3) [OF y2] j1(3) by simp_all
    moreover have "length vs1 = length (rn_views m1)" "length vs2 = length (rn_views m2)"
      using i1 i2 by (metis length_map)+
    then have "distinct (map lv_id vs1)" "j1 < length vs1" "distinct (map lv_id vs2)" "j2 < length vs2"
      using i1 i2 dm1 dm2 j1(1) j2(1) by (simp_all del: length_map)
    ultimately have "view_of i vs1 = Some (vs1 ! j1)" "view_of i vs2 = Some (vs2 ! j2)"
      using view_of_nth by metis+
    then show ?thesis
      using loc same_slice_eqs [OF s1(2)] same_slice_eqs [OF s2(2)] by simp
  qed
  then show ?thesis using mid r1 r2 sr by (simp add: agree_def)
qed

section \<open>The whole round\<close>

lemma agree_round:
  assumes "rfold (apply_tx h rels) itxs rn1 = Inr rn1'" and "rfold (apply_tx h rels) itxs rn2 = Inr rn2'"
    and "agree i rn1 rn2" and "distinct (map lv_id (rn_views rn1))" and "distinct (map lv_id (rn_views rn2))"
  shows "agree i rn1' rn2'"
proof -
  let ?R = "\<lambda>rn1 rn2. agree i rn1 rn2 \<and> distinct (map lv_id (rn_views rn1)) \<and> distinct (map lv_id (rn_views rn2))"
  have "?R rn1' rn2'"
  proof (rule rfold_relation [where R = ?R, OF assms(1,2)])
    show "?R rn1 rn2" using assms(3-5) by simp
    fix itx s1 s2 t1 t2
    assume "apply_tx h rels itx s1 = Inr t1" "apply_tx h rels itx s2 = Inr t2" "?R s1 s2"
    then show "?R t1 t2"
      by (cases itx) (auto intro: agree_apply_tx simp: apply_tx_ids)
  qed
  then show ?thesis by simp
qed

lemma finish_agree:
  assumes "agree i rn1 rn2" and "distinct (map lv_id (rn_views rn1))" and "distinct (map lv_id (rn_views rn2))"
    and "deltas_of i (rn_db rn1) = deltas_of i (rn_db rn2)"
  shows "find_id i (finish_round h rn1) = find_id i (finish_round h rn2) \<and>
    db_storage (finish_round h rn1) i = db_storage (finish_round h rn2) i \<and>
    deltas_of i (finish_round h rn1) = deltas_of i (finish_round h rn2)"
proof (cases "view_of i (rn_views rn1)")
  case None
  then have "i \<notin> lv_id ` set (rn_views rn1)" "i \<notin> lv_id ` set (rn_views rn2)"
    using assms(1) view_of_NoneD by (simp_all add: agree_def)
  with assms(1,4) show ?thesis by (simp add: finish_round_def finish_views_other agree_def)
next
  case (Some v)
  then have s2: "view_of i (rn_views rn2) = Some v" using assms(1) by (simp add: agree_def)
  have v: "v \<in> set (rn_views rn1)" "v \<in> set (rn_views rn2)" "lv_id v = i"
    using view_of_set [OF Some] view_of_set [OF s2] by simp_all
  show ?thesis
    using finish_views_nth [OF v(1) assms(2), of h "rn_db rn1"] finish_views_nth [OF v(2) assms(3), of h "rn_db rn2"]
      assms(1,4) v(3) by (simp add: finish_round_def agree_def)
qed

lemma collect_relations_db: "apply_round h dec txs d = Inr (Inr (dec', st), d') \<Longrightarrow>
    \<exists>rels rn. collect_relations h dec txs = Inr (rels, dec') \<and>
      rfold (apply_tx h rels) (enumerate 0 txs) (start_round d (round_end txs) rels) = Inr rn \<and>
      d' = finish_round h rn"
  by (erule apply_roundE) blast

lemma round_isolated:
  assumes "apply_round h dec txs d1 = Inr (Inr (dec1, st1), d1')"
    and "apply_round h dec txs d2 = Inr (Inr (dec2, st2), d2')"
    and u1: "unique_ids d1" and u2: "unique_ids d2"
    and "db_shadows d1 = db_shadows d2" and "db_shadow_rows d1 = db_shadow_rows d2"
    and "find_id i d1 = find_id i d2" and "db_storage d1 i = db_storage d2 i" and "deltas_of i d1 = deltas_of i d2"
  shows "find_id i d1' = find_id i d2' \<and> db_storage d1' i = db_storage d2' i \<and> deltas_of i d1' = deltas_of i d2'"
proof -
  obtain rels1 rn1 where c1: "collect_relations h dec txs = Inr (rels1, dec1)"
    and r1: "rfold (apply_tx h rels1) (enumerate 0 txs) (start_round d1 (round_end txs) rels1) = Inr rn1"
    and d1': "d1' = finish_round h rn1" using collect_relations_db [OF assms(1)] by blast
  obtain rels2 rn2 where c2: "collect_relations h dec txs = Inr (rels2, dec2)"
    and r2: "rfold (apply_tx h rels2) (enumerate 0 txs) (start_round d2 (round_end txs) rels2) = Inr rn2"
    and d2': "d2' = finish_round h rn2" using collect_relations_db [OF assms(2)] by blast
  have rels: "rels2 = rels1" using c1 c2 by simp
  have ds: "distinct (map lv_id (rn_views (start_round d end_lsn rels)))" if "unique_ids d" for d end_lsn rels
    using that tracked_ids [OF tracked.start [of d end_lsn rels]]
    by (simp add: unique_ids_def loaded_entries_def distinct_map_filter)
  have "agree i rn1 rn2"
    using agree_round [OF r1 r2 [unfolded rels] agree_start [OF assms(5,6) u1 u2 assms(7,8)] ds [OF u1] ds [OF u2]] .
  moreover have de: "distinct (map lv_id (rn_views rn))"
    if "rfold (apply_tx h rels) itxs (start_round d end_lsn rels) = Inr rn" "unique_ids d" for rels itxs d end_lsn rn
    using that(2) tracked_ids [OF tracked.end_of_round [OF that(1)]]
    by (simp add: unique_ids_def loaded_entries_def distinct_map_filter)
  moreover have "deltas_of i (rn_db rn1) = deltas_of i (rn_db rn2)"
    using round_untouched [OF r1] round_untouched [OF r2] assms(9) by (simp add: untouched_def deltas_of_def)
  ultimately show ?thesis
    using finish_agree de [OF r1 u1] de [OF r2 u2] d1' d2' by blast
qed


end
