(* ===== verification/Example_Round.thy ===== *)
theory Example_Round
  imports Round Example_Pg
begin

text \<open>
  A concrete database, host and peek, for the witnesses of the worker's properties: a projection
  and a join view over two tables, and two source transactions on the first of them.
\<close>

definition example_print :: "json \<Rightarrow> string" where
  "example_print j = (case j of JObject ((k, JString s) # kvs) \<Rightarrow> s | _ \<Rightarrow> ''null'')"

definition example_host :: host where
  "example_host =
     \<lparr>h_pg = example_pg, h_format_type = (\<lambda>o1 m. Some ''integer''),
      h_parse = (\<lambda>s. Some (JObject [(''_nabla_pk1_k'', JString s), (''id'', JString s), (''k'', JString s)])),
      h_print = example_print,
      h_settings = default_settings\<rparr>"

definition example_entry :: "int \<Rightarrow> string \<Rightarrow> view_spec \<Rightarrow> view_entry" where
  "example_entry i name spec =
     \<lparr>vw_id = i, vw_name = name, vw_definition = ''SELECT k, v FROM t'', vw_spec = Some spec,
      vw_frontier = 10, vw_epoch = 1, vw_status = ''live'', vw_last_seq = 0, vw_apply_failures = 0,
      vw_last_error = None, vw_stale_reason = None, vw_populated = True\<rparr>"

definition example_shadow :: "u32 \<Rightarrow> shadow_entry" where
  "example_shadow o1 =
     \<lparr>se_relid = o1, se_table = ''nabla_shadow.t'', se_frontier = 10, se_refcount = 1,
      se_columns = [''k'', ''v''], se_pk_columns = [''k''], se_column_types = [''integer'', ''integer''],
      se_join_keys = [], se_failed = False, se_stale_reason = None\<rparr>"

definition example_db :: db where
  "example_db =
     \<lparr>db_views = [example_entry 1 ''public.p'' proj_spec, example_entry 2 ''public.j'' join_spec],
      db_deltas = [], db_shadows = [example_shadow 16, example_shadow 17],
      db_relations = [(1, 16), (2, 16), (2, 17)],
      db_storage = [1 \<mapsto> [], 2 \<mapsto> []],
      db_shadow_columns = [16 \<mapsto> [(''k'', ''integer''), (''v'', ''integer'')],
        17 \<mapsto> [(''k'', ''integer''), (''v'', ''integer'')]],
      db_shadow_rows = example_tables [] [example_row 5 6],
      db_slot = Some 10, db_notified = []\<rparr>"

definition round_decoder :: decoder where
  "round_decoder = \<lparr>dc_relations = [16 \<mapsto> example_rel], dc_current = None, dc_complete = []\<rparr>"

definition example_txs :: "source_transaction list" where
  "example_txs =
     [\<lparr>tx_xid = 700, tx_commit_lsn = 19, tx_end_lsn = 20,
       tx_changes = [ChInsert 16 [CText ''1'', CText ''2''], ChInsert 16 [CText ''2'', CText ''3'']]\<rparr>,
      \<lparr>tx_xid = 701, tx_commit_lsn = 29, tx_end_lsn = 30,
       tx_changes = [ChDelete 16 0x4F [CText ''1'', CText ''2'']]\<rparr>]"

definition example_round :: "string + (string + decoder \<times> round_stats) \<times> db" where
  "example_round = apply_round example_host round_decoder example_txs example_db"

text \<open>The parts of the result of a round that commits.\<close>

definition round_stats_of :: "string + (string + decoder \<times> round_stats) \<times> db \<Rightarrow> round_stats" where
  "round_stats_of r = (case r of Inr (Inr (dec, st), d) \<Rightarrow> st | _ \<Rightarrow> \<lparr>rs_deltas = 0, rs_processed = 0, rs_blocked_at = None\<rparr>)"

definition round_db_of :: "string + (string + decoder \<times> round_stats) \<times> db \<Rightarrow> db" where
  "round_db_of r = (case r of Inr (Inr (dec, st), d) \<Rightarrow> d | _ \<Rightarrow> example_db)"

definition committed :: "string + (string + decoder \<times> round_stats) \<times> db \<Rightarrow> bool" where
  "committed r = (case r of Inr (Inr x, d) \<Rightarrow> True | _ \<Rightarrow> False)"

lemma committedD: "committed r \<Longrightarrow> \<exists>dec. r = Inr (Inr (dec, round_stats_of r), round_db_of r)"
  by (auto simp: committed_def round_stats_of_def round_db_of_def split: sum.splits)

lemma example_round_commits: "committed example_round"
  by code_simp

lemma example_round_view:
  "find_id 1 (round_db_of example_round) =
     Some ((example_entry 1 ''public.p'' proj_spec)\<lparr>vw_frontier := 30, vw_last_seq := 3\<rparr>)"
  by code_simp

lemma example_round_result:
  "\<exists>dec. apply_round example_host round_decoder example_txs example_db =
     Inr (Inr (dec, round_stats_of example_round), round_db_of example_round)"
  using committedD [OF example_round_commits] by (simp add: example_round_def)

text \<open>The same peek when everything in the database already reflects it.\<close>

definition replayed_txs :: "source_transaction list" where
  "replayed_txs = map (\<lambda>tx. tx\<lparr>tx_end_lsn := 10\<rparr>) example_txs"

end
