(* ===== verification/Round_Theorems.thy ===== *)
theory Round_Theorems
  imports Round_Isolation Example_Round
begin

text \<open>
  The properties of a round, each over \<open>apply_round\<close> as the worker calls it, with witnesses on the
  example peek.
\<close>

section \<open>A round over what is already reflected\<close>

definition reflects :: "source_transaction list \<Rightarrow> u64 \<Rightarrow> bool" where
  "reflects txs f \<longleftrightarrow> (\<forall>tx \<in> set txs. tx_end_lsn tx \<le> f)"

definition reflected :: "source_transaction list \<Rightarrow> db \<Rightarrow> bool" where
  "reflected txs d \<longleftrightarrow>
     (\<forall>e \<in> set (db_views d). live e \<longrightarrow> reflects txs (vw_frontier e)) \<and>
     (\<forall>s \<in> set (db_shadows d). \<not> se_failed s \<longrightarrow> reflects txs (se_frontier s))"

text \<open>Nothing in the round state is behind the transactions and nothing has been absorbed in it.\<close>

definition idle_round :: "source_transaction list \<Rightarrow> round \<Rightarrow> bool" where
  "idle_round txs rn \<longleftrightarrow>
     (\<forall>v \<in> set (rn_views rn). reflects txs (lv_frontier v) \<and> lv_absorbed v = None) \<and>
     (\<forall>o1 sh. rn_shadows rn o1 = Some sh \<longrightarrow> sh_failed sh \<or> reflects txs (sh_frontier sh)) \<and>
     (\<forall>o1 sh. rn_shadows rn o1 = Some sh \<longrightarrow> \<not> sh_advanced sh)"

lemma map_idI: "(\<And>x. x \<in> set xs \<Longrightarrow> f x = x) \<Longrightarrow> map f xs = xs"
  by (induction xs) auto

lemma idle_plan_view:
  "tx_end_lsn tx \<le> lv_frontier v \<Longrightarrow> plan_view h shadows (tx_end_lsn tx) rel ch relid old v = v"
  by (simp add: plan_view_def active_for_def not_less)

lemma idle_shadow:
  "idle_round txs rn \<Longrightarrow> tx \<in> set txs \<Longrightarrow> rn_shadows rn o1 = Some sh \<Longrightarrow>
     sh_failed sh \<or> tx_end_lsn tx \<le> sh_frontier sh"
  unfolding idle_round_def reflects_def by blast

lemma idle_plan_relid:
  assumes "idle_round txs rn" and "tx \<in> set txs" and "plan_relid h rels (tx_end_lsn tx) ch relid rn = Inr rn'"
  shows "rn' = rn"
proof -
  have v: "map (plan_view h s (tx_end_lsn tx) rel ch relid old) (rn_views rn) = rn_views rn" for s rel old
    using assms(1,2) by (intro map_idI idle_plan_view) (auto simp: idle_round_def reflects_def)
  have "\<not> shadow_active (rn_shadows rn) relid (tx_end_lsn tx)"
    using idle_shadow [OF assms(1,2), of relid] by (auto simp: shadow_active_def split: option.splits)
  then show ?thesis
    using assms(3) v by (auto simp: plan_relid_def Let_def rbind_Inr_iff split: option.splits)
qed

lemma rfold_identity:
  "rfold f xs s = Inr t \<Longrightarrow> (\<And>x t. x \<in> set xs \<Longrightarrow> f x s = Inr t \<Longrightarrow> t = s) \<Longrightarrow> t = s"
  by (rule rfold_invariant [where P = "\<lambda>t. t = s" and f = f and xs = xs and s = s]) auto

lemma idle_plan_tx:
  assumes "idle_round txs rn" and "tx \<in> set txs" and "plan_tx h rels tx rn = Inr rn'"
  shows "rn' = rn"
  using assms(3) unfolding plan_tx_def
  by (rule rfold_identity) (erule rfold_identity, erule idle_plan_relid [OF assms(1,2)])

lemma idle_execute_views:
  "\<forall>v \<in> set vs. tx_end_lsn tx \<le> lv_frontier v \<Longrightarrow> execute_views h ti tx vs (d, b) = (vs, d, b)"
  by (induction vs) (simp_all add: execute_view_def)

lemma idle_apply_tx:
  assumes "idle_round txs rn" and "tx \<in> set txs" and "apply_tx h rels (ti, tx) rn = Inr rn'"
  shows "rn' = rn"
proof -
  obtain mid vs d b where m: "plan_tx h rels tx rn = Inr mid"
    and x: "execute_views h ti tx (rn_views mid) (rn_db mid, rn_blocked mid) = (vs, d, b)"
    and r: "rn' = mid\<lparr>rn_views := vs, rn_db := d, rn_blocked := b,
      rn_shadows := (\<lambda>o1. map_option (advance_shadow tx) (rn_shadows mid o1))\<rparr>"
    using assms(3) by (rule apply_txE)
  have mid: "mid = rn" using idle_plan_tx [OF assms(1,2) m] .
  have "\<forall>v \<in> set (rn_views rn). tx_end_lsn tx \<le> lv_frontier v"
    using assms(1,2) by (auto simp: idle_round_def reflects_def)
  from idle_execute_views [OF this] x mid have "vs = rn_views rn" "d = rn_db rn" "b = rn_blocked rn" by simp_all
  moreover have "map_option (advance_shadow tx) (rn_shadows rn o1) = rn_shadows rn o1" for o1
    using idle_shadow [OF assms(1,2), of o1] by (cases "rn_shadows rn o1") (auto simp: advance_shadow_def)
  ultimately show ?thesis using r mid by simp
qed

lemma idle_start:
  assumes "reflected txs d"
  defines "rn \<equiv> \<lparr>rn_db = d, rn_views = load_live_views d, rn_shadows = load_shadows d, rn_blocked = None\<rparr>"
  shows "start_round d (round_end txs) rels = rn \<and> idle_round txs rn"
proof -
  have sh: "sh_failed sh \<or> reflects txs (sh_frontier sh)" "\<not> sh_advanced sh" if "load_shadows d o1 = Some sh" for o1 sh
    using map_of_SomeD [OF that [unfolded load_shadows_def]] assms(1)
    by (auto simp: reflected_def load_shadow_def)
  have vs: "reflects txs (lv_frontier v) \<and> lv_absorbed v = None" if "v \<in> set (load_live_views d)" for v
    using that assms(1) by (auto simp: load_live_views_map loaded_entries_def loaded_def reflected_def load_live_view_def)
  have le: "round_end txs \<le> f" if "reflects txs f" for f
    using that by (auto simp: reflects_def round_end_def)
  have drift: "drift_relation (round_end txs) rr rn = rn" for rr
  proof (cases rr)
    case (Pair relid rel)
    have "map (view_drift (round_end txs) relid rel) (load_live_views d) = load_live_views d"
    proof (rule map_idI)
      fix v
      assume "v \<in> set (load_live_views d)"
      then have "round_end txs \<le> lv_frontier v" using vs le by blast
      then have "\<not> round_end txs > lv_frontier v" by (simp only: not_less simp_thms)
      then show "view_drift (round_end txs) relid rel v = v" by (simp only: view_drift_def simp_thms if_False)
    qed
    moreover have "\<not> (\<not> sh_failed sh \<and> round_end txs > sh_frontier sh)" if "load_shadows d relid = Some sh" for sh
      using sh [OF that] le by (auto simp: not_less)
    ultimately show ?thesis
      by (auto simp: Pair drift_relation_def rn_def split: option.splits)
  qed
  have "fold (drift_relation (round_end txs)) rels rn = rn" by (induction rels) (simp_all add: drift)
  then show ?thesis using sh vs by (auto simp: start_round_def rn_def idle_round_def)
qed

lemma fold_identity: "(\<And>x. x \<in> set xs \<Longrightarrow> f x s = s) \<Longrightarrow> fold f xs s = s"
  by (induction xs) simp_all

lemma idle_finish: "idle_round txs rn \<Longrightarrow> finish_round h rn = rn_db rn"
proof -
  assume i: "idle_round txs rn"
  have "fold (finish_view h) (rn_views rn) (rn_db rn) = rn_db rn"
    using i by (intro fold_identity) (auto simp: idle_round_def finish_view_def)
  moreover have "finish_shadows (rn_shadows rn) d = d" for d
  proof -
    have "map (\<lambda>e. case rn_shadows rn (se_relid e) of None \<Rightarrow> e
        | Some sh \<Rightarrow> if sh_advanced sh then e\<lparr>se_frontier := sh_frontier sh\<rparr> else e) (db_shadows d) = db_shadows d"
      using i by (intro map_idI) (auto simp: idle_round_def split: option.splits)
    then show ?thesis by (simp add: finish_shadows_def)
  qed
  ultimately show ?thesis by (simp add: finish_round_def)
qed

section \<open>Properties\<close>



text \<open>
  C16. A round keeps the delta log of every view consistent: the ids stay unique, and the retained
  deltas of each view have consecutive sequence numbers ending in the view's \<open>last_seq\<close>, LSNs in
  order and none beyond the view's frontier, through failures, retries and garbage collection.
\<close>

theorem round_keeps_log:
  assumes "apply_round h dec txs d = Inr (Inr (dec', st), d')" and "catalog_ok d"
  shows "catalog_ok d'"
  using assms log_round by (metis apply_roundE)

theorem round_keeps_log_witness: "catalog_ok (round_db_of example_round)"
proof -
  obtain dec where "apply_round example_host round_decoder example_txs example_db =
      Inr (Inr (dec, round_stats_of example_round), round_db_of example_round)"
    using example_round_result by blast
  then show ?thesis by (rule round_keeps_log) code_simp
qed



text \<open>
  C19. Replaying is harmless: a peek whose transactions every live view and every healthy shadow
  already reflects leaves the database exactly as it is, writes no delta and blocks nothing.
\<close>

theorem round_replay_identity:
  assumes "apply_round h dec txs d = Inr (Inr (dec', st), d')" and "reflected txs d"
  shows "d' = d \<and> rs_deltas st = 0 \<and> rs_blocked_at st = None"
  using assms(1)
proof (rule apply_roundE)
  fix rels rn
  assume r: "rfold (apply_tx h rels) (enumerate 0 txs) (start_round d (round_end txs) rels) = Inr rn"
    and st: "d' = finish_round h rn" "rs_blocked_at st = rn_blocked rn" "rs_deltas st = total_deltas (rn_views rn)"
  let ?rn = "\<lparr>rn_db = d, rn_views = load_live_views d, rn_shadows = load_shadows d, rn_blocked = None\<rparr>"
  have start: "start_round d (round_end txs) rels = ?rn" and idle: "idle_round txs ?rn"
    using idle_start [OF assms(2)] by blast+
  have "rn = ?rn"
    using r unfolding start
  proof (rule rfold_identity)
    fix itx t
    assume "itx \<in> set (enumerate 0 txs)" and "apply_tx h rels itx ?rn = Inr t"
    moreover from this(1) have "snd itx \<in> set txs"
      using nth_mem [of "fst itx" txs] by (simp add: in_set_enumerate_eq)
    ultimately show "t = ?rn"
      using idle_apply_tx [OF idle, of "snd itx" h rels "fst itx" t] by simp
  qed
  then show ?thesis
    using st idle_finish [OF idle] idle by (auto simp: total_deltas_def idle_round_def)
qed

theorem round_replay_identity_witness:
  "round_db_of (apply_round example_host round_decoder replayed_txs example_db) = example_db"
proof -
  have "committed (apply_round example_host round_decoder replayed_txs example_db)" by code_simp
  from committedD [OF this] obtain dec where
    "apply_round example_host round_decoder replayed_txs example_db =
      Inr (Inr (dec, round_stats_of (apply_round example_host round_decoder replayed_txs example_db)),
        round_db_of (apply_round example_host round_decoder replayed_txs example_db))" by blast
  moreover have "reflected replayed_txs example_db" by code_simp
  ultimately show ?thesis using round_replay_identity by blast
qed

text \<open>
  C17. The slot never passes a transaction a live view has missed: after a round, every view that is
  still live reflects every transaction before \<open>blocked_at\<close> (all of them when nothing blocked), so
  advancing the slot to the end of transaction \<open>blocked_at - 1\<close> discards nothing a retry needs.
\<close>

theorem round_slot_safe:
  assumes "apply_round h dec txs d = Inr (Inr (dec', st), d')" and "unique_ids d"
    and "find_id i d' = Some e'" and "live e'" and "vw_spec e' \<noteq> None"
    and "j < (case rs_blocked_at st of None \<Rightarrow> length txs | Some k \<Rightarrow> k)"
  shows "tx_end_lsn (txs ! j) \<le> vw_frontier e'"
  using assms(1)
proof (rule apply_roundE)
  fix rels rn
  assume "rfold (apply_tx h rels) (enumerate 0 txs) (start_round d (round_end txs) rels) = Inr rn"
    and "d' = finish_round h rn" and "rs_blocked_at st = rn_blocked rn"
  with slot_safe_round [OF assms(2)] assms(3-6) show ?thesis by simp
qed

theorem round_slot_safe_witness:
  "tx_end_lsn (example_txs ! 1) \<le>
     vw_frontier ((example_entry 1 ''public.p'' proj_spec)\<lparr>vw_frontier := 30, vw_last_seq := 3\<rparr>)"
proof -
  obtain dec where r: "apply_round example_host round_decoder example_txs example_db =
      Inr (Inr (dec, round_stats_of example_round), round_db_of example_round)"
    using example_round_result by blast
  show ?thesis
  proof (rule round_slot_safe [OF r _ example_round_view])
    show "unique_ids example_db" by code_simp
    show "1 < (case rs_blocked_at (round_stats_of example_round) of None \<Rightarrow> length example_txs | Some k \<Rightarrow> k)"
      by code_simp
  qed (simp_all add: live_def example_entry_def)
qed

text \<open>
  C18. Failure isolation: two rounds over the same peek, from databases that agree on one view (its
  catalog row, storage table and log) and on the shadows, end with the same catalog row, storage
  table and log for that view, whatever the other views are and however they fail.
\<close>

theorem round_isolates_views:
  assumes "apply_round h dec txs d1 = Inr (Inr r1, d1')" and "apply_round h dec txs d2 = Inr (Inr r2, d2')"
    and "unique_ids d1" and "unique_ids d2"
    and "db_shadows d1 = db_shadows d2" and "db_shadow_rows d1 = db_shadow_rows d2"
    and "find_id i d1 = find_id i d2" and "db_storage d1 i = db_storage d2 i" and "deltas_of i d1 = deltas_of i d2"
  shows "find_id i d1' = find_id i d2' \<and> db_storage d1' i = db_storage d2' i \<and> deltas_of i d1' = deltas_of i d2'"
  using round_isolated [OF _ _ assms(3-9)] assms(1,2) by (cases r1; cases r2) simp

theorem round_isolates_views_witness:
  "find_id 1 (round_db_of (apply_round example_host round_decoder example_txs
      (example_db\<lparr>db_views := [example_entry 1 ''public.p'' proj_spec,
        (example_entry 2 ''public.j'' join_spec)\<lparr>vw_spec := Some agg_spec\<rparr>]\<rparr>))) =
   find_id 1 (round_db_of example_round)"
proof -
  let ?d = "example_db\<lparr>db_views := [example_entry 1 ''public.p'' proj_spec,
    (example_entry 2 ''public.j'' join_spec)\<lparr>vw_spec := Some agg_spec\<rparr>]\<rparr>"
  obtain dec1 where r1: "apply_round example_host round_decoder example_txs example_db =
      Inr (Inr (dec1, round_stats_of example_round), round_db_of example_round)"
    using example_round_result by blast
  have "committed (apply_round example_host round_decoder example_txs ?d)" by code_simp
  from committedD [OF this] obtain r2 where r2: "apply_round example_host round_decoder example_txs ?d =
      Inr (Inr r2, round_db_of (apply_round example_host round_decoder example_txs ?d))" by blast
  have "unique_ids example_db" "unique_ids ?d" by code_simp+
  from round_isolates_views [OF r1 r2 this, of 1] show ?thesis
    by (simp add: find_id_def deltas_of_def example_db_def example_entry_def)
qed

end
