(* ===== verification/Query_Tree.thy ===== *)
theory Query_Tree
  imports View_Spec Errors
begin

text \<open>
  The analysed query as \<open>src/src/definition.rs\<close> reads it, and its walks over expression trees.
  PostgreSQL's parser, catalogs and deparser are parameters, the record \<open>catalog\<close>. The nodes are those
  the code tells apart; every other node type is \<open>OtherExpr\<close> with its subexpressions, which is what
  PostgreSQL's \<open>expression_tree_walker\<close> visits. A null pointer where a node is optional is \<open>None\<close>.
\<close>

section \<open>Nodes\<close>

type_synonym oid = u32

datatype bool_op = AndExpr | OrExpr | NotExpr

record aggref =
  ag_fnoid :: oid
  ag_kind :: char
  ag_star :: bool
  ag_has_distinct :: bool
  ag_has_order :: bool

text \<open>
  An \<open>Aggref\<close> carries its arguments (the expressions of their target entries), its direct arguments
  and its filter.
\<close>

datatype node =
    Var int int nat                            \<comment> \<open>varno, varattno, varlevelsup\<close>
  | FuncExpr oid "node list"
  | OpExpr oid oid "node list"                 \<comment> \<open>opno, opfuncid\<close>
  | DistinctExpr oid oid "node list"
  | NullIfExpr oid oid "node list"
  | ScalarArrayOpExpr oid "node list"
  | SQLValueFunction
  | NextValueExpr
  | BoolExpr bool_op "node list"
  | RelabelType node
  | Aggref aggref "node list" "node list" "node option"
  | OtherExpr string "node list"

datatype join_type =
  JoinInner | JoinLeft | JoinRight | JoinFull | JoinSemi | JoinAnti | JoinRightAnti | JoinOther

datatype jointree =
    FromExpr "jointree list" "node option"
  | JoinExpr join_type jointree jointree "node option"
  | RangeTblRef int

datatype rte_kind =
  RteRelation | RteJoin | RteSubquery | RteFunction | RteTableFunc | RteValues | RteCte | RteOther

record rte =
  rt_kind :: rte_kind
  rt_lateral :: bool
  rt_relid :: oid
  rt_relkind :: char
  rt_eref :: "string option"                   \<comment> \<open>its alias name\<close>

record target_entry =
  te_expr :: node
  te_resname :: "string option"
  te_sortgroupref :: nat
  te_resjunk :: bool

record query_tree =
  qt_is_select :: bool
  qt_set_operations :: bool
  qt_ctes :: bool
  qt_sublinks :: bool
  qt_window_funcs :: bool
  qt_target_srfs :: bool
  qt_distinct_on :: bool
  qt_distinct :: bool
  qt_sort :: bool
  qt_limit_count :: bool
  qt_limit_offset :: bool
  qt_having :: bool
  qt_grouping_sets :: bool
  qt_for_update :: bool
  qt_row_marks :: bool
  qt_rtable :: "rte list"
  qt_jointree :: jointree
  qt_targets :: "target_entry list"
  qt_group :: "nat list"
  qt_has_aggs :: bool

text \<open>
  How a \<open>Deparser\<close> was made: for a single relation, or for a whole range table with its names.
\<close>

datatype deparser = DepSingle oid string | DepRtable "rte list" "string list"

text \<open>
  PostgreSQL: the raw parser and the analysis of a statement (either may raise), the functions of the
  catalog caches, the facts \<open>lookup_base\<close> and \<open>check_relation_kind\<close> query, and the deparser.
\<close>

record catalog =
  cat_raw_parse :: "string \<Rightarrow> string + string list"
  cat_analyze :: "string \<Rightarrow> string + query_tree"
  cat_func_name :: "oid \<Rightarrow> string"
  cat_func_volatile :: "oid \<Rightarrow> char"
  cat_func_builtin :: "oid \<Rightarrow> bool"
  cat_opcode :: "oid \<Rightarrow> oid"
  cat_opname :: "oid \<Rightarrow> string"
  cat_contain_mutable :: "node \<Rightarrow> bool"
  cat_contain_agg :: "node \<Rightarrow> bool"
  cat_flatten :: "query_tree \<Rightarrow> node \<Rightarrow> node"
  cat_rel_name :: "oid \<Rightarrow> string"
  cat_rel_namespace :: "oid \<Rightarrow> string"
  cat_att_name :: "oid \<Rightarrow> int \<Rightarrow> string"
  cat_quote_qualified :: "string \<Rightarrow> string \<Rightarrow> string"
  cat_replident :: "oid \<Rightarrow> string"
  cat_has_children :: "oid \<Rightarrow> bool"
  cat_is_view_name :: "oid \<Rightarrow> bool"              \<comment> \<open>a row of nabla.views has its name\<close>
  cat_is_view_relid :: "oid \<Rightarrow> bool"             \<comment> \<open>a row of nabla.views has its relid\<close>
  cat_columns :: "oid \<Rightarrow> (string \<times> string) list"
  cat_primary_key :: "oid \<Rightarrow> (int \<times> string) list"
  cat_deparse :: "deparser \<Rightarrow> node \<Rightarrow> string"

section \<open>Walks\<close>

text \<open>What \<open>expression_tree_walker\<close> visits.\<close>

fun children :: "node \<Rightarrow> node list" where
  "children (FuncExpr f args) = args"
| "children (OpExpr opno f args) = args"
| "children (DistinctExpr opno f args) = args"
| "children (NullIfExpr opno f args) = args"
| "children (ScalarArrayOpExpr f args) = args"
| "children (BoolExpr b args) = args"
| "children (RelabelType arg) = [arg]"
| "children (Aggref a args direct flt) = direct @ args @ (case flt of None \<Rightarrow> [] | Some f \<Rightarrow> [f])"
| "children (OtherExpr ty args) = args"
| "children _ = []"

lemma size_elem: "m \<in> set xs \<Longrightarrow> size m \<le> size_list size xs"
  by (rule size_list_estimation') auto

lemma size_children: "m \<in> set (children n) \<Longrightarrow> size m < size n"
  by (cases n) (auto dest!: size_elem split: option.splits)

text \<open>Every node of a tree, the root first.\<close>

function nodes :: "node \<Rightarrow> node list" where
  "nodes n = n # concat (map nodes (children n))"
  by pat_completeness auto
termination
  by (relation "measure size") (auto dest: size_children)

declare nodes.simps [simp del]

lemma nodes_self [simp]: "n \<in> set (nodes n)"
  by (simp add: nodes.simps [of n])

lemma set_nodes: "set (nodes n) = insert n (\<Union>m \<in> set (children n). set (nodes m))"
  by (simp add: nodes.simps [of n])

section \<open>Mutable functions\<close>

definition value_function_text :: string where
  "value_function_text = ''current_date/current_time/current_user or similar''"

text \<open>What \<open>find_mutable\<close> finds at one node: the name of a function that is not IMMUTABLE.\<close>

definition not_immutable :: "catalog \<Rightarrow> oid \<Rightarrow> string option" where
  "not_immutable cat f =
     (if f \<noteq> 0 \<and> cat_func_volatile cat f \<noteq> CHR ''i'' then Some (cat_func_name cat f) else None)"

fun mutable_here :: "catalog \<Rightarrow> node \<Rightarrow> string option" where
  "mutable_here cat (FuncExpr f args) = not_immutable cat f"
| "mutable_here cat (OpExpr opno f args) = not_immutable cat f"
| "mutable_here cat (DistinctExpr opno f args) = not_immutable cat f"
| "mutable_here cat (NullIfExpr opno f args) = not_immutable cat f"
| "mutable_here cat (ScalarArrayOpExpr f args) = not_immutable cat f"
| "mutable_here cat SQLValueFunction = Some value_function_text"
| "mutable_here cat NextValueExpr = Some ''nextval''"
| "mutable_here cat _ = None"

text \<open>The first element for which the walker returns true.\<close>

fun first_some :: "('a \<Rightarrow> 'b option) \<Rightarrow> 'a list \<Rightarrow> 'b option" where
  "first_some f [] = None"
| "first_some f (x # xs) = (case f x of None \<Rightarrow> first_some f xs | Some y \<Rightarrow> Some y)"

lemma first_some_None [simp]: "first_some f xs = None \<longleftrightarrow> (\<forall>x \<in> set xs. f x = None)"
  by (induction xs) (auto split: option.split)

lemma first_some_SomeD: "first_some f xs = Some y \<Longrightarrow> \<exists>x \<in> set xs. f x = Some y"
  by (induction xs) (auto split: option.splits)

text \<open>\<open>find_mutable\<close> as the callback of \<open>expression_tree_walker\<close>: a walk in preorder up to the first hit.\<close>

definition find_mutable :: "catalog \<Rightarrow> node \<Rightarrow> string option" where
  "find_mutable cat n = first_some (mutable_here cat) (nodes n)"

section \<open>Column references\<close>

text \<open>\<open>find_foreign_var\<close>: a Var outside the allowed relations of the current query level.\<close>

fun foreign_here :: "int list \<Rightarrow> node \<Rightarrow> unit option" where
  "foreign_here allowed (Var varno attno lev) = (if lev \<noteq> 0 \<or> varno \<notin> set allowed then Some () else None)"
| "foreign_here allowed _ = None"

definition find_foreign_var :: "int list \<Rightarrow> node \<Rightarrow> unit option" where
  "find_foreign_var allowed n = first_some (foreign_here allowed) (nodes n)"

text \<open>\<open>collect_vars\<close> and \<open>referenced_vars\<close>.\<close>

fun var_here :: "node \<Rightarrow> (int \<times> int) list" where
  "var_here (Var varno attno lev) = (if lev = 0 then [(varno, attno)] else [])"
| "var_here _ = []"

definition referenced_vars :: "node \<Rightarrow> (int \<times> int) list" where
  "referenced_vars n = concat (map var_here (nodes n))"

text \<open>\<open>operand_var\<close>: the Var behind a qual operand, through a relabel.\<close>

definition operand_var :: "node \<Rightarrow> (int \<times> int) option" where
  "operand_var n =
     (case (case n of RelabelType arg \<Rightarrow> arg | _ \<Rightarrow> n) of
        Var varno attno lev \<Rightarrow> if lev = 0 then Some (varno, attno) else None
      | _ \<Rightarrow> None)"

text \<open>\<open>join_key_vars\<close>: the columns an equality conjunct compares.\<close>

definition equality_vars :: "catalog \<Rightarrow> oid \<Rightarrow> node list \<Rightarrow> (int \<times> int) list" where
  "equality_vars cat opno args =
     (if \<not> cat_func_builtin cat (cat_opcode cat opno) \<or> cat_opname cat opno \<noteq> ''='' then []
      else case args of
        [a, b] \<Rightarrow>
          (case (operand_var a, operand_var b) of
             (Some l, Some r) \<Rightarrow> if fst l \<noteq> fst r then [l, r] else []
           | _ \<Rightarrow> [])
      | _ \<Rightarrow> [])"

fun join_key_vars :: "catalog \<Rightarrow> node \<Rightarrow> (int \<times> int) list" where
  "join_key_vars cat (BoolExpr AndExpr args) = concat (map (join_key_vars cat) args)"
| "join_key_vars cat (OpExpr opno f args) = equality_vars cat opno args"
| "join_key_vars cat _ = []"

text \<open>\<open>is_plain_var\<close>.\<close>

definition is_plain_var :: "node \<Rightarrow> int \<Rightarrow> int \<Rightarrow> bool" where
  "is_plain_var n varno attno \<longleftrightarrow>
     (case n of Var v a lev \<Rightarrow> v = varno \<and> lev = 0 \<and> a = attno | _ \<Rightarrow> False)"

section \<open>What the walks compute\<close>

text \<open>Each walk with its declarative meaning over \<open>nodes\<close>.\<close>

lemma find_mutable_None_iff:
  "find_mutable cat n = None \<longleftrightarrow> (\<forall>m \<in> set (nodes n). mutable_here cat m = None)"
  by (simp add: find_mutable_def)

lemma find_mutable_SomeD:
  "find_mutable cat n = Some name \<Longrightarrow> \<exists>m \<in> set (nodes n). mutable_here cat m = Some name"
  unfolding find_mutable_def by (rule first_some_SomeD)

lemma foreign_here_None_iff:
  "foreign_here allowed m = None \<longleftrightarrow> (\<forall>v a lev. m = Var v a lev \<longrightarrow> lev = 0 \<and> v \<in> set allowed)"
  by (cases m) auto

lemma find_foreign_None_iff:
  "find_foreign_var allowed n = None \<longleftrightarrow>
     (\<forall>v a lev. Var v a lev \<in> set (nodes n) \<longrightarrow> lev = 0 \<and> v \<in> set allowed)"
  by (auto simp: find_foreign_var_def foreign_here_None_iff)

lemma set_var_here: "set (var_here n) = {(v, a). n = Var v a 0}"
  by (cases n) auto

lemma set_referenced_vars: "set (referenced_vars n) = {(v, a). Var v a 0 \<in> set (nodes n)}"
  by (auto simp: referenced_vars_def set_var_here)

lemma operand_var_nodes:
  assumes "operand_var n = Some (v, a)"
  shows "Var v a 0 \<in> set (nodes n)"
proof -
  consider "n = Var v a 0" | "n = RelabelType (Var v a 0)"
    using assms by (auto simp: operand_var_def split: node.splits if_splits)
  then show ?thesis by cases (simp_all add: set_nodes [of "RelabelType m" for m])
qed

lemma join_key_vars_nodes: "(v, a) \<in> set (join_key_vars cat n) \<Longrightarrow> Var v a 0 \<in> set (nodes n)"
proof (induction cat n rule: join_key_vars.induct)
  case (1 cat args)
  then show ?case by (auto simp: set_nodes [of "BoolExpr AndExpr args"])
next
  case (2 cat opno f args)
  then show ?case
    by (auto simp: equality_vars_def set_nodes [of "OpExpr opno f args"] dest: operand_var_nodes [OF sym]
        split: if_splits list.splits option.splits)
qed simp_all

end
