(* ===== verification/Validator.thy ===== *)
theory Validator
  imports Query_Tree
begin

text \<open>
  \<open>validate\<close> of \<open>src/src/definition.rs\<close>: a definition is analysed by PostgreSQL, checked against the two
  accepted shapes, and turned into the specification every other component works from. A call of
  \<open>reject\<close> is \<open>Unsupported\<close> with its reason, an error PostgreSQL raises itself is \<open>Raised\<close>.
\<close>

section \<open>Errors\<close>

datatype def_error = Unsupported string | Invalid string | Raised string

text \<open>The message the client sees, and the one a rebuild stores.\<close>

fun def_message :: "def_error \<Rightarrow> string" where
  "def_message (Unsupported reason) = rp_message (unsupported_definition reason)"
| "def_message (Invalid message) = message"
| "def_message (Raised message) = message"

definition reject :: "string \<Rightarrow> def_error + 'a" where
  "reject reason = Inl (Unsupported reason)"

lemma reject_neq [simp]: "reject reason \<noteq> Inr x" "Inr x \<noteq> reject reason"
  by (simp_all add: reject_def)

lemma rbind_reject [simp]: "rbind (reject reason) f = reject reason"
  by (simp add: reject_def)

definition raised :: "string + 'a \<Rightarrow> def_error + 'a" where
  "raised r = (case r of Inl m \<Rightarrow> Inl (Raised m) | Inr x \<Rightarrow> Inr x)"

text \<open>A test that rejects, and the code after it.\<close>

definition reject_if :: "bool \<Rightarrow> string \<Rightarrow> def_error + unit" where
  "reject_if b reason = (if b then reject reason else Inr ())"

lemma reject_if_Inr [simp]: "reject_if b reason = Inr u \<longleftrightarrow> \<not> b"
  by (simp add: reject_if_def)

section \<open>Analysis\<close>

definition analyze :: "catalog \<Rightarrow> string \<Rightarrow> def_error + query_tree" where
  "analyze cat definition =
     (if CHR 0x00 \<in> set definition then Inl (Invalid ''nabla: the definition contains a NUL byte'')
      else rbind (raised (cat_raw_parse cat definition)) (\<lambda>statements.
        if statements = [] then reject ''the definition is empty''
        else if length statements \<noteq> 1
        then reject (''the definition must be exactly one SELECT statement, found '' @
               int_text (int (length statements)))
        else raised (cat_analyze cat (hd statements))))"

definition clause_checks :: "query_tree \<Rightarrow> (bool \<times> string) list" where
  "clause_checks q =
     [(\<not> qt_is_select q, ''only SELECT statements are supported''),
      (qt_set_operations q, ''UNION, INTERSECT and EXCEPT are not supported''),
      (qt_ctes q, ''common table expressions (WITH) are not supported''),
      (qt_sublinks q, ''subqueries are not supported''),
      (qt_window_funcs q, ''window functions are not supported''),
      (qt_target_srfs q, ''set-returning functions are not supported''),
      (qt_distinct_on q \<or> qt_distinct q, ''DISTINCT is not supported''),
      (qt_sort q, ''ORDER BY is not supported''),
      (qt_limit_count q \<or> qt_limit_offset q, ''LIMIT and OFFSET are not supported''),
      (qt_having q, ''HAVING is not supported''),
      (qt_grouping_sets q, ''GROUPING SETS, CUBE and ROLLUP are not supported''),
      (qt_for_update q \<or> qt_row_marks q, ''FOR UPDATE and FOR SHARE are not supported'')]"

definition reject_unsupported_clauses :: "query_tree \<Rightarrow> def_error + unit" where
  "reject_unsupported_clauses q =
     (case find fst (clause_checks q) of None \<Rightarrow> Inr () | Some (b, reason) \<Rightarrow> reject reason)"

section \<open>The FROM clause\<close>

type_synonym rel_entry = "int \<times> rte"                 \<comment> \<open>1-based range table index\<close>

definition from_required :: string where
  "from_required = ''a FROM clause with one or more ordinary tables is required''"

fun collect_rte :: "nat \<times> rte \<Rightarrow> def_error + rel_entry list" where
  "collect_rte (i, r) =
     (if rt_lateral r then reject ''LATERAL is not supported''
      else case rt_kind r of
        RteRelation \<Rightarrow> Inr [(int i + 1, r)]
      | RteJoin \<Rightarrow> Inr []
      | RteSubquery \<Rightarrow> reject ''subqueries in FROM are not supported''
      | RteFunction \<Rightarrow> reject ''set-returning functions are not supported''
      | RteTableFunc \<Rightarrow> reject ''set-returning functions are not supported''
      | RteValues \<Rightarrow> reject ''VALUES lists are not supported''
      | RteCte \<Rightarrow> reject ''common table expressions (WITH) are not supported''
      | RteOther \<Rightarrow> reject from_required)"

definition collect_range_table :: "query_tree \<Rightarrow> def_error + rel_entry list" where
  "collect_range_table q =
     rbind (rmap collect_rte (enumerate 0 (qt_rtable q))) (\<lambda>es.
     if concat es = [] then reject from_required else Inr (concat es))"

fun join_kind :: "join_type \<Rightarrow> string option" where
  "join_kind JoinInner = None"
| "join_kind JoinLeft = Some ''LEFT JOIN''"
| "join_kind JoinRight = Some ''RIGHT JOIN''"
| "join_kind JoinFull = Some ''FULL JOIN''"
| "join_kind JoinSemi = Some ''SEMI JOIN''"
| "join_kind JoinAnti = Some ''ANTI JOIN''"
| "join_kind JoinRightAnti = Some ''ANTI JOIN''"
| "join_kind JoinOther = Some ''this join type''"

definition opt_list :: "'a option \<Rightarrow> 'a list" where
  "opt_list x = (case x of None \<Rightarrow> [] | Some v \<Rightarrow> [v])"

fun collect_quals :: "jointree \<Rightarrow> def_error + node list" where
  "collect_quals (FromExpr items quals) =
     rbind (rmap collect_quals items) (\<lambda>qs. Inr (concat qs @ opt_list quals))"
| "collect_quals (JoinExpr jt larg rarg quals) =
     (case join_kind jt of
        Some kind \<Rightarrow> reject (kind @ '' is not supported; only inner joins are'')
      | None \<Rightarrow>
          rbind (collect_quals larg) (\<lambda>ls.
          rbind (collect_quals rarg) (\<lambda>rs. Inr (ls @ rs @ opt_list quals))))"
| "collect_quals (RangeTblRef i) = Inr []"

section \<open>Base relations\<close>

record base_table =
  bt_oid :: oid
  bt_qualified :: string
  bt_replident :: string
  bt_pk_columns :: "string list"

definition is_view_reason :: "string \<Rightarrow> string" where
  "is_view_reason qualified = qualified @ '' is a nabla view; views cannot be built on other nabla views''"

definition relkind_reason :: "char \<Rightarrow> string \<Rightarrow> string option" where
  "relkind_reason k qualified =
     (if k = CHR ''r'' then None
      else Some (qualified @
        (if k = CHR ''p'' then '' is a partitioned table; partitioned tables are not supported''
         else if k = CHR ''v'' then '' is a view; the base must be an ordinary table''
         else if k = CHR ''m'' then '' is a materialized view; the base must be an ordinary table''
         else if k = CHR ''f'' then '' is a foreign table; the base must be an ordinary table''
         else '' is not an ordinary table (relkind '' @ [CHR 0x27, k, CHR 0x27] @ '')'')))"

definition check_relation_kind :: "catalog \<Rightarrow> rte \<Rightarrow> string \<Rightarrow> string \<Rightarrow> def_error + unit" where
  "check_relation_kind cat r qualified nspname =
     rbind (reject_if (nspname = ''nabla_store'')
              (qualified @ '' is a nabla storage table and cannot be a base table'')) (\<lambda>_.
     rbind (reject_if (cat_is_view_relid cat (rt_relid r)) (is_view_reason qualified)) (\<lambda>_.
     rbind (case relkind_reason (rt_relkind r) qualified of None \<Rightarrow> Inr () | Some s \<Rightarrow> reject s) (\<lambda>_.
     rbind (reject_if (nspname = ''nabla'')
              (qualified @ '' is a nabla catalog table and cannot be a base table'')) (\<lambda>_.
     reject_if (nspname = ''nabla_shadow'')
       (qualified @ '' is a nabla shadow table and cannot be a base table'')))))"

definition lookup_base :: "catalog \<Rightarrow> oid \<Rightarrow> string \<Rightarrow> string \<Rightarrow>
    def_error + base_table \<times> int list \<times> (string \<times> string) list" where
  "lookup_base cat relid nspname relname =
     (let qualified = cat_quote_qualified cat nspname relname in
      rbind (reject_if (cat_is_view_name cat relid) (is_view_reason qualified)) (\<lambda>_.
      rbind (reject_if (cat_has_children cat relid)
               (qualified @ '' has inheritance children, which logical decoding does not follow'')) (\<lambda>_.
      Inr (\<lparr>bt_oid = relid, bt_qualified = qualified, bt_replident = cat_replident cat relid,
            bt_pk_columns = map snd (cat_primary_key cat relid)\<rparr>,
           map fst (cat_primary_key cat relid), cat_columns cat relid))))"

text \<open>The loop body over the entries; \<open>seen\<close> holds the relations before.\<close>

definition check_entry :: "catalog \<Rightarrow> bool \<Rightarrow> oid list \<Rightarrow> nat \<Rightarrow> rel_entry \<Rightarrow>
    def_error + base_relation \<times> base_table \<times> int list" where
  "check_entry cat joined seen i entry =
     (let r = snd entry;
          relid = rt_relid r;
          nspname = cat_rel_namespace cat relid;
          relname = cat_rel_name cat relid;
          qualified = cat_quote_qualified cat nspname relname in
      rbind (check_relation_kind cat r qualified nspname) (\<lambda>_.
      rbind (reject_if (relid \<in> set seen)
               (''table '' @ qualified @ '' is referenced twice; self-joins are not supported'')) (\<lambda>_.
      rbind (lookup_base cat relid nspname relname) (\<lambda>(base, pk_attnums, columns_typed).
      rbind (reject_if (joined \<and> pk_attnums = [])
               (qualified @ '' has no primary key; every table in a join view needs one'')) (\<lambda>_.
      Inr (\<lparr>br_oid = relid, br_rti = i + 1,
            br_alias = (case rt_eref r of None \<Rightarrow> relname | Some a \<Rightarrow> a),
            br_qualified = qualified, br_pk_columns = bt_pk_columns base,
            br_columns = map fst columns_typed, br_column_types = map snd columns_typed,
            br_used_columns = [], br_used_column_types = [], br_join_keys = []\<rparr>,
           base, pk_attnums))))))"

fun check_entries :: "catalog \<Rightarrow> bool \<Rightarrow> oid list \<Rightarrow> nat \<Rightarrow> rel_entry list \<Rightarrow>
    def_error + (base_relation \<times> base_table \<times> int list) list" where
  "check_entries cat joined seen i [] = Inr []"
| "check_entries cat joined seen i (e # es) =
     rbind (check_entry cat joined seen i e) (\<lambda>b.
     rbind (check_entries cat joined (rt_relid (snd e) # seen) (i + 1) es) (\<lambda>bs. Inr (b # bs)))"

section \<open>Expressions\<close>

definition require_immutable :: "catalog \<Rightarrow> node \<Rightarrow> string \<Rightarrow> def_error + unit" where
  "require_immutable cat n place =
     (if \<not> cat_contain_mutable cat n then Inr ()
      else case find_mutable cat n of
        Some name \<Rightarrow> reject (place @ '' uses '' @ quoted name @
          '', which is not IMMUTABLE; the view must be a pure function of the base table'')
      | None \<Rightarrow> reject (place @ '' uses a function that is not IMMUTABLE''))"

definition require_base_vars :: "node \<Rightarrow> int list \<Rightarrow> def_error + unit" where
  "require_base_vars n allowed =
     reject_if (find_foreign_var allowed n \<noteq> None)
       ''a column reference could not be resolved to one of the joined tables''"

definition qual_text :: "catalog \<Rightarrow> deparser \<Rightarrow> int list \<Rightarrow> string \<Rightarrow> node \<Rightarrow> def_error + string" where
  "qual_text cat dep allowed place q =
     rbind (require_immutable cat q place) (\<lambda>_.
     rbind (require_base_vars q allowed) (\<lambda>_. Inr (cat_deparse cat dep q)))"

definition conjunction :: "string list \<Rightarrow> string option" where
  "conjunction parts =
     (case parts of
        [] \<Rightarrow> None
      | [p] \<Rightarrow> Some p
      | _ \<Rightarrow> Some (join_text '' AND '' (map (\<lambda>p. ''('' @ p @ '')'') parts)))"

text \<open>\<open>targets\<close>: an entry without a name is \<open>?column?\<close>.\<close>

definition te_alias :: "target_entry \<Rightarrow> string" where
  "te_alias t = (case te_resname t of None \<Rightarrow> ''?column?'' | Some s \<Rightarrow> s)"

definition is_group_key :: "nat list \<Rightarrow> target_entry \<Rightarrow> bool" where
  "is_group_key refs t \<longleftrightarrow> te_sortgroupref t \<noteq> 0 \<and> te_sortgroupref t \<in> set refs"

definition reserved :: "string \<Rightarrow> bool" where
  "reserved alias \<longleftrightarrow> take 7 alias = ''_nabla_''"

fun check_visible :: "int list \<Rightarrow> string list \<Rightarrow> target_entry list \<Rightarrow> def_error + unit" where
  "check_visible allowed seen [] = Inr ()"
| "check_visible allowed seen (t # ts) =
     rbind (reject_if (reserved (te_alias t))
              (''column names starting with _nabla_ are reserved ('' @ quoted (te_alias t) @ '')'')) (\<lambda>_.
     rbind (reject_if (te_alias t \<in> set seen)
              (''output column names must be unique; add AS aliases (duplicate: '' @
                quoted (te_alias t) @ '')'')) (\<lambda>_.
     rbind (require_base_vars (te_expr t) allowed) (\<lambda>_.
     check_visible allowed (te_alias t # seen) ts)))"

section \<open>Used columns\<close>

definition used_name :: "catalog \<Rightarrow> oid \<Rightarrow> int \<times> int \<Rightarrow> def_error + string" where
  "used_name cat relid va =
     (if snd va \<le> 0 then reject ''whole-row references are not supported''
      else Inr (cat_att_name cat relid (snd va)))"

definition use_columns :: "catalog \<Rightarrow> bool \<Rightarrow> (int \<times> int) list \<Rightarrow> (int \<times> int) list \<Rightarrow>
    rel_entry \<times> base_relation \<Rightarrow> def_error + base_relation" where
  "use_columns cat joined var_refs join_refs er = (case er of ((rt_index, r), rel) \<Rightarrow>
     rbind (rmap (used_name cat (rt_relid r)) (filter (\<lambda>va. fst va = rt_index) var_refs)) (\<lambda>names.
     let used = names @ (if joined then br_pk_columns rel else []);
         typed = filter (\<lambda>nt. fst nt \<in> set used) (zip (br_columns rel) (br_column_types rel));
         keys = map (\<lambda>va. cat_att_name cat (rt_relid r) (snd va))
                  (filter (\<lambda>va. fst va = rt_index \<and> snd va > 0) join_refs)
     in Inr (rel\<lparr>br_used_columns := map fst typed, br_used_column_types := map snd typed,
                 br_join_keys := filter (\<lambda>c. c \<in> set keys) (br_columns rel)\<rparr>)))"

section \<open>Output columns\<close>

text \<open>
  What the two shapes fill in: the select items of the populate query, and the fields of the
  specification that depend on the shape.
\<close>

record populate_output =
  ou_targets :: "(target \<times> string) list"
  ou_hidden_targets :: "(target \<times> string) list"
  ou_group :: "string list"
  ou_index :: nat
  ou_columns :: "output_column list"
  ou_pk_columns :: "string list"
  ou_pk_view_columns :: "string list"
  ou_count_alias :: "string option"
  ou_hidden_count :: bool
  ou_counts :: "output_column list"
  ou_sums :: "sum_spec list"
  ou_hidden_columns :: "string list"

definition no_output :: populate_output where
  "no_output = \<lparr>ou_targets = [], ou_hidden_targets = [], ou_group = [], ou_index = 0, ou_columns = [],
     ou_pk_columns = [], ou_pk_view_columns = [], ou_count_alias = None, ou_hidden_count = False,
     ou_counts = [], ou_sums = [], ou_hidden_columns = []\<rparr>"

datatype agg_kind = AggCount | AggCountExpr node | AggSum node

definition classify_aggregate :: "catalog \<Rightarrow> aggref \<Rightarrow> node list \<Rightarrow> node list \<Rightarrow> node option \<Rightarrow> string \<Rightarrow>
    def_error + agg_kind" where
  "classify_aggregate cat a args direct flt alias =
     (let name = cat_func_name cat (ag_fnoid a); column = ''(column '' @ quoted alias @ '')'' in
      rbind (reject_if (ag_kind a \<noteq> CHR ''n'' \<or> direct \<noteq> [])
               (''ordered-set and hypothetical-set aggregates like '' @ quoted name @ '' are not supported'')) (\<lambda>_.
      rbind (reject_if (ag_has_distinct a) (''DISTINCT inside aggregates is not supported '' @ column)) (\<lambda>_.
      rbind (reject_if (flt \<noteq> None) (''FILTER on aggregates is not supported '' @ column)) (\<lambda>_.
      rbind (reject_if (ag_has_order a) (''ORDER BY inside aggregates is not supported '' @ column)) (\<lambda>_.
      if cat_func_builtin cat (ag_fnoid a) \<and> name = ''count'' then
        (if ag_star a then Inr AggCount
         else rbind (reject_if (length args \<noteq> 1) ''count() must be count(*) or count(expression)'') (\<lambda>_.
           rbind (require_immutable cat (hd args) (''the argument of count() in column '' @ quoted alias)) (\<lambda>_.
           Inr (AggCountExpr (hd args)))))
      else if cat_func_builtin cat (ag_fnoid a) \<and> name = ''sum'' then
        rbind (reject_if (length args \<noteq> 1) ''sum() must have exactly one argument'') (\<lambda>_.
        rbind (require_immutable cat (hd args) (''the argument of sum() in column '' @ quoted alias)) (\<lambda>_.
        Inr (AggSum (hd args))))
      else reject (''aggregate '' @ quoted name @
        '' is not supported; only count(*), count(expression) and sum(expression) are accepted''))))))"

definition add_key :: "catalog \<Rightarrow> deparser \<Rightarrow> target_entry \<Rightarrow> populate_output \<Rightarrow> populate_output" where
  "add_key cat dep t out =
     (let expr = cat_deparse cat dep (te_expr t) in
      out\<lparr>ou_targets := ou_targets out @ [(TExpr expr, te_alias t)], ou_group := ou_group out @ [expr],
          ou_columns := ou_columns out @ [\<lparr>oc_expr = expr, oc_alias = te_alias t\<rparr>]\<rparr>)"

definition add_aggregate :: "catalog \<Rightarrow> deparser \<Rightarrow> string \<Rightarrow> agg_kind \<Rightarrow> populate_output \<Rightarrow> def_error + populate_output" where
  "add_aggregate cat dep alias kind out =
     (let index = ou_index out; out = out\<lparr>ou_index := index + 1\<rparr> in
      case kind of
        AggCount \<Rightarrow>
          rbind (reject_if (ou_count_alias out \<noteq> None) ''count(*) may appear only once'') (\<lambda>_.
          Inr (out\<lparr>ou_targets := ou_targets out @ [(TCountStar, alias)], ou_count_alias := Some alias\<rparr>))
      | AggCountExpr arg \<Rightarrow>
          (let expr = cat_deparse cat dep arg in
           Inr (out\<lparr>ou_targets := ou_targets out @ [(TCount expr, alias)],
                    ou_counts := ou_counts out @ [\<lparr>oc_expr = expr, oc_alias = alias\<rparr>]\<rparr>))
      | AggSum arg \<Rightarrow>
          (let expr = cat_deparse cat dep arg;
               counter = hidden_sum_counter_prefix @ int_text (int index) in
           Inr (out\<lparr>ou_targets := ou_targets out @ [(TSum expr, alias)],
                    ou_hidden_targets := ou_hidden_targets out @ [(TCount expr, counter)],
                    ou_hidden_columns := ou_hidden_columns out @ [counter],
                    ou_sums := ou_sums out @ [\<lparr>su_expr = expr, su_alias = alias, su_counter = counter\<rparr>]\<rparr>)))"

definition aggregate_target :: "catalog \<Rightarrow> deparser \<Rightarrow> nat list \<Rightarrow> target_entry \<Rightarrow> populate_output \<Rightarrow> def_error + populate_output" where
  "aggregate_target cat dep refs t out =
     (if is_group_key refs t then
        rbind (require_immutable cat (te_expr t) (''the GROUP BY key '' @ quoted (te_alias t))) (\<lambda>_.
        Inr (add_key cat dep t out))
      else case te_expr t of
        Aggref a args direct flt \<Rightarrow>
          rbind (classify_aggregate cat a args direct flt (te_alias t)) (\<lambda>kind.
          add_aggregate cat dep (te_alias t) kind out)
      | _ \<Rightarrow>
          (if cat_contain_agg cat (te_expr t)
           then reject (''column '' @ quoted (te_alias t) @
             '' is an expression over an aggregate; alias the aggregate and compute outside the view'')
           else reject (''column '' @ quoted (te_alias t) @
             '' is neither a GROUP BY key nor an accepted aggregate'')))"

definition aggregate_output :: "catalog \<Rightarrow> deparser \<Rightarrow> nat list \<Rightarrow> target_entry list \<Rightarrow> def_error + populate_output" where
  "aggregate_output cat dep refs visible =
     rbind (reject_if (refs = []) ''aggregates require a GROUP BY clause'') (\<lambda>_.
     rbind (rfold (aggregate_target cat dep refs) visible no_output) (\<lambda>out.
     rbind (reject_if (ou_columns out = []) ''at least one GROUP BY key must be selected'') (\<lambda>_.
     let out = out\<lparr>ou_targets := ou_targets out @ ou_hidden_targets out\<rparr> in
     Inr (if ou_count_alias out = None
          then out\<lparr>ou_targets := ou_targets out @ [(TCountStar, hidden_count_column)],
                   ou_count_alias := Some hidden_count_column,
                   ou_hidden_columns := ou_hidden_columns out @ [hidden_count_column],
                   ou_hidden_count := True\<rparr>
          else out))))"

text \<open>A column of a projection.\<close>

definition projection_target :: "catalog \<Rightarrow> deparser \<Rightarrow> target_entry \<Rightarrow> def_error + output_column" where
  "projection_target cat dep t =
     rbind (require_immutable cat (te_expr t) (''column '' @ quoted (te_alias t))) (\<lambda>_.
     Inr \<lparr>oc_expr = cat_deparse cat dep (te_expr t), oc_alias = te_alias t\<rparr>)"

text \<open>The hidden key columns of a join: every relation's primary key.\<close>

definition hidden_pk :: "base_relation \<Rightarrow> string \<Rightarrow> string" where
  "hidden_pk rel c = hidden_pk_prefix @ int_text (int (br_rti rel)) @ ''_'' @ c"

definition hidden_pk_targets :: "base_relation \<Rightarrow> (target \<times> string) list" where
  "hidden_pk_targets rel = map (\<lambda>c. (TColumn (br_alias rel) c, hidden_pk rel c)) (br_pk_columns rel)"

text \<open>
  The view columns that hold the primary key of a single table: for each key column the first target
  that is a plain reference to it, or the name of the missing column.
\<close>

definition pk_targets :: "int \<Rightarrow> (int \<times> string) list \<Rightarrow> target_entry list \<Rightarrow> (string + string) list" where
  "pk_targets rt_index pk visible =
     map (\<lambda>(attnum, name). case find (\<lambda>t. is_plain_var (te_expr t) rt_index attnum) visible of
            Some t \<Rightarrow> Inr (te_alias t)
          | None \<Rightarrow> Inl name) pk"

definition lefts :: "('a + 'b) list \<Rightarrow> 'a list" where
  "lefts xs = List.map_filter (\<lambda>x. case x of Inl a \<Rightarrow> Some a | Inr b \<Rightarrow> None) xs"

definition rights :: "('a + 'b) list \<Rightarrow> 'b list" where
  "rights xs = List.map_filter (\<lambda>x. case x of Inl a \<Rightarrow> None | Inr b \<Rightarrow> Some b) xs"

definition projection_output :: "catalog \<Rightarrow> deparser \<Rightarrow> bool \<Rightarrow> nat list \<Rightarrow> base_relation list \<Rightarrow> int \<Rightarrow>
    base_table \<Rightarrow> int list \<Rightarrow> target_entry list \<Rightarrow> def_error + populate_output" where
  "projection_output cat dep joined refs relations rt_index base pk_attnums visible =
     rbind (reject_if (refs \<noteq> []) ''GROUP BY without an aggregate is not supported'') (\<lambda>_.
     rbind (rmap (projection_target cat dep) visible) (\<lambda>cols.
     let out = no_output\<lparr>ou_targets := map (\<lambda>c. (TExpr (oc_expr c), oc_alias c)) cols, ou_columns := cols\<rparr> in
     if joined then
       (let hidden = concat (map hidden_pk_targets relations) in
        Inr (out\<lparr>ou_targets := ou_targets out @ hidden, ou_hidden_columns := map snd hidden,
                 ou_pk_view_columns := map snd hidden\<rparr>))
     else
       (let found = pk_targets rt_index (zip pk_attnums (bt_pk_columns base)) visible in
        rbind (reject_if (pk_attnums = [])
                 (bt_qualified base @ '' has no primary key; a projection view needs one to locate deleted rows'')) (\<lambda>_.
        rbind (reject_if (lefts found \<noteq> [])
                 (''the select list must include the primary key column(s) of '' @ bt_qualified base @
                  '' as plain columns: missing '' @ join_text '', '' (lefts found))) (\<lambda>_.
        Inr (out\<lparr>ou_pk_view_columns := rights found, ou_pk_columns := bt_pk_columns base\<rparr>))))))"

section \<open>Validation\<close>

definition eref_name :: "rte \<Rightarrow> string" where
  "eref_name r = (case rt_eref r of None \<Rightarrow> ''t'' | Some a \<Rightarrow> a)"

definition make_deparser :: "bool \<Rightarrow> query_tree \<Rightarrow> oid \<Rightarrow> string \<Rightarrow> deparser" where
  "make_deparser joined q relid relname =
     (if joined then DepRtable (qt_rtable q) (map eref_name (qt_rtable q)) else DepSingle relid relname)"

text \<open>Join alias Vars become base Vars, in the targets and in the quals.\<close>

definition flatten :: "catalog \<Rightarrow> bool \<Rightarrow> query_tree \<Rightarrow> node \<Rightarrow> node" where
  "flatten cat joined q n = (if joined then cat_flatten cat q n else n)"

definition flat_targets :: "catalog \<Rightarrow> bool \<Rightarrow> query_tree \<Rightarrow> target_entry list" where
  "flat_targets cat joined q =
     map (\<lambda>t. t\<lparr>te_expr := flatten cat joined q (te_expr t)\<rparr>) (qt_targets q)"

definition from_list :: "bool \<Rightarrow> base_relation list \<Rightarrow> base_table \<Rightarrow> string \<Rightarrow> from_item list" where
  "from_list joined relations base relname =
     (if joined then map (\<lambda>r. FTable (br_qualified r) (br_alias r)) relations
      else [FTable (bt_qualified base) relname])"

definition make_spec :: "bool \<Rightarrow> bool \<Rightarrow> base_table \<Rightarrow> string \<Rightarrow> string option \<Rightarrow> base_relation list \<Rightarrow>
    target_entry list \<Rightarrow> populate_output \<Rightarrow> view_spec" where
  "make_spec joined has_aggs base relname predicate relations visible out =
     (let group_by = (if ou_group out = [] then None else Some (ou_group out)) in
      \<lparr>sp_shape = (if has_aggs then Aggregate else Projection),
       sp_base_table = bt_qualified base, sp_base_relname = relname, sp_predicate = predicate,
       sp_columns = ou_columns out, sp_pk_columns = ou_pk_columns out,
       sp_pk_view_columns = ou_pk_view_columns out, sp_count_alias = ou_count_alias out,
       sp_hidden_count = ou_hidden_count out, sp_counts = ou_counts out, sp_sums = ou_sums out,
       sp_populate_sql = \<lparr>q_select = ou_targets out, q_from = from_list joined relations base relname,
         q_where = predicate, q_group_by = group_by\<rparr>,
       sp_relations = relations, sp_select_list = ou_targets out, sp_group_by = group_by,
       sp_visible_columns = map te_alias visible, sp_hidden_columns = ou_hidden_columns out\<rparr>)"

text \<open>
  The select list: the visible targets, after the checks on hidden GROUP BY expressions and names.
\<close>

definition visible_targets :: "nat list \<Rightarrow> int list \<Rightarrow> target_entry list \<Rightarrow> def_error + target_entry list" where
  "visible_targets refs allowed all =
     rbind (reject_if (\<exists>t \<in> set all. te_resjunk t \<and> is_group_key refs t)
              ''every GROUP BY expression must also appear in the select list'') (\<lambda>_.
     let visible = filter (\<lambda>t. \<not> te_resjunk t) all in
     rbind (reject_if (visible = []) ''the select list is empty'') (\<lambda>_.
     rbind (check_visible allowed [] visible) (\<lambda>_. Inr visible)))"

text \<open>Everything after the entries of the FROM clause are known.\<close>

definition validate_query :: "catalog \<Rightarrow> query_tree \<Rightarrow> rel_entry list \<Rightarrow>
    (base_relation \<times> base_table \<times> int list) list \<Rightarrow> def_error + view_spec \<times> base_table" where
  "validate_query cat q entries checked =
     (let joined = length entries > 1;
          (base, pk_attnums) = snd (hd checked);
          relname = cat_rel_name cat (bt_oid base);
          allowed = map fst entries;
          targets = flat_targets cat joined q;
          refs = qt_group q;
          dep = make_deparser joined q (bt_oid base) relname in
      rbind (collect_quals (qt_jointree q)) (\<lambda>quals0.
      let quals = map (flatten cat joined q) quals0;
          join_refs = concat (map (join_key_vars cat) quals);
          place = (if joined then ''the WHERE or ON clause'' else ''the WHERE clause'') in
      rbind (rmap (qual_text cat dep allowed place) quals) (\<lambda>parts.
      rbind (visible_targets refs allowed targets) (\<lambda>visible.
      let var_refs = concat (map referenced_vars (quals @ map te_expr visible)) in
      rbind (rmap (use_columns cat joined var_refs join_refs) (zip entries (map fst checked))) (\<lambda>relations.
      rbind (if qt_has_aggs q then aggregate_output cat dep refs visible
             else projection_output cat dep joined refs relations (fst (hd entries)) base pk_attnums visible) (\<lambda>out.
      Inr (make_spec joined (qt_has_aggs q) base relname (conjunction parts) relations visible out, base)))))))"

definition validate :: "catalog \<Rightarrow> string \<Rightarrow> def_error + view_spec \<times> base_table" where
  "validate cat definition =
     rbind (analyze cat definition) (\<lambda>q.
     rbind (reject_unsupported_clauses q) (\<lambda>_.
     rbind (collect_range_table q) (\<lambda>entries.
     rbind (check_entries cat (length entries > 1) [] 0 entries) (\<lambda>checked.
     validate_query cat q entries checked))))"

end
