(* ===== verification/Shadow_Tables.thy ===== *)
theory Shadow_Tables
  imports Shadow_Rows Validator "HOL-Library.List_Lexorder" "HOL-Library.Char_ord"
begin

text \<open>
  \<open>src/src/shadow.rs\<close>: creating, extending and rebuilding the shadow table of a base table, under the
  snapshot of a population. What the snapshot shows is a parameter: PostgreSQL's catalogs and the rows of
  every base table. The functions of \<open>shadow.rs\<close> raise on
  errors of PostgreSQL; on the statements they send nothing else can fail. Indexes other than the
  unique one, statistics and dependencies only concern speed and DDL and are not modelled.
\<close>

section \<open>Snapshots\<close>

record snapshot =
  sn_catalog :: catalog
  sn_rows :: "u32 \<Rightarrow> row list"
  sn_table :: "string \<Rightarrow> u32"                          \<comment> \<open>qualified name to oid\<close>

definition base_columns :: "snapshot \<Rightarrow> u32 \<Rightarrow> (string \<times> string) list" where
  "base_columns sn o1 = cat_columns (sn_catalog sn) o1"

text \<open>A \<open>BTreeSet\<close> is the sorted list of its elements.\<close>

definition btree :: "'a::linorder list \<Rightarrow> 'a list" where
  "btree xs = sort (remdups xs)"

lemma set_btree [simp]: "set (btree xs) = set xs"
  by (simp add: btree_def)

lemma distinct_btree [simp]: "distinct (btree xs)"
  by (simp add: btree_def)

lemma sorted_btree [simp]: "sorted (btree xs)"
  by (simp add: btree_def)

definition shadow_table_name :: "u32 \<Rightarrow> string" where
  "shadow_table_name o1 = ''nabla_shadow.t'' @ int_text (uint o1)"

section \<open>Column sets\<close>

record existing =
  ex_columns :: "string list"
  ex_types :: "string list"
  ex_join_keys :: "string list"

definition existing :: "u32 \<Rightarrow> db \<Rightarrow> existing option" where
  "existing o1 d =
     map_option (\<lambda>e. \<lparr>ex_columns = se_columns e, ex_types = se_column_types e, ex_join_keys = se_join_keys e\<rparr>)
       (find (\<lambda>e. se_relid e = o1) (db_shadows d))"

definition physical_columns :: "u32 \<Rightarrow> db \<Rightarrow> (string \<times> string) list" where
  "physical_columns o1 d = (case db_shadow_columns d o1 of None \<Rightarrow> [] | Some cs \<Rightarrow> cs)"

definition active_set :: "base_relation \<Rightarrow> string list \<Rightarrow> (string \<times> string) list \<Rightarrow>
    string list \<times> string list" where
  "active_set rel needed base =
     (let act = filter (\<lambda>(name, ty). name \<in> set (br_pk_columns rel) \<or> name \<in> set needed) base
      in (map fst act, map snd act))"

text \<open>The catalog part of \<open>index_join_keys\<close>: the union of the old and the new join keys.\<close>

definition index_join_keys :: "base_relation \<Rightarrow> string list \<Rightarrow> string list \<Rightarrow> db \<Rightarrow> db" where
  "index_join_keys rel previous keys =
     update_shadow (br_oid rel) (\<lambda>e. e\<lparr>se_join_keys := btree (previous @ keys)\<rparr>)"

definition store_columns :: "u32 \<Rightarrow> string list \<Rightarrow> string list \<Rightarrow> db \<Rightarrow> db" where
  "store_columns o1 names types = update_shadow o1 (\<lambda>e. e\<lparr>se_columns := names, se_column_types := types\<rparr>)"

section \<open>Columns and rows of the table\<close>

definition set_col :: "string \<Rightarrow> datum \<Rightarrow> row \<Rightarrow> row" where
  "set_col c x r =
     (if c \<in> set (map fst r) then map (\<lambda>(n, d). (n, if n = c then x else d)) r else r @ [(c, x)])"

lemma col_set_col [simp]: "col (set_col c x r) c' = (if c' = c then x else col r c')"
proof (cases "c \<in> set (map fst r)")
  case True
  have "map_of (map (\<lambda>(n, d). (n, if n = c then x else d)) r) c' =
      (if c' = c then map_option (\<lambda>_. x) (map_of r c') else map_of r c')"
    by (induction r) auto
  moreover from True have "\<exists>d. map_of r c = Some d" by (metis map_of_eq_None_iff not_None_eq set_map)
  ultimately show ?thesis using True by (auto simp: set_col_def col_def)
next
  case False
  then have "map_of r c = None" by (simp add: map_of_eq_None_iff)
  with False show ?thesis by (cases "map_of r c'") (auto simp: set_col_def col_def map_add_def)
qed

text \<open>
  \<open>ALTER TABLE ... ADD COLUMN\<close>, or \<open>ALTER COLUMN ... TYPE ty USING NULL\<close> when the column is there with
  another type.
\<close>

definition add_or_retype :: "u32 \<Rightarrow> (string \<times> string) list \<Rightarrow> string \<times> string \<Rightarrow> db \<Rightarrow> db" where
  "add_or_retype o1 physical nt d = (case nt of (name, ty) \<Rightarrow>
     case find (\<lambda>p. fst p = name) physical of
       None \<Rightarrow>
         d\<lparr>db_shadow_columns := (db_shadow_columns d)(o1 \<mapsto> physical_columns o1 d @ [(name, ty)]),
           db_shadow_rows := (db_shadow_rows d)(o1 := map (set_col name Null) (db_shadow_rows d o1))\<rparr>
     | Some (n, have1) \<Rightarrow>
         if have1 \<noteq> ty then
           d\<lparr>db_shadow_columns := (db_shadow_columns d)(o1 \<mapsto>
               map (\<lambda>p. if fst p = name then (name, ty) else p) (physical_columns o1 d)),
             db_shadow_rows := (db_shadow_rows d)(o1 := map (set_col name Null) (db_shadow_rows d o1))\<rparr>
         else d)"

text \<open>\<open>UPDATE shadow AS s SET c = b.c FROM base AS b WHERE s.pk = b.pk\<close>.\<close>

definition backfill :: "base_relation \<Rightarrow> string \<Rightarrow> row list \<Rightarrow> row list \<Rightarrow> row list" where
  "backfill rel c base rows =
     map (\<lambda>s. case find (same_key (br_pk_columns rel) s) base of
            None \<Rightarrow> s
          | Some b \<Rightarrow> set_col c (col b c) s) rows"

text \<open>\<open>SELECT names FROM base\<close>.\<close>

definition select_columns :: "string list \<Rightarrow> row list \<Rightarrow> row list" where
  "select_columns names rows = map (\<lambda>r. map (\<lambda>c. (c, col r c)) names) rows"

section \<open>Operations\<close>

definition extend_column :: "snapshot \<Rightarrow> base_relation \<Rightarrow> string list \<Rightarrow> (string \<times> string) list \<Rightarrow>
    string \<times> string \<Rightarrow> (string \<times> string) list \<times> db \<Rightarrow> (string \<times> string) list \<times> db" where
  "extend_column sn rel needed physical nt st = (case st of (acts, d) \<Rightarrow>
     if fst nt \<in> set (map fst acts) \<or> \<not> (fst nt \<in> set needed \<or> fst nt \<in> set (br_pk_columns rel))
     then (acts, d)
     else
       (let d = add_or_retype (br_oid rel) physical nt d in
        (acts @ [nt],
         d\<lparr>db_shadow_rows := (db_shadow_rows d)(br_oid rel :=
             backfill rel (fst nt) (sn_rows sn (br_oid rel)) (db_shadow_rows d (br_oid rel)))\<rparr>)))"

text \<open>The position of a column in the base table; \<open>usize::MAX\<close> is any number past the end.\<close>

definition attribute_order :: "(string \<times> string) list \<Rightarrow> string \<Rightarrow> nat" where
  "attribute_order base name = (case position (\<lambda>p. fst p = name) base of None \<Rightarrow> length base | Some i \<Rightarrow> i)"

definition extend_shadow :: "snapshot \<Rightarrow> base_relation \<Rightarrow> existing \<Rightarrow> string list \<Rightarrow> string list \<Rightarrow> db \<Rightarrow> db" where
  "extend_shadow sn rel current needed keys d =
     (let base = base_columns sn (br_oid rel);
          (acts, d) = fold (extend_column sn rel needed (physical_columns (br_oid rel) d)) base
             (zip (ex_columns current) (ex_types current), d);
          acts = sort_key (\<lambda>nt. attribute_order base (fst nt)) acts
      in index_join_keys rel (ex_join_keys current) keys
           (store_columns (br_oid rel) (map fst acts) (map snd acts) d))"

definition create_shadow :: "snapshot \<Rightarrow> base_relation \<Rightarrow> u64 \<Rightarrow> string list \<Rightarrow> string list \<Rightarrow> db \<Rightarrow> db" where
  "create_shadow sn rel frontier needed keys d =
     (let (names, types) = active_set rel needed (base_columns sn (br_oid rel)) in
      index_join_keys rel [] keys
        (d\<lparr>db_shadow_columns := (db_shadow_columns d)(br_oid rel \<mapsto> zip names types),
           db_shadow_rows := (db_shadow_rows d)(br_oid rel := select_columns names (sn_rows sn (br_oid rel))),
           db_shadows := db_shadows d @
             [\<lparr>se_relid = br_oid rel, se_table = shadow_table_name (br_oid rel), se_frontier = frontier,
               se_refcount = 1, se_columns = names, se_pk_columns = br_pk_columns rel,
               se_column_types = types, se_join_keys = [], se_failed = False, se_stale_reason = None\<rparr>]\<rparr>))"

definition rebuild_shadow :: "snapshot \<Rightarrow> base_relation \<Rightarrow> u64 \<Rightarrow> string list \<Rightarrow> string list \<Rightarrow> db \<Rightarrow> db" where
  "rebuild_shadow sn rel frontier needed keys d =
     (case existing (br_oid rel) d of
        None \<Rightarrow> create_shadow sn rel frontier needed keys d
      | Some current \<Rightarrow>
          (let (names, types) = active_set rel needed (base_columns sn (br_oid rel));
               physical = physical_columns (br_oid rel) d;
               d = d\<lparr>db_shadow_rows := (db_shadow_rows d)(br_oid rel := [])\<rparr>;
               d = fold (add_or_retype (br_oid rel) physical) (zip names types) d;
               d = d\<lparr>db_shadow_rows := (db_shadow_rows d)(br_oid rel :=
                       select_columns names (sn_rows sn (br_oid rel)))\<rparr>
           in update_shadow (br_oid rel)
                (\<lambda>e. e\<lparr>se_frontier := frontier, se_stale_reason := None, se_failed := False,
                      se_columns := names, se_pk_columns := br_pk_columns rel, se_column_types := types\<rparr>)
                (index_join_keys rel (ex_join_keys current) keys d)))"

definition shadow_failed :: "u32 \<Rightarrow> db \<Rightarrow> bool" where
  "shadow_failed o1 d = (case find (\<lambda>e. se_relid e = o1) (db_shadows d) of None \<Rightarrow> False | Some e \<Rightarrow> se_failed e)"

definition ensure_shadow :: "snapshot \<Rightarrow> base_relation \<Rightarrow> u64 \<Rightarrow> string list \<Rightarrow> string list \<Rightarrow> db \<Rightarrow> db" where
  "ensure_shadow sn rel frontier needed keys d =
     (case existing (br_oid rel) d of
        None \<Rightarrow> create_shadow sn rel frontier needed keys d
      | Some current \<Rightarrow>
          (let d = update_shadow (br_oid rel) (\<lambda>e. e\<lparr>se_refcount := se_refcount e + 1\<rparr>) d in
           if shadow_failed (br_oid rel) d then rebuild_shadow sn rel frontier needed keys d
           else extend_shadow sn rel current needed keys d))"

end
