(* ===== verification/Populate.thy ===== *)
theory Populate
  imports Shadow_Tables
begin

text \<open>
  \<open>src/src/populate.rs\<close>: building and rebuilding views. Each group of pending views is built in one
  transaction under a snapshot whose consistent point becomes the frontier of everything built. How
  PostgreSQL finds the consistent point (a temporary slot, \<open>DecodingContextFindStartpoint\<close>) is a
  parameter: an error, or the point with the snapshot taken there.
\<close>

section \<open>State\<close>

record pending =
  pe_id :: int
  pe_name :: string
  pe_status :: string
  pe_definition :: string
  pe_spec :: view_spec
  pe_populated :: bool

definition load_pending1 :: "view_entry \<Rightarrow> pending option" where
  "load_pending1 e = map_option (\<lambda>spec.
     \<lparr>pe_id = vw_id e, pe_name = vw_name e, pe_status = vw_status e, pe_definition = vw_definition e,
      pe_spec = spec, pe_populated = vw_populated e\<rparr>) (vw_spec e)"

definition load_pending :: "db \<Rightarrow> pending list" where
  "load_pending d = List.map_filter load_pending1
     (filter (\<lambda>e. vw_status e = ''initializing'' \<or> vw_status e = ''refreshing'') (db_views d))"

section \<open>Grouping\<close>

definition spec_relids :: "view_spec \<Rightarrow> u32 list" where
  "spec_relids spec = map br_oid (sp_relations spec)"

definition shared :: "pending \<Rightarrow> bool" where
  "shared view \<longleftrightarrow> pe_status view = ''refreshing'' \<and> is_join (pe_spec view)"

text \<open>
  One iteration: the groups and, in parallel, the relations of each group (empty for a view built on
  its own). The relations of a group are a set; the list only keeps its elements.
\<close>

definition group_step :: "pending \<Rightarrow> (pending list \<times> u32 list) list \<Rightarrow> (pending list \<times> u32 list) list" where
  "group_step view gs =
     (let rels = spec_relids (pe_spec view);
          target = (if shared view then position (\<lambda>g. \<exists>o1 \<in> set rels. o1 \<in> set (snd g)) gs else None)
      in case target of
           Some i \<Rightarrow> gs[i := (fst (gs ! i) @ [view], snd (gs ! i) @ rels)]
         | None \<Rightarrow> gs @ [([view], if shared view then rels else [])])"

definition group :: "pending list \<Rightarrow> pending list list" where
  "group ps = map fst (fold group_step ps [])"

section \<open>What the shadows must hold\<close>

text \<open>
  \<open>needed_columns\<close>: the used columns and join keys of a relation over every view in the catalog that
  references it, and over the view being built.
\<close>

definition spec_needs :: "u32 \<Rightarrow> view_spec \<Rightarrow> string list \<times> string list" where
  "spec_needs relid spec =
     (let rs = filter (\<lambda>r. br_oid r = relid) (sp_relations spec)
      in (concat (map br_used_columns rs), concat (map br_join_keys rs)))"

definition needed_columns :: "db \<Rightarrow> u32 \<Rightarrow> view_spec \<Rightarrow> string list \<times> string list" where
  "needed_columns d relid own =
     (let views = filter (\<lambda>v. (vw_id v, relid) \<in> set (db_relations d)) (db_views d);
          specs = List.map_filter vw_spec views @ [own]
      in (btree (concat (map (fst \<circ> spec_needs relid) specs)),
          btree (concat (map (snd \<circ> spec_needs relid) specs))))"

section \<open>Building one view\<close>

text \<open>\<open>populate_sql\<close> under the snapshot.\<close>

definition query_sources :: "snapshot \<Rightarrow> query \<Rightarrow> (string \<times> row list) list" where
  "query_sources sn q = map (\<lambda>f. case f of FTable table alias \<Rightarrow> (alias, sn_rows sn (sn_table sn table))) (q_from q)"

definition run_query :: "pg \<Rightarrow> snapshot \<Rightarrow> query \<Rightarrow> string + row list" where
  "run_query pg sn q = sql_select pg (q_select q) (q_where q) (q_group_by q) (cross (query_sources sn q))"

text \<open>The unique index of \<open>view_ddl\<close> accepts the rows.\<close>

fun unique_rows :: "view_spec \<Rightarrow> row list \<Rightarrow> bool" where
  "unique_rows spec [] \<longleftrightarrow> True"
| "unique_rows spec (r # rs) \<longleftrightarrow> (\<forall>s \<in> set rs. \<not> conflicts spec r s) \<and> unique_rows spec rs"

text \<open>
  The storage table is created or refilled; a failing query or a duplicate key raises and aborts the
  whole group.
\<close>

definition fill_storage :: "pg \<Rightarrow> snapshot \<Rightarrow> int \<Rightarrow> view_spec \<Rightarrow> db \<Rightarrow> string + db" where
  "fill_storage pg sn i spec d =
     rbind (run_query pg sn (sp_populate_sql spec)) (\<lambda>rows.
     if unique_rows spec rows then Inr (d\<lparr>db_storage := (db_storage d)(i \<mapsto> rows)\<rparr>)
     else Inl ''could not create unique index'')"

definition build_shadow :: "snapshot \<Rightarrow> bool \<Rightarrow> u64 \<Rightarrow> view_spec \<Rightarrow> base_relation \<Rightarrow> u32 list \<times> db \<Rightarrow>
    u32 list \<times> db" where
  "build_shadow sn rebuild point spec rel st = (case st of (seen, d) \<Rightarrow>
     if br_oid rel \<in> set seen then (seen, d)
     else (let (needed, keys) = needed_columns d (br_oid rel) spec in
           (br_oid rel # seen,
            if rebuild then rebuild_shadow sn rel point needed keys d
            else ensure_shadow sn rel point needed keys d)))"

definition build_shadows :: "snapshot \<Rightarrow> bool \<Rightarrow> u64 \<Rightarrow> view_spec \<Rightarrow> u32 list \<times> db \<Rightarrow> u32 list \<times> db" where
  "build_shadows sn rebuild point spec st = fold (build_shadow sn rebuild point spec) (sp_relations spec) st"

definition mark_live :: "int \<Rightarrow> u64 \<Rightarrow> int \<Rightarrow> db \<Rightarrow> db" where
  "mark_live i point bump d =
     (update_view i
        (\<lambda>e. e\<lparr>vw_frontier := point, vw_epoch := vw_epoch e + bump, vw_status := ''live'',
              vw_apply_failures := 0, vw_last_error := None, vw_stale_reason := None, vw_populated := True\<rparr>) d)
     \<lparr>db_deltas := filter (\<lambda>e. de_view e \<noteq> i) (db_deltas d)\<rparr>"

definition mark_failed :: "int \<Rightarrow> string \<Rightarrow> db \<Rightarrow> db" where
  "mark_failed i message = update_view i (\<lambda>e. e\<lparr>vw_status := ''failed'', vw_last_error := Some message\<rparr>)"

definition build_spec :: "pg \<Rightarrow> snapshot \<Rightarrow> u64 \<Rightarrow> bool \<Rightarrow> pending \<Rightarrow> view_spec \<Rightarrow> u32 list \<times> db \<Rightarrow>
    string + u32 list \<times> db" where
  "build_spec pg sn point rebuild view spec st =
     (let (seen, d) = (if is_join spec then build_shadows sn rebuild point spec st else st) in
      rbind (fill_storage pg sn (pe_id view) spec d) (\<lambda>d.
      Inr (seen, mark_live (pe_id view) point (if rebuild then 1 else 0) d)))"

text \<open>The definition of a view that is rebuilt, validated against the current schema.\<close>

definition revalidate :: "snapshot \<Rightarrow> string \<Rightarrow> string + view_spec" where
  "revalidate sn definition =
     (case validate (sn_catalog sn) definition of
        Inl e \<Rightarrow> Inl (def_message e)
      | Inr (spec, base) \<Rightarrow> Inr spec)"

definition build :: "pg \<Rightarrow> snapshot \<Rightarrow> u64 \<Rightarrow> pending \<Rightarrow> u32 list \<times> db \<Rightarrow> string + u32 list \<times> db" where
  "build pg sn point view st =
     (let rebuild = (pe_status view = ''refreshing'' \<and> pe_populated view) in
      if rebuild then
        (case revalidate sn (pe_definition view) of
           Inl message \<Rightarrow> Inr (fst st, mark_failed (pe_id view) message (snd st))
         | Inr spec \<Rightarrow>
             build_spec pg sn point rebuild view spec
               (fst st, update_view (pe_id view) (\<lambda>e. e\<lparr>vw_spec := Some spec\<rparr>) (snd st)))
      else build_spec pg sn point rebuild view (pe_spec view) st)"

section \<open>Groups\<close>

text \<open>
  \<open>populate_group\<close>: aborted on every error. \<open>find_point\<close> gives the consistent point and the
  snapshot for the temporary slot of a group.
\<close>

definition populate_group :: "pg \<Rightarrow> (int \<Rightarrow> string + u64 \<times> snapshot) \<Rightarrow> pending list \<Rightarrow> db \<Rightarrow>
    (string + u64) \<times> db" where
  "populate_group pg find_point g d =
     (case rbind (find_point (pe_id (hd g))) (\<lambda>(point, sn).
         if (case db_slot d of None \<Rightarrow> False | Some main \<Rightarrow> main > point)
         then Inl (''main slot at '' @ lsn_format (the (db_slot d)) @ '' is past the consistent point '' @ lsn_format point)
         else rbind (rfold (build pg sn point) g ([], d)) (\<lambda>(seen, d). Inr (point, d))) of
        Inl message \<Rightarrow> (Inl message, d)
      | Inr (point, d') \<Rightarrow> (Inr point, d'))"

definition record_group_failure :: "pending list \<Rightarrow> string \<Rightarrow> db \<Rightarrow> db" where
  "record_group_failure g message d = fold (\<lambda>view. mark_failed (pe_id view) message) g d"

text \<open>\<open>run_pending\<close>: whether something was attempted, and the database.\<close>

definition run_group :: "pg \<Rightarrow> (int \<Rightarrow> string + u64 \<times> snapshot) \<Rightarrow> pending list \<Rightarrow> db \<Rightarrow> db" where
  "run_group pg find_point g d =
     (case populate_group pg find_point g d of
        (Inr point, d') \<Rightarrow> d'
      | (Inl message, d') \<Rightarrow> record_group_failure g message d')"

definition run_pending :: "pg \<Rightarrow> (int \<Rightarrow> string + u64 \<times> snapshot) \<Rightarrow> db \<Rightarrow> bool \<times> db" where
  "run_pending pg find_point d =
     (let pending = load_pending d in
      if pending = [] then (False, d) else (True, fold (run_group pg find_point) (group pending) d))"

end
