(* ===== verification/Worker.thy ===== *)
theory Worker
  imports Round Populate
begin

text \<open>
  One poll of the background worker: \<open>run_round\<close> and the loop of \<open>worker_main\<close> of
  \<open>src/src/worker.rs\<close>. What the server answers during the poll is a parameter: whether the extension
  is installed, its WAL positions, and the changes the slot peeks up to a position. Each transaction
  of the worker that fails leaves the database as it was.
\<close>

section \<open>State\<close>

record server =
  sv_installed :: bool
  sv_find_point :: "int \<Rightarrow> string + u64 \<times> snapshot"
  sv_current_lsn :: u64
  sv_flush_lsn :: u64
  sv_peek :: "u64 \<Rightarrow> u64 \<Rightarrow> int \<Rightarrow> u8 list list"        \<comment> \<open>confirmed, target, limit\<close>
  sv_flush_after :: u64                             \<comment> \<open>flush position after the idle advance\<close>

record worker_state =
  ws_decoder :: decoder
  ws_self_flush :: u64
  ws_last_advance :: u64
  ws_reported_missing_extension :: bool

text \<open>The worker's memory, the database, and the idle window in shared memory.\<close>

record world =
  wd_state :: worker_state
  wd_db :: db
  wd_idle :: idle_shmem

datatype poll = PollIdle | MoreWork

definition new_worker_state :: worker_state where
  "new_worker_state = \<lparr>ws_decoder = new_decoder, ws_self_flush = 0, ws_last_advance = 0,
     ws_reported_missing_extension = False\<rparr>"

section \<open>Steps of a poll\<close>

text \<open>
  \<open>advance_slot\<close>: never backwards (\<open>GREATEST\<close>), nothing when there is no slot.
\<close>

definition advance_slot :: "u64 \<Rightarrow> db \<Rightarrow> db" where
  "advance_slot to d = d\<lparr>db_slot := map_option (max to) (db_slot d)\<rparr>"

definition lag_reason :: string where
  "lag_reason = ''replication slot lag exceeded nabla.max_slot_lag_bytes; slot dropped''"

definition drop_lagging_slot :: "db \<Rightarrow> db" where
  "drop_lagging_slot d =
     d\<lparr>db_views := map (\<lambda>v. if live v then v\<lparr>vw_status := ''stale'', vw_stale_reason := Some lag_reason\<rparr> else v)
         (db_views d),
       db_slot := None\<rparr>"

definition batch_limit :: "host \<Rightarrow> int" where
  "batch_limit h = max (st_batch_changes (h_settings h)) 1"

text \<open>The idle advance: everything up to \<open>frontier\<close> was decoded.\<close>

definition raise_frontiers :: "u64 \<Rightarrow> db \<Rightarrow> db" where
  "raise_frontiers frontier d =
     advance_slot frontier
       (d\<lparr>db_views := map (\<lambda>v. if live v \<and> vw_frontier v < frontier then v\<lparr>vw_frontier := frontier\<rparr> else v) (db_views d),
          db_shadows := map (\<lambda>s. if \<not> se_failed s \<and> se_frontier s < frontier then s\<lparr>se_frontier := frontier\<rparr> else s)
            (db_shadows d)\<rparr>)"

definition feed_all :: "u8 list list \<Rightarrow> decoder \<Rightarrow> feed_error + decoder" where
  "feed_all rows dec = rfold feed rows dec"

text \<open>
  The decoder after the peek, with an incomplete tail discarded, and its complete transactions.
\<close>

definition decode_peek :: "u8 list list \<Rightarrow> decoder \<Rightarrow> feed_error + source_transaction list \<times> decoder" where
  "decode_peek rows dec =
     rbind (feed_all rows dec) (\<lambda>dec.
     Inr (take_complete (if has_incomplete dec then discard_incomplete dec else dec)))"

text \<open>The end of a poll that blocked nothing: the idle advance when the peek drained the slot.\<close>

definition finish_poll :: "server \<Rightarrow> bool \<Rightarrow> u64 \<Rightarrow> u64 \<Rightarrow> world \<Rightarrow> poll \<times> world" where
  "finish_poll sv drained target last_end w =
     (if drained then
        (let frontier = max target last_end in
         (PollIdle,
          w\<lparr>wd_db := raise_frontiers frontier (wd_db w),
            wd_state := (wd_state w)\<lparr>ws_self_flush := sv_flush_after sv, ws_last_advance := frontier\<rparr>,
            wd_idle := publish frontier frontier (wd_idle w)\<rparr>))
      else (MoreWork, w))"

text \<open>
  The transactions of the peek: applied in one round; a blocked round advances the slot to just
  before the transaction to retry.
\<close>

definition apply_peek :: "host \<Rightarrow> server \<Rightarrow> bool \<Rightarrow> u64 \<Rightarrow> u64 \<Rightarrow> source_transaction list \<Rightarrow> world \<Rightarrow>
    (string + poll) \<times> world" where
  "apply_peek h sv drained confirmed target txs w =
     (if txs = [] then
        (case finish_poll sv drained target confirmed w of (p, w') \<Rightarrow> (Inr p, w'))
      else case try_flat (apply_round h (ws_decoder (wd_state w)) txs) (wd_db w) of
        (Inl message, d) \<Rightarrow> (Inl message, w\<lparr>wd_db := d\<rparr>)
      | (Inr (dec, stats), d) \<Rightarrow>
          (let w = w\<lparr>wd_db := d, wd_state := (wd_state w)\<lparr>ws_decoder := dec\<rparr>\<rparr> in
           case rs_blocked_at stats of
             Some k \<Rightarrow>
               (Inr PollIdle,
                if k > 0 then w\<lparr>wd_db := advance_slot (tx_end_lsn (txs ! (k - 1))) (wd_db w)\<rparr> else w)
           | None \<Rightarrow>
               (let last_end = max confirmed (tx_end_lsn (txs ! (rs_processed stats - 1)));
                    w = w\<lparr>wd_db := advance_slot last_end (wd_db w)\<rparr>
                in case finish_poll sv drained target last_end w of (p, w') \<Rightarrow> (Inr p, w'))))"

definition decode_failed :: string where
  "decode_failed = ''could not decode the peek''"

definition peek :: "host \<Rightarrow> server \<Rightarrow> u64 \<Rightarrow> u8 list list" where
  "peek h sv confirmed =
     (if sv_flush_lsn sv \<le> confirmed then [] else sv_peek sv confirmed (sv_flush_lsn sv) (batch_limit h))"

definition slot_drained :: "host \<Rightarrow> u8 list list \<Rightarrow> bool" where
  "slot_drained h rows \<longleftrightarrow> int (length rows) < batch_limit h"

definition poll_slot :: "host \<Rightarrow> server \<Rightarrow> u64 \<Rightarrow> world \<Rightarrow> (string + poll) \<times> world" where
  "poll_slot h sv confirmed w =
     (let target = sv_flush_lsn sv;
          rows = peek h sv confirmed
      in if rows = [] \<and> target = ws_self_flush (wd_state w) then
           (Inr PollIdle,
            if ws_last_advance (wd_state w) > 0
            then w\<lparr>wd_idle := publish (ws_last_advance (wd_state w)) target (wd_idle w)\<rparr> else w)
         else case decode_peek rows (ws_decoder (wd_state w)) of
           Inl e \<Rightarrow> (Inl decode_failed, w)
         | Inr (txs, dec) \<Rightarrow>
             apply_peek h sv (slot_drained h rows) confirmed target txs
               (w\<lparr>wd_state := (wd_state w)\<lparr>ws_decoder := dec\<rparr>\<rparr>))"

text \<open>
  The lag is \<open>pg_current_wal_lsn() - confirmed_flush_lsn\<close>, a difference of positions.
\<close>

definition slot_lag :: "server \<Rightarrow> u64 \<Rightarrow> int" where
  "slot_lag sv confirmed = uint (sv_current_lsn sv) - uint confirmed"

definition run_round :: "host \<Rightarrow> server \<Rightarrow> world \<Rightarrow> (string + poll) \<times> world" where
  "run_round h sv w =
     (if \<not> sv_installed sv then
        (Inr PollIdle, w\<lparr>wd_state := (wd_state w)\<lparr>ws_reported_missing_extension := True\<rparr>\<rparr>)
      else
        (let w = w\<lparr>wd_state := (wd_state w)\<lparr>ws_reported_missing_extension := False\<rparr>,
                   wd_db := snd (run_pending (h_pg h) (sv_find_point sv) (wd_db w))\<rparr>
         in case db_slot (wd_db w) of
              None \<Rightarrow> (Inr PollIdle, w)
            | Some slot \<Rightarrow>
                (let confirmed = read_lsn slot in
                 if slot_lag sv confirmed > st_max_slot_lag_bytes (h_settings h)
                 then (Inr PollIdle, w\<lparr>wd_db := drop_lagging_slot (wd_db w)\<rparr>)
                 else poll_slot h sv confirmed w)))"

text \<open>
  One iteration of the loop of \<open>worker_main\<close>: an error discards the decoder and is retried; the
  result says whether the next poll starts without waiting.
\<close>

definition worker_iteration :: "host \<Rightarrow> server \<Rightarrow> world \<Rightarrow> bool \<times> world" where
  "worker_iteration h sv w =
     (case run_round h sv w of
        (Inr MoreWork, w') \<Rightarrow> (True, w')
      | (Inr PollIdle, w') \<Rightarrow> (False, w')
      | (Inl message, w') \<Rightarrow> (False, w'\<lparr>wd_state := (wd_state w')\<lparr>ws_decoder := new_decoder\<rparr>\<rparr>))"

fun worker_run :: "host \<Rightarrow> server list \<Rightarrow> world \<Rightarrow> world" where
  "worker_run h [] w = w"
| "worker_run h (sv # svs) w = worker_run h svs (snd (worker_iteration h sv w))"

end
