(* ===== verification/Populate_Facts.thy ===== *)
theory Populate_Facts
  imports Populate Round_Properties
begin

text \<open>
  What a population changes: the shadow operations touch shadow tables and their catalog only, a
  build touches one view, and the invariants of the catalog survive every group, built or failed.
\<close>

section \<open>Shadow operations\<close>

definition shadow_only :: "db \<Rightarrow> db \<Rightarrow> bool" where
  "shadow_only d d' \<longleftrightarrow>
     db_views d' = db_views d \<and> db_deltas d' = db_deltas d \<and> db_slot d' = db_slot d \<and>
     db_relations d' = db_relations d \<and> db_storage d' = db_storage d \<and> db_notified d' = db_notified d"

lemma shadow_only_refl [simp, intro]: "shadow_only d d"
  by (simp add: shadow_only_def)

lemma shadow_only_trans: "shadow_only d e \<Longrightarrow> shadow_only e f \<Longrightarrow> shadow_only d f"
  by (simp add: shadow_only_def)

lemma shadow_only_fold:
  "(\<And>x d. shadow_only d (f x d)) \<Longrightarrow> shadow_only d (fold f xs d)"
  by (induction xs arbitrary: d) (auto intro: shadow_only_trans)

lemma shadow_only_update_shadow: "shadow_only d (update_shadow o1 f d)"
  by (simp add: shadow_only_def)

lemma shadow_only_add_or_retype: "shadow_only d (add_or_retype o1 physical nt d)"
  by (auto simp: shadow_only_def add_or_retype_def split: prod.splits option.splits)

lemma shadow_only_extend_column: "shadow_only d (snd (extend_column sn rel needed physical nt (acts, d)))"
proof -
  have "shadow_only d ((add_or_retype o1 physical nt d)\<lparr>db_shadow_rows := r\<rparr>)" for o1 r
    using shadow_only_add_or_retype [of d o1 physical nt] by (simp add: shadow_only_def)
  then show ?thesis by (simp add: extend_column_def Let_def)
qed

lemma shadow_only_extend: "shadow_only d (extend_shadow sn rel current needed keys d)"
proof -
  have fold: "shadow_only d (snd (fold (extend_column sn rel needed physical) nts (acts, d)))" for physical nts acts d
  proof (induction nts arbitrary: acts d)
    case Nil
    show ?case by simp
  next
    case (Cons nt nts)
    obtain acts' d' where s: "extend_column sn rel needed physical nt (acts, d) = (acts', d')" by (rule prod.exhaust)
    then have "shadow_only d d'" using shadow_only_extend_column [of d sn rel needed physical nt acts] by simp
    with Cons.IH [where acts = acts' and d = d'] s show ?case by (auto intro: shadow_only_trans)
  qed
  obtain acts d' where s: "fold (extend_column sn rel needed (physical_columns (br_oid rel) d))
      (base_columns sn (br_oid rel)) (zip (ex_columns current) (ex_types current), d) = (acts, d')"
    by (rule prod.exhaust)
  then have "shadow_only d d'"
    using fold [where physical = "physical_columns (br_oid rel) d"] by (metis snd_conv)
  then show ?thesis
    by (simp add: extend_shadow_def Let_def s index_join_keys_def store_columns_def shadow_only_def)
qed

lemma shadow_only_create: "shadow_only d (create_shadow sn rel frontier needed keys d)"
  by (auto simp: create_shadow_def Let_def index_join_keys_def shadow_only_def split: prod.splits)

lemma fold_add_or_retype [simp]:
  "db_views (fold (add_or_retype o1 physical) nts d) = db_views d"
  "db_deltas (fold (add_or_retype o1 physical) nts d) = db_deltas d"
  "db_slot (fold (add_or_retype o1 physical) nts d) = db_slot d"
  "db_relations (fold (add_or_retype o1 physical) nts d) = db_relations d"
  "db_storage (fold (add_or_retype o1 physical) nts d) = db_storage d"
  "db_notified (fold (add_or_retype o1 physical) nts d) = db_notified d"
  using shadow_only_fold [of "add_or_retype o1 physical", OF shadow_only_add_or_retype, of d nts]
  by (simp_all add: shadow_only_def)

lemma shadow_only_rebuild: "shadow_only d (rebuild_shadow sn rel frontier needed keys d)"
proof (cases "existing (br_oid rel) d")
  case None
  then show ?thesis by (simp add: rebuild_shadow_def shadow_only_create)
next
  case (Some current)
  then show ?thesis
    by (simp add: rebuild_shadow_def Let_def index_join_keys_def shadow_only_def split: prod.splits)
qed

lemma shadow_only_ensure: "shadow_only d (ensure_shadow sn rel frontier needed keys d)"
  by (auto simp: ensure_shadow_def Let_def intro: shadow_only_trans shadow_only_update_shadow
      shadow_only_create shadow_only_rebuild shadow_only_extend split: option.splits)

lemma shadow_only_build_shadow: "shadow_only d (snd (build_shadow sn rebuild point spec rel (seen, d)))"
  by (simp add: build_shadow_def shadow_only_rebuild shadow_only_ensure split: prod.splits)

lemma shadow_only_build_shadows: "shadow_only d (snd (build_shadows sn rebuild point spec (seen, d)))"
proof -
  have "shadow_only d (snd (fold (build_shadow sn rebuild point spec) rels (seen, d)))" for rels
  proof (induction rels arbitrary: seen d)
    case Nil
    show ?case by simp
  next
    case (Cons rel rels)
    obtain seen' d' where s: "build_shadow sn rebuild point spec rel (seen, d) = (seen', d')" by (rule prod.exhaust)
    then have "shadow_only d d'" using shadow_only_build_shadow [of d sn rebuild point spec rel seen] by simp
    with Cons.IH [where seen = seen' and d = d'] s show ?case by (auto intro: shadow_only_trans)
  qed
  then show ?thesis by (simp add: build_shadows_def)
qed

section \<open>The invariant of the database between polls\<close>

text \<open>
  The slot's position never passes the frontier of a view the worker maintains: whatever such a view
  has not absorbed can still be decoded.
\<close>

definition slot_behind :: "db \<Rightarrow> bool" where
  "slot_behind d \<longleftrightarrow>
     (\<forall>e \<in> set (db_views d). loaded e \<longrightarrow>
        (case db_slot d of None \<Rightarrow> True | Some s \<Rightarrow> s \<le> vw_frontier e))"

definition db_ok :: "db \<Rightarrow> bool" where
  "db_ok d \<longleftrightarrow> catalog_ok d \<and> slot_behind d"

lemma slot_behindD: "slot_behind d \<Longrightarrow> e \<in> set (db_views d) \<Longrightarrow> loaded e \<Longrightarrow> db_slot d = Some s \<Longrightarrow> s \<le> vw_frontier e"
  by (auto simp: slot_behind_def)

text \<open>Changing one row of the catalog.\<close>

lemma db_ok_update_view:
  assumes "db_ok d" and "\<And>e. vw_id (f e) = vw_id e"
    and "\<And>e. e \<in> set (db_views d) \<Longrightarrow> vw_id e = i \<Longrightarrow> log_ok e (deltas_of i d) \<Longrightarrow> log_ok (f e) (filter p (deltas_of i d))"
    and "\<And>e. e \<in> set (db_views d) \<Longrightarrow> vw_id e = i \<Longrightarrow> loaded (f e) \<Longrightarrow>
      (case db_slot d of None \<Rightarrow> True | Some s \<Rightarrow> s \<le> vw_frontier (f e))"
    and "\<And>e. de_view e \<noteq> i \<Longrightarrow> p e"
  shows "db_ok ((update_view i f d)\<lparr>db_deltas := filter p (db_deltas d)\<rparr>)"
proof -
  let ?d = "(update_view i f d)\<lparr>db_deltas := filter p (db_deltas d)\<rparr>"
  have views: "db_views ?d = map (\<lambda>v. if vw_id v = i then f v else v) (db_views d)"
    by (simp add: update_view_def)
  have del: "deltas_of j ?d = filter p (deltas_of j d)" for j
    by (simp add: deltas_of_def conj_commute)
  have del': "deltas_of j ?d = deltas_of j d" if "j \<noteq> i" for j
    using that assms(5) unfolding del by (auto simp: deltas_of_def intro!: filter_cong)
  have "unique_ids ?d"
    using assms(1) ids_update_view [of f i d, OF assms(2)]
    by (simp add: db_ok_def catalog_ok_def unique_ids_def)
  moreover have "log_ok v (deltas_of (vw_id v) ?d)" if mem: "v \<in> set (db_views ?d)" for v
  proof -
    obtain e where e: "e \<in> set (db_views d)" "v = (if vw_id e = i then f e else e)"
      using mem unfolding views by auto
    then have "log_ok e (deltas_of (vw_id e) d)" using assms(1) by (auto simp: db_ok_def catalog_ok_def)
    with e assms(2,3) del del' show ?thesis by (cases "vw_id e = i") auto
  qed
  moreover have "slot_behind ?d"
    using assms(1,4) unfolding slot_behind_def views
    by (auto simp: db_ok_def slot_behind_def split: option.splits)
  ultimately show ?thesis by (auto simp: db_ok_def catalog_ok_def)
qed

lemma db_ok_shadow_only: "shadow_only d d' \<Longrightarrow> db_ok d' = db_ok d"
  by (simp add: shadow_only_def db_ok_def catalog_ok_def unique_ids_def slot_behind_def deltas_of_def)

lemma log_ok_Nil [simp]: "log_ok e []"
  by (simp add: log_ok_def)

lemma db_ok_mark_failed: "db_ok d \<Longrightarrow> db_ok (mark_failed i message d)"
proof -
  assume ok: "db_ok d"
  let ?f = "\<lambda>e. e\<lparr>vw_status := ''failed'', vw_last_error := Some message\<rparr>"
  have "db_ok ((update_view i ?f d)\<lparr>db_deltas := filter (\<lambda>_. True) (db_deltas d)\<rparr>)"
    using ok by (rule db_ok_update_view) (auto simp: log_ok_def loaded_def live_def)
  then show ?thesis by (simp add: mark_failed_def update_view_def)
qed

lemma db_ok_storage [simp]: "db_ok (d\<lparr>db_storage := s\<rparr>) = db_ok d"
  by (simp add: db_ok_def catalog_ok_def unique_ids_def slot_behind_def deltas_of_def)

lemma mark_live_eq:
  "mark_live i point bump (update_view i (\<lambda>e. e\<lparr>vw_spec := x\<rparr>) d) =
   (update_view i (\<lambda>e. e\<lparr>vw_spec := x, vw_frontier := point, vw_epoch := vw_epoch e + bump, vw_status := ''live'',
      vw_apply_failures := 0, vw_last_error := None, vw_stale_reason := None, vw_populated := True\<rparr>) d)
   \<lparr>db_deltas := filter (\<lambda>e. de_view e \<noteq> i) (db_deltas d)\<rparr>"
  by (simp add: mark_live_def update_view_def)

lemma filter_deltas_of [simp]: "filter (\<lambda>e. de_view e \<noteq> i) (deltas_of i d) = []"
  by (simp add: deltas_of_def)

lemma db_ok_mark_live:
  assumes "db_ok d" and "case db_slot d of None \<Rightarrow> True | Some s \<Rightarrow> s \<le> point"
  shows "db_ok (mark_live i point bump d)"
  using assms unfolding mark_live_def by (intro db_ok_update_view) (auto split: option.splits)

lemma db_ok_mark_live_spec:
  assumes "db_ok d" and "case db_slot d of None \<Rightarrow> True | Some s \<Rightarrow> s \<le> point"
  shows "db_ok (mark_live i point bump (update_view i (\<lambda>e. e\<lparr>vw_spec := x\<rparr>) d))"
  using assms unfolding mark_live_eq by (intro db_ok_update_view) (auto split: option.splits)

text \<open>A build either raises, fails its view, or makes it live at the consistent point.\<close>

lemma build_spec_db:
  assumes "build_spec pg sn point rebuild view spec (seen, d) = Inr (seen', d')"
  shows "\<exists>e s. shadow_only d e \<and>
    d' = mark_live (pe_id view) point (if rebuild then 1 else 0) (e\<lparr>db_storage := s\<rparr>) \<and>
    (\<exists>rows. run_query pg sn (sp_populate_sql spec) = Inr rows \<and> unique_rows spec rows \<and>
      s = (db_storage d)(pe_id view \<mapsto> rows))"
proof -
  obtain seen1 e where e: "(if is_join spec then build_shadows sn rebuild point spec (seen, d) else (seen, d)) = (seen1, e)"
    by (rule prod.exhaust)
  have so: "shadow_only d e"
    using e shadow_only_build_shadows [of d sn rebuild point spec seen] by (auto split: if_splits)
  obtain rows where rows: "run_query pg sn (sp_populate_sql spec) = Inr rows" "unique_rows spec rows"
    "d' = mark_live (pe_id view) point (if rebuild then 1 else 0) (e\<lparr>db_storage := (db_storage e)(pe_id view \<mapsto> rows)\<rparr>)"
    using assms e by (auto simp: build_spec_def fill_storage_def rbind_Inr_iff split: if_splits)
  moreover have "db_storage e = db_storage d" using so by (simp add: shadow_only_def)
  ultimately show ?thesis using so by metis
qed

lemma slot_mark_live [simp]: "db_slot (mark_live i point bump d) = db_slot d"
  by (simp add: mark_live_def)

lemma slot_mark_failed [simp]: "db_slot (mark_failed i message d) = db_slot d"
  by (simp add: mark_failed_def)

lemma update_view_storage: "update_view i f (e\<lparr>db_storage := s\<rparr>) = (update_view i f e)\<lparr>db_storage := s\<rparr>"
  by (simp add: update_view_def)

lemma mark_live_storage:
  "mark_live i point bump (e\<lparr>db_storage := s\<rparr>) = (mark_live i point bump e)\<lparr>db_storage := s\<rparr>"
  by (simp add: mark_live_def update_view_storage)

lemma build_ok:
  assumes "build pg sn point view (seen, d) = Inr (seen', d')"
    and "db_ok d" and "case db_slot d of None \<Rightarrow> True | Some s \<Rightarrow> s \<le> point"
  shows "db_ok d' \<and> db_slot d' = db_slot d"
proof -
  let ?upd = "\<lambda>spec. update_view (pe_id view) (\<lambda>e. e\<lparr>vw_spec := Some spec\<rparr>)"
  consider (failed) message where "d' = mark_failed (pe_id view) message d"
    | (rebuilt) spec where "build_spec pg sn point True view spec (seen, ?upd spec d) = Inr (seen', d')"
    | (built) r where "build_spec pg sn point r view (pe_spec view) (seen, d) = Inr (seen', d')"
    using assms(1) by (auto simp: build_def Let_def split: if_splits sum.splits)
  then show ?thesis
  proof cases
    case failed
    with assms(2) db_ok_mark_failed show ?thesis by simp
  next
    case rebuilt
    from build_spec_db [OF this] obtain e s where e: "shadow_only (?upd spec d) e"
      "d' = mark_live (pe_id view) point 1 (e\<lparr>db_storage := s\<rparr>)" by auto
    let ?m = "mark_live (pe_id view) point 1 (?upd spec d)"
    have "shadow_only ?m (mark_live (pe_id view) point 1 e)"
      using e(1) by (simp add: shadow_only_def mark_live_def update_view_def)
    then have "db_ok (mark_live (pe_id view) point 1 e)"
      using db_ok_mark_live_spec [OF assms(2,3)] db_ok_shadow_only by blast
    moreover have "db_slot e = db_slot d" using e(1) by (simp add: shadow_only_def)
    ultimately show ?thesis using e(2) by (simp add: mark_live_storage)
  next
    case built
    from build_spec_db [OF this] obtain e s where e: "shadow_only d e"
      "d' = mark_live (pe_id view) point (if r then 1 else 0) (e\<lparr>db_storage := s\<rparr>)" by auto
    have slot: "db_slot e = db_slot d" using e(1) by (simp add: shadow_only_def)
    have "db_ok e" using assms(2) db_ok_shadow_only [OF e(1)] by simp
    then have "db_ok (mark_live (pe_id view) point (if r then 1 else 0) e)"
      using assms(3) slot by (intro db_ok_mark_live) simp_all
    then show ?thesis using e(2) slot by (simp add: mark_live_storage)
  qed
qed

lemma builds_ok:
  assumes "rfold (build pg sn point) g (seen, d) = Inr (seen', d')"
    and "db_ok d" and "case db_slot d of None \<Rightarrow> True | Some s \<Rightarrow> s \<le> point"
  shows "db_ok d' \<and> db_slot d' = db_slot d"
  using rfold_invariant [OF assms(1), where P = "\<lambda>(seen, e). db_ok e \<and> db_slot e = db_slot d"] assms(2,3) build_ok
  by fastforce

lemma populate_group_ok:
  assumes "db_ok d"
  shows "db_ok (snd (populate_group pg find_point g d)) \<and>
    db_slot (snd (populate_group pg find_point g d)) = db_slot d"
proof (cases "fst (populate_group pg find_point g d)")
  case (Inl m)
  then have "snd (populate_group pg find_point g d) = d"
    by (auto simp: populate_group_def split: sum.splits)
  with assms show ?thesis by simp
next
  case (Inr p)
  then obtain sn seen d' where fp: "find_point (pe_id (hd g)) = Inr (p, sn)"
    and slot: "case db_slot d of None \<Rightarrow> True | Some main \<Rightarrow> \<not> main > p"
    and r: "rfold (build pg sn p) g ([], d) = Inr (seen, d')"
    and d': "snd (populate_group pg find_point g d) = d'"
    by (auto simp: populate_group_def rbind_Inr_iff split: sum.splits if_splits option.splits)
  from slot have "case db_slot d of None \<Rightarrow> True | Some s \<Rightarrow> s \<le> p" by (auto split: option.splits)
  from builds_ok [OF r assms this] d' show ?thesis by simp
qed

lemma record_group_failure_ok: "db_ok d \<Longrightarrow> db_ok (record_group_failure g message d)"
  unfolding record_group_failure_def by (induction g arbitrary: d) (auto intro: db_ok_mark_failed)

lemma run_pending_ok:
  assumes "db_ok d"
  shows "db_ok (snd (run_pending pg find_point d))"
proof -
  have step: "db_ok (run_group pg find_point g e)" if "db_ok e" for g e
    using populate_group_ok [OF that, of pg find_point g]
    by (auto simp: run_group_def record_group_failure_ok split: prod.splits sum.splits)
  have "db_ok (fold (run_group pg find_point) gs e)" if "db_ok e" for gs e
    using that by (induction gs arbitrary: e) (auto intro: step)
  with assms show ?thesis by (simp add: run_pending_def Let_def)
qed

end
