(* ===== verification/Worker_Facts.thy ===== *)
theory Worker_Facts
  imports Worker Populate_Facts Round_Isolation
begin

text \<open>
  The invariant \<open>db_ok\<close> through every step of a poll: population, the lag check, a round, the slot
  advance and the idle advance.
\<close>

section \<open>Rounds\<close>

lemma round_slot: "rfold (apply_tx h rels) itxs (start_round d end_lsn rels) = Inr rn \<Longrightarrow>
    db_slot (finish_round h rn) = db_slot d"
  using round_untouched by (fastforce simp: finish_round_def untouched_def)

lemma round_entries:
  assumes "rfold (apply_tx h rels) itxs (start_round d end_lsn rels) = Inr rn"
    and "unique_ids d" and "e' \<in> set (db_views (finish_round h rn))"
  shows "\<exists>e \<in> set (db_views d). vw_id e = vw_id e' \<and> vw_frontier e \<le> vw_frontier e' \<and>
    (loaded e' \<longrightarrow> loaded e)"
proof -
  have ids: "map vw_id (db_views (finish_round h rn)) = map vw_id (db_views d)"
    using assms(1) by (rule unique_ids_finish)
  then have f: "find_id (vw_id e') (finish_round h rn) = Some e'"
    using assms(2,3) by (intro find_id_unique) (simp_all add: unique_ids_def)
  obtain e where e: "find_id (vw_id e') d = Some e" using find_id_before [OF ids f] .
  with round_entry [OF assms(1,2) e] f obtain "progressed (st_retain_deltas (h_settings h)) e (deltas_of (vw_id e') d) e'
      (deltas_of (vw_id e') (finish_round h rn))" by auto
  then have "vw_frontier e \<le> vw_frontier e'" "vw_spec e' = vw_spec e" "vw_status e' = vw_status e \<or> vw_status e' = ''stale''"
    by (simp_all add: progressed_def)
  with find_idD [OF e] show ?thesis by (auto simp: loaded_def live_def)
qed

lemma db_ok_round:
  assumes "apply_round h dec txs d = Inr (Inr (dec', st), d')" and "db_ok d"
  shows "db_ok d' \<and> db_slot d' = db_slot d"
  using assms(1)
proof (rule apply_roundE)
  fix rels rn
  assume r: "rfold (apply_tx h rels) (enumerate 0 txs) (start_round d (round_end txs) rels) = Inr rn"
    and d': "d' = finish_round h rn"
  have slot: "db_slot d' = db_slot d" unfolding d' using r by (rule round_slot)
  have u: "unique_ids d" and c: "catalog_ok d" using assms(2) by (auto simp: db_ok_def catalog_ok_def)
  have "slot_behind d'"
    unfolding slot_behind_def
  proof (intro ballI impI)
    fix e'
    assume e': "e' \<in> set (db_views d')" "loaded e'"
    with round_entries [OF r u, of e'] d' obtain e where
      e: "e \<in> set (db_views d)" "loaded e" "vw_frontier e \<le> vw_frontier e'" by auto
    then show "case db_slot d' of None \<Rightarrow> True | Some s \<Rightarrow> s \<le> vw_frontier e'"
      using assms(2) slot by (auto simp: db_ok_def slot_behind_def split: option.splits intro: order_trans)
  qed
  with log_round [OF r c] d' slot show ?thesis by (simp add: db_ok_def)
qed

section \<open>Slot and frontiers\<close>

lemma deltas_of_advance [simp]: "deltas_of i (advance_slot to d) = deltas_of i d"
  by (simp add: advance_slot_def deltas_of_def)

lemma advance_slot_simps [simp]:
  "db_views (advance_slot to d) = db_views d"
  "db_deltas (advance_slot to d) = db_deltas d"
  "db_slot (advance_slot to d) = map_option (max to) (db_slot d)"
  by (simp_all add: advance_slot_def)

lemma db_ok_advance:
  assumes "db_ok d" and "\<And>e. e \<in> set (db_views d) \<Longrightarrow> loaded e \<Longrightarrow> to \<le> vw_frontier e"
  shows "db_ok (advance_slot to d)"
  using assms by (auto simp: db_ok_def catalog_ok_def unique_ids_def slot_behind_def split: option.splits)

lemma log_ok_raise:
  "log_ok e es \<Longrightarrow> log_ok (if live e \<and> vw_frontier e < f then e\<lparr>vw_frontier := f\<rparr> else e) es"
  by (auto simp: log_ok_def intro: order_trans less_imp_le)

lemma db_ok_raise_frontiers:
  assumes "db_ok d"
  shows "db_ok (raise_frontiers f d)"
proof -
  let ?g = "\<lambda>v. if live v \<and> vw_frontier v < f then v\<lparr>vw_frontier := f\<rparr> else v"
  have views: "db_views (raise_frontiers f d) = map ?g (db_views d)" by (simp add: raise_frontiers_def)
  have ids: "map vw_id (map ?g es) = map vw_id es" for es by simp
  have del: "deltas_of i (raise_frontiers f d) = deltas_of i d" for i
    by (simp add: raise_frontiers_def deltas_of_def)
  have "unique_ids (raise_frontiers f d)"
    using assms ids [of "db_views d"] by (simp only: db_ok_def catalog_ok_def unique_ids_def views)
  moreover have "log_ok v (deltas_of (vw_id v) (raise_frontiers f d))" if mem: "v \<in> set (db_views (raise_frontiers f d))" for v
  proof -
    obtain e where e: "e \<in> set (db_views d)" "v = ?g e" using mem unfolding views by auto
    then have "log_ok e (deltas_of (vw_id e) d)" using assms by (simp add: db_ok_def catalog_ok_def)
    from log_ok_raise [OF this, of f] e(2) del show ?thesis by (auto split: if_splits)
  qed
  moreover have "slot_behind (raise_frontiers f d)"
    unfolding slot_behind_def views
  proof (intro ballI impI)
    fix v
    assume "v \<in> set (map ?g (db_views d))" and l: "loaded v"
    then obtain e where e: "e \<in> set (db_views d)" "v = ?g e" by auto
    with l have le: "loaded e" by (auto simp: loaded_def live_def split: if_splits)
    have "f \<le> vw_frontier v" "vw_frontier e \<le> vw_frontier v" using e le by (auto simp: loaded_def not_less)
    then show "case db_slot (raise_frontiers f d) of None \<Rightarrow> True | Some s \<Rightarrow> s \<le> vw_frontier v"
      using assms e(1) le by (auto simp: raise_frontiers_def db_ok_def slot_behind_def split: option.splits intro: order_trans)
  qed
  ultimately show ?thesis by (simp add: db_ok_def catalog_ok_def)
qed

lemma db_ok_drop:
  assumes "db_ok d"
  shows "db_ok (drop_lagging_slot d)"
proof -
  let ?g = "\<lambda>v. if live v then v\<lparr>vw_status := ''stale'', vw_stale_reason := Some lag_reason\<rparr> else v"
  have views: "db_views (drop_lagging_slot d) = map ?g (db_views d)" by (simp add: drop_lagging_slot_def)
  have del: "deltas_of i (drop_lagging_slot d) = deltas_of i d" for i by (simp add: drop_lagging_slot_def deltas_of_def)
  have "map vw_id (map ?g es) = map vw_id es" for es by simp
  then have "unique_ids (drop_lagging_slot d)"
    using assms by (simp only: db_ok_def catalog_ok_def unique_ids_def views)
  moreover have "log_ok v (deltas_of (vw_id v) (drop_lagging_slot d))" if mem: "v \<in> set (db_views (drop_lagging_slot d))" for v
  proof -
    obtain e where e: "e \<in> set (db_views d)" "v = ?g e" using mem unfolding views by auto
    then have "log_ok e (deltas_of (vw_id e) d)" using assms by (simp add: db_ok_def catalog_ok_def)
    with e(2) del show ?thesis by (auto simp: log_ok_def)
  qed
  moreover have "slot_behind (drop_lagging_slot d)"
    by (simp add: slot_behind_def drop_lagging_slot_def)
  ultimately show ?thesis by (simp add: db_ok_def catalog_ok_def)
qed

section \<open>The poll\<close>

lemma finish_poll_ok:
  "db_ok (wd_db w) \<Longrightarrow> db_ok (wd_db (snd (finish_poll sv drained target last_end w)))"
  by (simp add: finish_poll_def Let_def db_ok_raise_frontiers)

lemma round_slot_reached:
  assumes "apply_round h dec txs d = Inr (Inr (dec', st), d')" and "db_ok d"
    and "e' \<in> set (db_views d')" and "loaded e'"
    and "j < (case rs_blocked_at st of None \<Rightarrow> length txs | Some k \<Rightarrow> k)"
  shows "tx_end_lsn (txs ! j) \<le> vw_frontier e'"
  using assms(1)
proof (rule apply_roundE)
  fix rels rn
  assume r: "rfold (apply_tx h rels) (enumerate 0 txs) (start_round d (round_end txs) rels) = Inr rn"
    and d': "d' = finish_round h rn" and b: "rs_blocked_at st = rn_blocked rn"
  have u: "unique_ids d" "unique_ids d'"
    using assms(2) db_ok_round [OF assms(1,2)] by (auto simp: db_ok_def catalog_ok_def)
  have "find_id (vw_id e') (finish_round h rn) = Some e'" using find_id_unique [OF u(2) assms(3)] d' by simp
  with slot_safe_round [OF u(1) r] assms(4,5) b show ?thesis by (auto simp: loaded_def)
qed

lemma apply_peek_ok:
  assumes "db_ok (wd_db w)" and "db_slot (wd_db w) = Some confirmed"
  shows "db_ok (wd_db (snd (apply_peek h sv drained confirmed target txs w)))"
proof (cases "txs = []")
  case True
  with finish_poll_ok [OF assms(1)] show ?thesis by (simp add: apply_peek_def split: prod.splits) (metis snd_conv)
next
  case False
  obtain r d where t: "try_flat (apply_round h (ws_decoder (wd_state w)) txs) (wd_db w) = (r, d)" by (rule prod.exhaust)
  show ?thesis
  proof (cases r)
    case (Inl m)
    have "d = wd_db w"
      using t Inl
      by (auto simp: try_flat_def try_transaction_def apply_round_def rbind_def
          split: sum.splits prod.splits if_splits)
    with False t Inl assms show ?thesis by (simp add: apply_peek_def)
  next
    case (Inr x)
    obtain dec st where x: "x = (dec, st)" by (rule prod.exhaust)
    have ar: "apply_round h (ws_decoder (wd_state w)) txs (wd_db w) = Inr (Inr (dec, st), d)"
      using t Inr x by (auto simp: try_flat_def try_transaction_def split: sum.splits prod.splits)
    have ok: "db_ok d" "db_slot d = Some confirmed" using db_ok_round [OF ar assms(1)] assms(2) by simp_all
    let ?w = "w\<lparr>wd_db := d, wd_state := (wd_state w)\<lparr>ws_decoder := dec\<rparr>\<rparr>"
    show ?thesis
    proof (cases "rs_blocked_at st")
      case (Some k)
      have "db_ok (advance_slot (tx_end_lsn (txs ! (k - 1))) d)" if "k > 0"
        using that Some by (intro db_ok_advance ok round_slot_reached [OF ar assms(1)]) auto
      with False t Inr x Some ok show ?thesis by (simp add: apply_peek_def Let_def)
    next
      case None
      let ?l = "max confirmed (tx_end_lsn (txs ! (rs_processed st - 1)))"
      have p: "rs_processed st = length txs" using ar by (rule apply_roundE)
      have adv: "db_ok (advance_slot ?l d)"
      proof (rule db_ok_advance [OF ok(1)])
        fix e
        assume e: "e \<in> set (db_views d)" "loaded e"
        have "tx_end_lsn (txs ! (length txs - 1)) \<le> vw_frontier e"
          using round_slot_reached [OF ar assms(1) e] None False by simp
        moreover have "confirmed \<le> vw_frontier e"
          using ok e by (auto simp: db_ok_def dest: slot_behindD)
        ultimately show "?l \<le> vw_frontier e" using p by simp
      qed
      then have "db_ok (wd_db (snd (finish_poll sv drained target ?l (?w\<lparr>wd_db := advance_slot ?l (wd_db ?w)\<rparr>))))"
        by (intro finish_poll_ok) simp
      with False t Inr x None show ?thesis by (simp add: apply_peek_def Let_def split: prod.splits) (metis snd_conv)
    qed
  qed
qed

lemma poll_slot_ok:
  assumes "db_ok (wd_db w)" and "db_slot (wd_db w) = Some confirmed"
  shows "db_ok (wd_db (snd (poll_slot h sv confirmed w)))"
  using assms apply_peek_ok
  by (auto simp: poll_slot_def Let_def split: sum.splits prod.splits)

lemma run_round_ok:
  assumes "db_ok (wd_db w)"
  shows "db_ok (wd_db (snd (run_round h sv w)))"
proof (cases "sv_installed sv")
  case False
  with assms show ?thesis by (simp add: run_round_def)
next
  case True
  let ?w = "w\<lparr>wd_state := (wd_state w)\<lparr>ws_reported_missing_extension := False\<rparr>,
    wd_db := snd (run_pending (h_pg h) (sv_find_point sv) (wd_db w))\<rparr>"
  have ok: "db_ok (wd_db ?w)" using run_pending_ok [OF assms] by simp
  show ?thesis
  proof (cases "db_slot (wd_db ?w)")
    case None
    with True ok show ?thesis by (simp add: run_round_def Let_def)
  next
    case (Some s)
    with poll_slot_ok [OF ok Some] True ok db_ok_drop show ?thesis by (simp add: run_round_def Let_def)
  qed
qed

lemma worker_iteration_ok: "db_ok (wd_db w) \<Longrightarrow> db_ok (wd_db (snd (worker_iteration h sv w)))"
  using run_round_ok [of w h sv]
  by (auto simp: worker_iteration_def split: prod.splits sum.splits poll.splits)

lemma worker_run_ok: "db_ok (wd_db w) \<Longrightarrow> db_ok (wd_db (worker_run h svs w))"
  by (induction svs arbitrary: w) (simp_all add: worker_iteration_ok)

end
