(* ===== verification/Worker_Theorems.thy ===== *)
theory Worker_Theorems
  imports Worker_Facts Example_Round
begin

text \<open>
  What a poll of the worker guarantees: the invariant of the catalog, the soundness of the idle window
  it publishes, and that a poll that drains the slot brings every live view up to date.
\<close>

section \<open>The slot only moves forward\<close>

definition slot_le :: "u64 option \<Rightarrow> u64 option \<Rightarrow> bool" where
  "slot_le a b \<longleftrightarrow> (case b of None \<Rightarrow> True | Some t \<Rightarrow> (case a of None \<Rightarrow> False | Some s \<Rightarrow> s \<le> t))"

lemma slot_le_refl [simp]: "slot_le a a"
  by (simp add: slot_le_def split: option.splits)

lemma slot_le_None [simp]: "slot_le a None"
  by (simp add: slot_le_def)

lemma slot_le_max: "slot_le a (map_option (max to) a)"
  by (simp add: slot_le_def split: option.splits)

lemma slot_le_raise: "slot_le (db_slot d) (db_slot (raise_frontiers f d))"
  by (simp add: raise_frontiers_def slot_le_max)

lemma slot_run_pending: "db_ok d \<Longrightarrow> db_slot (snd (run_pending pg fp d)) = db_slot d"
proof -
  assume ok: "db_ok d"
  have rec: "db_slot (record_group_failure g m e) = db_slot e" for g m e
    unfolding record_group_failure_def by (induction g arbitrary: e) simp_all
  have step: "db_ok (run_group pg fp g e) \<and> db_slot (run_group pg fp g e) = db_slot e" if "db_ok e" for g e
    using populate_group_ok [OF that, of pg fp g]
    by (auto simp: run_group_def record_group_failure_ok rec split: prod.splits sum.splits)
  have "db_ok (fold (run_group pg fp) gs e) \<and> db_slot (fold (run_group pg fp) gs e) = db_slot e" if "db_ok e" for gs e
    using that by (induction gs arbitrary: e) (auto simp: step)
  with ok show ?thesis by (simp add: run_pending_def Let_def)
qed

section \<open>The idle window\<close>

text \<open>
  \<open>window_ok C w\<close>: of the commits \<open>C\<close> that change a published table, none up to the end of the
  window lies beyond the slot's position.
\<close>

definition window_ok :: "u64 set \<Rightarrow> world \<Rightarrow> bool" where
  "window_ok C w \<longleftrightarrow>
     (case wd_idle w of None \<Rightarrow> True | Some iw \<Rightarrow>
        iw_from iw \<noteq> 0 \<longrightarrow> (\<forall>l \<in> C. l \<le> iw_to iw \<longrightarrow> (case db_slot (wd_db w) of None \<Rightarrow> True | Some s \<Rightarrow> l \<le> s)))"

text \<open>An empty peek means that nothing was committed in its range.\<close>

definition peek_complete :: "u64 set \<Rightarrow> server \<Rightarrow> bool" where
  "peek_complete C sv \<longleftrightarrow>
     (\<forall>confirmed target n. sv_peek sv confirmed target n = [] \<longrightarrow> (\<forall>l \<in> C. \<not> (confirmed < l \<and> l \<le> target)))"

lemma window_ok_keep:
  "window_ok C w \<Longrightarrow> wd_idle w' = wd_idle w \<Longrightarrow> slot_le (db_slot (wd_db w)) (db_slot (wd_db w')) \<Longrightarrow> window_ok C w'"
  by (force simp: window_ok_def slot_le_def split: option.splits)

lemma window_ok_state [simp]: "window_ok C (w\<lparr>wd_state := s\<rparr>) = window_ok C w"
  by (simp add: window_ok_def split: option.split)

lemma window_ok_db: "window_ok C w \<Longrightarrow> slot_le (db_slot (wd_db w)) (db_slot d) \<Longrightarrow> window_ok C (w\<lparr>wd_db := d\<rparr>)"
  by (rule window_ok_keep) simp_all

lemma snd_relabel [simp]: "snd (case x of (p, w) \<Rightarrow> (f p, w)) = snd x"
  by (cases x) simp

lemma window_ok_finish:
  assumes "window_ok C w"
  shows "window_ok C (snd (finish_poll sv drained target last_end w))"
proof (cases drained)
  case True
  let ?f = "max target last_end"
  have "db_slot (raise_frontiers ?f (wd_db w)) = map_option (max ?f) (db_slot (wd_db w))"
    by (simp add: raise_frontiers_def)
  with True show ?thesis
    by (auto simp: finish_poll_def window_ok_def publish_def Let_def le_max_iff_disj split: option.splits)
next
  case False
  with assms show ?thesis by (simp add: finish_poll_def)
qed

lemma window_ok_apply_peek:
  assumes "window_ok C w" and "db_ok (wd_db w)"
  shows "window_ok C (snd (apply_peek h sv drained confirmed target txs w))"
proof (cases "txs = []")
  case True
  with window_ok_finish [OF assms(1)] show ?thesis by (simp add: apply_peek_def)
next
  case False
  obtain r d where t: "try_flat (apply_round h (ws_decoder (wd_state w)) txs) (wd_db w) = (r, d)" by (rule prod.exhaust)
  show ?thesis
  proof (cases r)
    case (Inl m)
    have "d = wd_db w"
      using t Inl
      by (auto simp: try_flat_def try_transaction_def apply_round_def rbind_def
          split: sum.splits prod.splits if_splits)
    with False t Inl assms show ?thesis by (simp add: apply_peek_def)
  next
    case (Inr x)
    obtain dec st where x: "x = (dec, st)" by (rule prod.exhaust)
    have "apply_round h (ws_decoder (wd_state w)) txs (wd_db w) = Inr (Inr (dec, st), d)"
      using t Inr x by (auto simp: try_flat_def try_transaction_def split: sum.splits prod.splits)
    from db_ok_round [OF this assms(2)] have slot: "db_slot d = db_slot (wd_db w)" by simp
    let ?w = "w\<lparr>wd_state := (wd_state w)\<lparr>ws_decoder := dec\<rparr>, wd_db := d\<rparr>"
    have keep: "window_ok C ?w" using assms(1) slot by (intro window_ok_db) simp_all
    have same: "window_ok C (w\<lparr>wd_db := d\<rparr>)" using assms(1) slot by (intro window_ok_db) simp_all
    have adv: "window_ok C (?w\<lparr>wd_db := advance_slot l d\<rparr>)" for l
      by (rule window_ok_db [OF keep]) (simp add: slot_le_max)
    have "window_ok C (snd (finish_poll sv drained target l' (?w\<lparr>wd_db := advance_slot l d\<rparr>)))" for l l'
      by (rule window_ok_finish [OF adv])
    with False t Inr x keep same adv show ?thesis
      by (simp add: apply_peek_def Let_def split: option.split)
  qed
qed

lemma window_ok_poll_slot:
  assumes "window_ok C w" and "db_ok (wd_db w)" and "db_slot (wd_db w) = Some confirmed" and "peek_complete C sv"
  shows "window_ok C (snd (poll_slot h sv confirmed w))"
proof -
  have quiet: "l \<le> confirmed" if "peek h sv confirmed = []" "l \<in> C" "l \<le> sv_flush_lsn sv" for l
    using that assms(4) by (fastforce simp: peek_def peek_complete_def split: if_splits)
  show ?thesis
  proof (cases "peek h sv confirmed = [] \<and> sv_flush_lsn sv = ws_self_flush (wd_state w)")
    case True
    have "window_ok C (w\<lparr>wd_idle := publish f (sv_flush_lsn sv) (wd_idle w)\<rparr>)" for f
      using quiet True assms(3) by (simp add: window_ok_def publish_def)
    with True assms(1) show ?thesis by (simp add: poll_slot_def Let_def)
  next
    case False
    have step: "window_ok C (snd (apply_peek h sv drained confirmed target txs (w\<lparr>wd_state := s\<rparr>)))" for drained target txs s
      using assms(1,2) by (intro window_ok_apply_peek) simp_all
    show ?thesis
      unfolding poll_slot_def Let_def if_not_P [OF False]
      by (cases "decode_peek (peek h sv confirmed) (ws_decoder (wd_state w))")
        (use assms(1) step in \<open>auto split: prod.splits\<close>)
  qed
qed

lemma window_ok_run_round:
  assumes "window_ok C w" and "db_ok (wd_db w)" and "peek_complete C sv"
  shows "window_ok C (snd (run_round h sv w))"
proof (cases "sv_installed sv")
  case False
  with assms show ?thesis by (simp add: run_round_def)
next
  case True
  let ?w = "w\<lparr>wd_state := (wd_state w)\<lparr>ws_reported_missing_extension := False\<rparr>,
    wd_db := snd (run_pending (h_pg h) (sv_find_point sv) (wd_db w))\<rparr>"
  have ok: "db_ok (wd_db ?w)" using run_pending_ok [OF assms(2)] by simp
  have win: "window_ok C ?w" by (rule window_ok_keep [OF assms(1)]) (simp_all add: slot_run_pending [OF assms(2)])
  show ?thesis
  proof (cases "db_slot (wd_db ?w)")
    case None
    with True win show ?thesis by (simp add: run_round_def Let_def)
  next
    case (Some s)
    have "window_ok C (?w\<lparr>wd_db := drop_lagging_slot (wd_db ?w)\<rparr>)"
      by (rule window_ok_keep [OF win]) (simp_all add: drop_lagging_slot_def)
    with window_ok_poll_slot [OF win ok Some assms(3), of h] Some True show ?thesis
      by (simp add: run_round_def Let_def)
  qed
qed

lemma window_ok_iteration:
  assumes "window_ok C w" and "db_ok (wd_db w)" and "peek_complete C sv"
  shows "window_ok C (snd (worker_iteration h sv w))"
  using window_ok_run_round [OF assms, of h]
  by (cases "run_round h sv w") (auto simp: worker_iteration_def split: sum.splits poll.splits)

text \<open>What the window means for a view the worker maintains.\<close>

lemma window_ok_effective:
  assumes "window_ok C w" and "slot_behind (wd_db w)" and "db_slot (wd_db w) = Some s"
    and "e \<in> set (db_views (wd_db w))" and "loaded e" and "l \<in> C"
    and "l \<le> effective_frontier (wd_idle w) (vw_frontier e)"
  shows "l \<le> vw_frontier e"
proof -
  have s: "s \<le> vw_frontier e" using slot_behindD [OF assms(2,4,5,3)] .
  have "l \<le> vw_frontier e \<or> l \<le> s"
    using assms(1,3,6,7) by (auto simp: window_ok_def effective_frontier_def split: option.splits if_splits)
  with s show ?thesis by (auto intro: order_trans)
qed

section \<open>Catching up\<close>

lemma finish_poll_raises:
  assumes "e \<in> set (db_views (wd_db (snd (finish_poll sv True target last_end w))))" and "loaded e"
  shows "target \<le> vw_frontier e"
proof -
  let ?f = "max target last_end"
  have "?f \<le> vw_frontier e"
    using assms by (auto simp: finish_poll_def Let_def raise_frontiers_def loaded_def live_def not_less split: if_splits)
  then show ?thesis by simp
qed

lemma fst_relabel [simp]: "fst (case x of (p, w) \<Rightarrow> (f p, w)) = f (fst x)"
  by (cases x) simp

lemma apply_peek_catches_up:
  assumes "wd_db w = d" and "ws_decoder (wd_state w) = dec"
    and "txs = [] \<or> (\<exists>dec' st d'. apply_round h dec txs d = Inr (Inr (dec', st), d') \<and> rs_blocked_at st = None)"
  shows "\<exists>w' l. apply_peek h sv True confirmed target txs w = (Inr PollIdle, snd (finish_poll sv True target l w'))"
proof -
  have finish: "(case finish_poll sv True target l w' of (p, w'') \<Rightarrow> (Inr p, w'')) =
      (Inr PollIdle, snd (finish_poll sv True target l w'))" for l w'
    by (simp add: finish_poll_def Let_def)
  show ?thesis
  proof (cases "txs = []")
    case True
    then show ?thesis by (auto simp: apply_peek_def finish)
  next
    case False
    with assms(3) obtain dec' st d' where
      "apply_round h dec txs d = Inr (Inr (dec', st), d')" "rs_blocked_at st = None" by auto
    with False assms(1,2) show ?thesis
      by (auto simp: apply_peek_def try_flat_def try_transaction_def Let_def finish)
  qed
qed

section \<open>Properties\<close>

text \<open>
  C22. The worker keeps its invariant. However the polls go, whatever the server answers in them
  (installed or not, pending views built or failing, a slot dropped for lag, transactions applied,
  blocked or raising, idle advances), every view's delta log stays contiguous up to its last sequence
  number, sorted by LSN and covered by its frontier, and the slot never passes the frontier of a view
  that is live: nothing such a view still needs can be discarded.
\<close>

theorem worker_keeps_invariant:
  assumes "db_ok (wd_db w)"
  shows "db_ok (wd_db (worker_run h svs w))"
  using assms by (rule worker_run_ok)

definition example_server :: server where
  "example_server =
     \<lparr>sv_installed = True, sv_find_point = (\<lambda>i. Inl ''no slot''), sv_current_lsn = 40, sv_flush_lsn = 40,
      sv_peek = (\<lambda>confirmed target n. if confirmed < 20 \<and> 20 \<le> target then [[0x4F]] else []),
      sv_flush_after = 41\<rparr>"

definition example_world :: world where
  "example_world = \<lparr>wd_state = new_worker_state, wd_db = example_db, wd_idle = register True\<rparr>"

lemma example_db_ok: "db_ok example_db"
  by code_simp

theorem worker_keeps_invariant_witness:
  "db_ok (wd_db (worker_run example_host [example_server, example_server\<lparr>sv_current_lsn := 2 ^ 40\<rparr>] example_world))"
  by (rule worker_keeps_invariant) (simp add: example_world_def example_db_ok)

text \<open>
  C23. The idle window is sound. Let \<open>C\<close> be the positions of the commits that change published
  tables. If an empty peek really means an empty range and no commit up to the end of the published
  window lies past the slot, then after a poll the same holds, and for every live view the effective
  frontier (what \<open>wait_for\<close> compares with) covers exactly the commits the stored frontier covers.
\<close>

theorem idle_window_sound:
  assumes "db_ok (wd_db w)" and "window_ok C w" and "peek_complete C sv"
    and "w' = snd (worker_iteration h sv w)"
    and "e \<in> set (db_views (wd_db w'))" and "loaded e" and "db_slot (wd_db w') \<noteq> None"
  shows "window_ok C w' \<and>
    {l \<in> C. l \<le> effective_frontier (wd_idle w') (vw_frontier e)} = {l \<in> C. l \<le> vw_frontier e}"
proof -
  have win: "window_ok C w'" unfolding assms(4) by (rule window_ok_iteration [OF assms(2,1,3)])
  have "slot_behind (wd_db w')" using worker_iteration_ok [OF assms(1), of h sv] assms(4) by (simp add: db_ok_def)
  from window_ok_effective [OF win this] assms(5-7) win show ?thesis
    using effective_frontier_ge [of "vw_frontier e" "wd_idle w'"] by (auto intro: order_trans)
qed

definition quiet_world :: world where
  "quiet_world = example_world\<lparr>wd_db := example_db\<lparr>db_slot := Some 30,
     db_views := [(example_entry 1 ''public.p'' proj_spec)\<lparr>vw_frontier := 30\<rparr>]\<rparr>,
     wd_state := new_worker_state\<lparr>ws_self_flush := 40, ws_last_advance := 30\<rparr>\<rparr>"

theorem idle_window_sound_witness:
  "window_ok {20} (snd (worker_iteration example_host example_server quiet_world)) \<and>
   {l \<in> {20}. l \<le> effective_frontier (wd_idle (snd (worker_iteration example_host example_server quiet_world))) 30} =
   {l \<in> {20}. l \<le> 30}"
proof -
  let ?w = "snd (worker_iteration example_host example_server quiet_world)"
  let ?e = "(example_entry 1 ''public.p'' proj_spec)\<lparr>vw_frontier := 30\<rparr>"
  have "db_ok (wd_db quiet_world)" "window_ok {20} quiet_world" by code_simp+
  moreover have "peek_complete {20} example_server" by (simp add: peek_complete_def example_server_def)
  moreover have "db_views (wd_db ?w) = [?e]" "loaded ?e" "db_slot (wd_db ?w) \<noteq> None" by code_simp+
  ultimately show ?thesis using idle_window_sound [of quiet_world "{20}" example_server ?w example_host ?e] by simp
qed

text \<open>
  C24. A poll that drains the slot catches up. When the peek returns everything up to the flush
  position, its transactions decode, and the round commits without a blocked view, the poll ends
  idle and every view that is still live is at the flush position, counted with the idle window
  (directly, or because nothing but the worker's own writes happened since the last advance): a
  \<open>wait_for\<close> on that position returns.
\<close>

theorem drained_poll_catches_up:
  assumes "db_ok (wd_db w)" and "db_slot (wd_db w) = Some s"
    and "0 < sv_flush_lsn sv" and "wd_idle w \<noteq> None"
    and "ws_last_advance (wd_state w) \<le> s" and "ws_last_advance (wd_state w) = 0 \<Longrightarrow> ws_self_flush (wd_state w) = 0"
    and "slot_drained h (peek h sv s)"
    and "decode_peek (peek h sv s) (ws_decoder (wd_state w)) = Inr (txs, dec)"
    and "txs = [] \<or> (\<exists>dec' st d. apply_round h dec txs (wd_db w) = Inr (Inr (dec', st), d) \<and> rs_blocked_at st = None)"
    and "poll_slot h sv s w = (r, w')"
  shows "r = Inr PollIdle \<and>
    (\<forall>e \<in> set (db_views (wd_db w')). loaded e \<longrightarrow>
       sv_flush_lsn sv \<le> effective_frontier (wd_idle w') (vw_frontier e))"
proof (cases "peek h sv s = [] \<and> sv_flush_lsn sv = ws_self_flush (wd_state w)")
  case True
  then have adv: "0 < ws_last_advance (wd_state w)" using assms(3,6) by (auto simp: word_gt_0)
  with True assms(10) have w': "r = Inr PollIdle"
    "w' = w\<lparr>wd_idle := publish (ws_last_advance (wd_state w)) (sv_flush_lsn sv) (wd_idle w)\<rparr>"
    by (auto simp: poll_slot_def Let_def)
  have "sv_flush_lsn sv \<le> effective_frontier (wd_idle w') (vw_frontier e)"
    if "e \<in> set (db_views (wd_db w'))" "loaded e" for e
  proof -
    have "s \<le> vw_frontier e" using that w' assms(1,2) by (auto simp: db_ok_def dest: slot_behindD)
    then have "ws_last_advance (wd_state w) \<le> vw_frontier e" using assms(5) by (rule order_trans [rotated])
    with w' assms(4) adv show ?thesis by (auto simp: effective_frontier_def publish_def not_less word_gt_0)
  qed
  with w' show ?thesis by simp
next
  case False
  let ?w = "w\<lparr>wd_state := (wd_state w)\<lparr>ws_decoder := dec\<rparr>\<rparr>"
  have "poll_slot h sv s w = apply_peek h sv True s (sv_flush_lsn sv) txs ?w"
    unfolding poll_slot_def Let_def if_not_P [OF False] using assms(7,8) by simp
  moreover obtain v l where
    "apply_peek h sv True s (sv_flush_lsn sv) txs ?w = (Inr PollIdle, snd (finish_poll sv True (sv_flush_lsn sv) l v))"
    using apply_peek_catches_up [of ?w "wd_db w" dec txs h sv s "sv_flush_lsn sv"] assms(9) by auto
  ultimately have "r = Inr PollIdle" "w' = snd (finish_poll sv True (sv_flush_lsn sv) l v)"
    using assms(10) by simp_all
  then show ?thesis
    using finish_poll_raises effective_frontier_ge by (blast intro: order_trans)
qed

theorem drained_poll_catches_up_witness:
  "fst (poll_slot example_host example_server 30 quiet_world) = Inr PollIdle \<and>
   40 \<le> effective_frontier (wd_idle (snd (poll_slot example_host example_server 30 quiet_world))) 30"
proof -
  let ?p = "poll_slot example_host example_server 30 quiet_world"
  let ?e = "(example_entry 1 ''public.p'' proj_spec)\<lparr>vw_frontier := 30\<rparr>"
  have h: "db_ok (wd_db quiet_world)" "db_slot (wd_db quiet_world) = Some 30" "0 < sv_flush_lsn example_server"
    "wd_idle quiet_world \<noteq> None" "ws_last_advance (wd_state quiet_world) \<le> 30" by code_simp+
  have n: "ws_last_advance (wd_state quiet_world) = 0 \<Longrightarrow> ws_self_flush (wd_state quiet_world) = 0"
    by (simp add: quiet_world_def)
  have d: "slot_drained example_host (peek example_host example_server 30)" by code_simp
  have t: "decode_peek (peek example_host example_server 30) (ws_decoder (wd_state quiet_world)) = Inr ([], new_decoder)"
    by (simp add: peek_def example_server_def quiet_world_def decode_peek_def feed_all_def
        new_worker_state_def new_decoder_def has_incomplete_def take_complete_def)
  have e: "db_views (wd_db (snd ?p)) = [?e]" "loaded ?e" by code_simp+
  from drained_poll_catches_up [OF h n d t, of "fst ?p" "snd ?p"] e show ?thesis
    by (simp add: example_server_def)
qed

end
