(* ===== verification/Example_Catalog.thy ===== *)
theory Example_Catalog
  imports Validator
begin

text \<open>
  A concrete catalog for the witnesses: two tables with columns \<open>k\<close> (primary key) and \<open>v\<close>, a parser
  that knows three definitions (a projection, an aggregate, a join) and rejects all others, and a
  deparser that prints columns and equalities.
\<close>

definition example_att :: "int \<Rightarrow> string" where
  "example_att a = (if a = 1 then ''k'' else ''v'')"

fun example_print_node :: "bool \<Rightarrow> node \<Rightarrow> string" where
  "example_print_node qualify (Var v a lev) =
     (if qualify then (if v = 1 then ''a.'' else ''b.'') else []) @ example_att a"
| "example_print_node qualify (OpExpr opno f [x, y]) =
     example_print_node qualify x @ '' = '' @ example_print_node qualify y"
| "example_print_node qualify _ = ''?''"

definition example_deparse :: "deparser \<Rightarrow> node \<Rightarrow> string" where
  "example_deparse dep n = example_print_node (case dep of DepSingle o1 s \<Rightarrow> False | DepRtable r ns \<Rightarrow> True) n"

definition example_rte :: "oid \<Rightarrow> string \<Rightarrow> rte" where
  "example_rte o1 a = \<lparr>rt_kind = RteRelation, rt_lateral = False, rt_relid = o1, rt_relkind = CHR ''r'', rt_eref = Some a\<rparr>"

definition example_target :: "node \<Rightarrow> string \<Rightarrow> nat \<Rightarrow> target_entry" where
  "example_target n a g = \<lparr>te_expr = n, te_resname = Some a, te_sortgroupref = g, te_resjunk = False\<rparr>"

definition example_query :: "rte list \<Rightarrow> jointree \<Rightarrow> target_entry list \<Rightarrow> nat list \<Rightarrow> bool \<Rightarrow> query_tree" where
  "example_query rtable from targets groups aggs =
     \<lparr>qt_is_select = True, qt_set_operations = False, qt_ctes = False, qt_sublinks = False, qt_window_funcs = False,
      qt_target_srfs = False, qt_distinct_on = False, qt_distinct = False, qt_sort = False, qt_limit_count = False,
      qt_limit_offset = False, qt_having = False, qt_grouping_sets = False, qt_for_update = False, qt_row_marks = False,
      qt_rtable = rtable, qt_jointree = from, qt_targets = targets, qt_group = groups, qt_has_aggs = aggs\<rparr>"

definition proj_query :: query_tree where
  "proj_query = example_query [example_rte 16 ''t''] (FromExpr [RangeTblRef 1] None)
     [example_target (Var 1 1 0) ''id'' 0, example_target (Var 1 2 0) ''v'' 0] [] False"

definition sum_aggref :: node where
  "sum_aggref = Aggref \<lparr>ag_fnoid = 2108, ag_kind = CHR ''n'', ag_star = False, ag_has_distinct = False, ag_has_order = False\<rparr>
     [Var 1 2 0] [] None"

definition agg_query :: query_tree where
  "agg_query = example_query [example_rte 16 ''t''] (FromExpr [RangeTblRef 1] None)
     [example_target (Var 1 1 0) ''k'' 1, example_target sum_aggref ''s'' 0] [1] True"

definition join_query :: query_tree where
  "join_query = example_query [example_rte 16 ''a'', example_rte 17 ''b'']
     (FromExpr [RangeTblRef 1, RangeTblRef 2] (Some (OpExpr 96 65 [Var 1 2 0, Var 2 1 0])))
     [example_target (Var 1 2 0) ''v'' 0] [] False"

definition example_mutable :: "node \<Rightarrow> bool" where
  "example_mutable n = list_ex (\<lambda>m. m = SQLValueFunction \<or> m = NextValueExpr) (nodes n)"

definition example_catalog :: catalog where
  "example_catalog =
     \<lparr>cat_raw_parse = (\<lambda>s. Inr [s]),
      cat_analyze = (\<lambda>s. if s = ''proj'' then Inr proj_query else if s = ''agg'' then Inr agg_query
        else if s = ''join'' then Inr join_query else Inl ''syntax error''),
      cat_func_name = (\<lambda>f. if f = 2108 then ''sum'' else ''int4eq''), cat_func_volatile = (\<lambda>f. CHR ''i''),
      cat_func_builtin = (\<lambda>f. True), cat_opcode = (\<lambda>f. 65), cat_opname = (\<lambda>f. ''=''),
      cat_contain_mutable = example_mutable, cat_contain_agg = (\<lambda>n. False), cat_flatten = (\<lambda>q n. n),
      cat_rel_name = (\<lambda>o1. if o1 = 17 then ''u'' else ''t''), cat_rel_namespace = (\<lambda>o1. ''public''),
      cat_att_name = (\<lambda>o1. example_att), cat_quote_qualified = (\<lambda>n r. n @ ''.'' @ r),
      cat_replident = (\<lambda>o1. ''d''), cat_has_children = (\<lambda>o1. False), cat_is_view_name = (\<lambda>o1. False),
      cat_is_view_relid = (\<lambda>o1. False), cat_columns = (\<lambda>o1. [(''k'', ''integer''), (''v'', ''integer'')]),
      cat_primary_key = (\<lambda>o1. [(1, ''k'')]), cat_deparse = example_deparse\<rparr>"

text \<open>The specification and base table of a definition that validates.\<close>

definition validated :: "string \<Rightarrow> (view_spec \<times> base_table) option" where
  "validated definition = (case validate example_catalog definition of Inl e \<Rightarrow> None | Inr x \<Rightarrow> Some x)"

lemma validatedI: "validated s \<noteq> None \<Longrightarrow> validate example_catalog s = Inr (the (validated s))"
  by (auto simp: validated_def split: sum.splits)

lemma example_validates: "validated ''proj'' \<noteq> None" "validated ''agg'' \<noteq> None" "validated ''join'' \<noteq> None"
  by code_simp+

end
