(* ===== verification/Validator_Facts.thy ===== *)
theory Validator_Facts
  imports Validator Maintain
begin

text \<open>
  What the parts of \<open>validate\<close> establish: the relations are distinct and numbered, the output names
  are distinct, and the select list the loops build is the one the two shapes call for.
\<close>

section \<open>Generated names\<close>

lemma int_text_inj:
  assumes "int_text i = int_text j"
  shows "i = j"
proof -
  define n where "n = nat \<bar>i\<bar> + nat \<bar>j\<bar>"
  have n: "\<bar>i\<bar> \<le> int n" "\<bar>j\<bar> \<le> int n" by (simp_all add: n_def)
  have less: "int n < 2 ^ n"
    using less_exp [of n] by (metis of_nat_less_iff of_nat_numeral of_nat_power)
  have b: "- (2 ^ n) \<le> i" "i < 2 ^ n" "- (2 ^ n) \<le> j" "j < 2 ^ n" using n less by linarith+
  have "parse_int (Suc n) (int_text i) = Some i" "parse_int (Suc n) (int_text j) = Some j"
    by (rule parse_int_text; simp only: diff_Suc_1 b)+
  then show ?thesis unfolding assms by (simp only: option.inject)
qed

lemma int_text_digits: "0 \<le> i \<Longrightarrow> \<forall>c \<in> set (int_text i). is_digit c"
  using nat_text_digits by (auto simp: int_text_def)

lemma digits_then_underscore:
  "\<forall>c \<in> set s. is_digit c \<Longrightarrow> \<forall>c \<in> set t. is_digit c \<Longrightarrow>
   s @ CHR ''_'' # u = t @ CHR ''_'' # v \<Longrightarrow> s = t \<and> u = v"
proof (induction s arbitrary: t)
  case Nil
  then show ?case by (cases t) (auto simp: is_digit_def digit_value_def)
next
  case (Cons c s)
  then show ?case by (cases t) (auto simp: is_digit_def digit_value_def)
qed

lemma hidden_pk_inj: "hidden_pk r c = hidden_pk s d \<Longrightarrow> br_rti r = br_rti s \<and> c = d"
proof -
  assume "hidden_pk r c = hidden_pk s d"
  then have "int_text (int (br_rti r)) @ CHR ''_'' # c = int_text (int (br_rti s)) @ CHR ''_'' # d"
    by (simp add: hidden_pk_def)
  from digits_then_underscore [OF int_text_digits int_text_digits this] show ?thesis
    using int_text_inj by fastforce
qed

lemma reserved_names [simp]:
  "reserved (hidden_pk r c)" "reserved (hidden_sum_counter_prefix @ s)" "reserved hidden_count_column"
  by (simp_all add: reserved_def hidden_pk_def hidden_pk_prefix_def hidden_sum_counter_prefix_def hidden_count_column_def)

lemma counter_neq_count [simp]: "hidden_sum_counter_prefix @ s \<noteq> hidden_count_column"
  by (simp add: hidden_sum_counter_prefix_def hidden_count_column_def)

section \<open>Relations\<close>

lemma check_entryD:
  assumes "check_entry cat joined seen i e = Inr (rel, base, pk_attnums)"
  shows "br_oid rel = rt_relid (snd e)" and "br_rti rel = i + 1"
    and "br_pk_columns rel = map snd (cat_primary_key cat (br_oid rel))"
    and "br_columns rel = map fst (cat_columns cat (br_oid rel))"
    and "br_column_types rel = map snd (cat_columns cat (br_oid rel))"
    and "bt_oid base = br_oid rel" and "bt_pk_columns base = br_pk_columns rel"
    and "bt_qualified base = br_qualified rel"
    and "pk_attnums = map fst (cat_primary_key cat (br_oid rel))"
    and "joined \<Longrightarrow> br_pk_columns rel \<noteq> []" and "rt_relid (snd e) \<notin> set seen"
    and "rt_relkind (snd e) = CHR ''r''"
    and "br_alias rel = (case rt_eref (snd e) of None \<Rightarrow> cat_rel_name cat (br_oid rel) | Some a \<Rightarrow> a)"
  using assms
  by (auto simp: check_entry_def Let_def rbind_Inr_iff lookup_base_def check_relation_kind_def relkind_reason_def
      split: if_splits option.splits)

lemma check_entriesD:
  assumes "check_entries cat joined seen i es = Inr bs"
  shows "list_all2 (\<lambda>e b. \<exists>seen i. check_entry cat joined seen i e = Inr b) es bs"
    and "map (br_oid \<circ> fst) bs = map (rt_relid \<circ> snd) es"
    and "distinct (map (rt_relid \<circ> snd) es)" and "set (map (rt_relid \<circ> snd) es) \<inter> set seen = {}"
    and "map (br_rti \<circ> fst) bs = [i + 1 ..< i + 1 + length es]"
  using assms
proof (induction es arbitrary: seen i bs)
  case Nil
  { case 1 then show ?case by simp next case 2 then show ?case by simp next case 3 then show ?case by simp
  next case 4 then show ?case by simp next case 5 then show ?case by simp }
next
  case (Cons e es)
  have split: "\<exists>b bs'. check_entry cat joined seen i e = Inr b \<and>
      check_entries cat joined (rt_relid (snd e) # seen) (i + 1) es = Inr bs' \<and> bs = b # bs'"
    if "check_entries cat joined seen i (e # es) = Inr bs" for seen i bs
    using that by (auto simp: rbind_Inr_iff)
  {
    case 1
    from split [OF this] Cons.IH(1) show ?case by auto
  next
    case 2
    from split [OF this] obtain b bs' where b: "check_entry cat joined seen i e = Inr b"
      "check_entries cat joined (rt_relid (snd e) # seen) (i + 1) es = Inr bs'" "bs = b # bs'" by auto
    then show ?case using Cons.IH(2) [OF b(2)] check_entryD(1) [of cat joined seen i e "fst b"] by (cases b) auto
  next
    case 3
    from split [OF this] obtain b bs' where b: "check_entry cat joined seen i e = Inr b"
      "check_entries cat joined (rt_relid (snd e) # seen) (i + 1) es = Inr bs'" "bs = b # bs'" by auto
    show ?case using Cons.IH(3,4) [OF b(2)] by auto
  next
    case 4
    from split [OF this] obtain b bs' where b: "check_entry cat joined seen i e = Inr b"
      "check_entries cat joined (rt_relid (snd e) # seen) (i + 1) es = Inr bs'" "bs = b # bs'" by auto
    then show ?case using Cons.IH(4) [OF b(2)] check_entryD(11) [of cat joined seen i e "fst b"] by (cases b) auto
  next
    case 5
    from split [OF this] obtain b bs' where b: "check_entry cat joined seen i e = Inr b"
      "check_entries cat joined (rt_relid (snd e) # seen) (i + 1) es = Inr bs'" "bs = b # bs'" by auto
    have "[i + 1 ..< i + 1 + length (e # es)] = (i + 1) # [i + 1 + 1 ..< i + 1 + 1 + length es]"
      by (subst upt_rec) simp
    then show ?case using Cons.IH(5) [OF b(2)] b check_entryD(2) [of cat joined seen i e "fst b"] by (cases b) auto
  }
qed

lemma check_entries_mem:
  assumes "check_entries cat joined seen i es = Inr bs" and "b \<in> set bs"
  obtains e seen i where "e \<in> set es" and "check_entry cat joined seen i e = Inr (fst b, fst (snd b), snd (snd b))"
proof -
  obtain n where n: "n < length bs" "b = bs ! n" using assms(2) by (auto simp: in_set_conv_nth)
  have "n < length es" "\<exists>seen i. check_entry cat joined seen i (es ! n) = Inr (bs ! n)"
    using check_entriesD(1) [OF assms(1)] n(1) by (auto simp: list_all2_conv_all_nth)
  with that [of "es ! n"] n(2) show thesis by (metis nth_mem prod.collapse)
qed

lemma collect_range_tableD:
  assumes "collect_range_table q = Inr es"
  shows "es \<noteq> []" and "distinct (map fst es)"
    and "\<forall>e \<in> set es. \<exists>i < length (qt_rtable q). fst e = int i + 1 \<and> snd e = qt_rtable q ! i \<and>
      rt_kind (snd e) = RteRelation \<and> \<not> rt_lateral (snd e)"
proof -
  obtain ess where r: "rmap collect_rte (enumerate 0 (qt_rtable q)) = Inr ess" "es = concat ess" and ne: "es \<noteq> []"
    using assms by (auto simp: collect_range_table_def rbind_Inr_iff split: if_splits)
  have one: "ys = [] \<or> ys = [(int i + 1, x)] \<and> rt_kind x = RteRelation \<and> \<not> rt_lateral x"
    if "collect_rte (i, x) = Inr ys" for i x ys
    using that by (auto split: if_splits rte_kind.splits)
  have gen: "distinct (map fst (concat ess)) \<and> (\<forall>e \<in> set (concat ess). int n + 1 \<le> fst e) \<and>
      (\<forall>e \<in> set (concat ess). \<exists>i < length xs. fst e = int (n + i) + 1 \<and> snd e = xs ! i \<and>
        rt_kind (snd e) = RteRelation \<and> \<not> rt_lateral (snd e))"
    if "rmap collect_rte (enumerate n xs) = Inr ess" for n xs ess
    using that
  proof (induction xs arbitrary: n ess)
    case Nil
    then show ?case by simp
  next
    case (Cons x xs)
    then obtain ys yss where y: "collect_rte (n, x) = Inr ys" "rmap collect_rte (enumerate (Suc n) xs) = Inr yss" "ess = ys # yss"
      by (auto simp: rbind_Inr_iff)
    note ih = Cons.IH [OF y(2)]
    have "\<exists>i < length (x # xs). fst e = int (n + i) + 1 \<and> snd e = (x # xs) ! i \<and> rt_kind (snd e) = RteRelation \<and> \<not> rt_lateral (snd e)"
      if mem: "e \<in> set (concat yss)" for e
    proof -
      from ih mem obtain i where "i < length xs" "fst e = int (Suc n + i) + 1" "snd e = xs ! i"
        "rt_kind (snd e) = RteRelation" "\<not> rt_lateral (snd e)" by blast
      then show ?thesis by (intro exI [of _ "Suc i"]) simp
    qed
    moreover have "\<forall>e \<in> set (concat yss). int (Suc n) + 1 \<le> fst e" "distinct (map fst (concat yss))" using ih by auto
    ultimately show ?case using one [OF y(1)] y(3) by fastforce
  qed
  from gen [OF r(1)] r(2) ne show "es \<noteq> []" "distinct (map fst es)"
    "\<forall>e \<in> set es. \<exists>i < length (qt_rtable q). fst e = int i + 1 \<and> snd e = qt_rtable q ! i \<and>
      rt_kind (snd e) = RteRelation \<and> \<not> rt_lateral (snd e)" by simp_all
qed

lemma use_columnsD:
  assumes "use_columns cat joined var_refs join_refs (e, rel) = Inr rel'"
  shows "br_oid rel' = br_oid rel" "br_rti rel' = br_rti rel" "br_alias rel' = br_alias rel"
    "br_qualified rel' = br_qualified rel" "br_pk_columns rel' = br_pk_columns rel"
    "br_columns rel' = br_columns rel" "br_column_types rel' = br_column_types rel"
  using assms by (auto simp: use_columns_def Let_def rbind_Inr_iff split: prod.splits)

section \<open>Select lists\<close>

lemma unit_option_iff: "x \<noteq> Some () \<longleftrightarrow> x = None"
  by (cases x) auto

lemma check_visible_iff:
  "check_visible allowed seen ts = Inr () \<longleftrightarrow>
     distinct (map te_alias ts) \<and>
     (\<forall>t \<in> set ts. te_alias t \<notin> set seen \<and> \<not> reserved (te_alias t) \<and> find_foreign_var allowed (te_expr t) = None)"
proof (induction ts arbitrary: seen)
  case Nil
  show ?case by simp
next
  case (Cons t ts)
  have "te_alias t \<notin> te_alias ` set ts \<longleftrightarrow> (\<forall>u \<in> set ts. te_alias u \<noteq> te_alias t)"
    by (auto simp: image_iff)
  then show ?case by (auto simp: rbind_Inr_iff require_base_vars_def Cons.IH unit_option_iff)
qed

text \<open>The items an aggregate specification calls for, read off the loop's state.\<close>

definition out_items :: "populate_output \<Rightarrow> (target \<times> string) list" where
  "out_items out =
     map (\<lambda>c. (TExpr (oc_expr c), oc_alias c)) (ou_columns out) @
     (case ou_count_alias out of None \<Rightarrow> [] | Some cnt \<Rightarrow> [(TCountStar, cnt)]) @
     map (\<lambda>c. (TCount (oc_expr c), oc_alias c)) (ou_counts out) @
     concat (map (\<lambda>su. [(TSum (su_expr su), su_alias su), (TCount (su_expr su), su_counter su)]) (ou_sums out))"

definition counters :: "nat \<Rightarrow> string set" where
  "counters n = (\<lambda>i. hidden_sum_counter_prefix @ int_text (int i)) ` {..<n}"

lemma counters_Suc [simp]: "counters (Suc n) = insert (hidden_sum_counter_prefix @ int_text (int n)) (counters n)"
  by (simp add: counters_def lessThan_Suc)

lemma counter_fresh: "hidden_sum_counter_prefix @ int_text (int n) \<notin> counters n"
  using int_text_inj by (fastforce simp: counters_def)

lemma counters_reserved: "c \<in> counters n \<Longrightarrow> reserved c \<and> c \<noteq> hidden_count_column"
  by (auto simp: counters_def)

definition agg_inv :: "populate_output \<Rightarrow> bool" where
  "agg_inv out \<longleftrightarrow>
     mset (ou_targets out @ ou_hidden_targets out) = mset (out_items out) \<and>
     ou_group out = map oc_expr (ou_columns out) \<and>
     map snd (ou_hidden_targets out) = ou_hidden_columns out \<and> distinct (ou_hidden_columns out) \<and>
     set (ou_hidden_columns out) \<subseteq> counters (ou_index out)"

lemma agg_inv_start: "agg_inv no_output"
  by (simp add: agg_inv_def no_output_def out_items_def)

lemma agg_inv_key: "agg_inv out \<Longrightarrow> agg_inv (add_key cat dep t out)"
  by (auto simp: agg_inv_def add_key_def out_items_def Let_def)

lemma agg_inv_aggregate:
  assumes "agg_inv out" and "add_aggregate cat dep a kind out = Inr out'"
  shows "agg_inv out'"
proof (cases kind)
  case AggCount
  with assms have "ou_count_alias out = None" "out' = out\<lparr>ou_index := ou_index out + 1,
      ou_targets := ou_targets out @ [(TCountStar, a)], ou_count_alias := Some a\<rparr>"
    by (auto simp: add_aggregate_def Let_def rbind_Inr_iff)
  with assms(1) show ?thesis by (auto simp: agg_inv_def out_items_def)
next
  case (AggCountExpr arg)
  with assms show ?thesis by (auto simp: add_aggregate_def Let_def agg_inv_def out_items_def)
next
  case (AggSum arg)
  let ?c = "hidden_sum_counter_prefix @ int_text (int (ou_index out))"
  have "?c \<notin> set (ou_hidden_columns out)"
    using assms(1) counter_fresh by (auto simp: agg_inv_def)
  with AggSum assms show ?thesis
    by (auto simp: add_aggregate_def Let_def agg_inv_def out_items_def)
qed

lemma aggregate_targetD:
  assumes "aggregate_target cat dep refs t out = Inr out'"
  shows "agg_inv out \<Longrightarrow> agg_inv out'"
    and "map snd (ou_targets out') = map snd (ou_targets out) @ [te_alias t]"
    and "ou_pk_columns out' = ou_pk_columns out" "ou_pk_view_columns out' = ou_pk_view_columns out"
    and "ou_hidden_count out' = ou_hidden_count out"
proof -
  consider "out' = add_key cat dep t out"
    | kind where "add_aggregate cat dep (te_alias t) kind out = Inr out'"
    using assms by (auto simp: aggregate_target_def rbind_Inr_iff split: if_splits node.splits)
  note cases = this
  from cases show "agg_inv out \<Longrightarrow> agg_inv out'"
    by cases (simp_all add: agg_inv_key agg_inv_aggregate)
  from cases show "map snd (ou_targets out') = map snd (ou_targets out) @ [te_alias t]"
    "ou_pk_columns out' = ou_pk_columns out" "ou_pk_view_columns out' = ou_pk_view_columns out"
    "ou_hidden_count out' = ou_hidden_count out"
    by (cases; auto simp: add_key_def add_aggregate_def Let_def rbind_Inr_iff split: agg_kind.splits)+
qed

lemma aggregate_targetsD:
  assumes "rfold (aggregate_target cat dep refs) ts out = Inr out'"
  shows "map snd (ou_targets out') = map snd (ou_targets out) @ map te_alias ts"
    and "agg_inv out \<Longrightarrow> agg_inv out'"
  using assms
proof (induction ts arbitrary: out)
  case Nil
  { case 1 then show ?case by simp next case 2 then show ?case by simp }
next
  case (Cons t ts)
  have split: "\<exists>u. aggregate_target cat dep refs t out = Inr u \<and> rfold (aggregate_target cat dep refs) ts u = Inr out'"
    if "rfold (aggregate_target cat dep refs) (t # ts) out = Inr out'" for out
    using that by (auto simp: rbind_Inr_iff)
  {
    case 1
    from split [OF this] Cons.IH(1) aggregate_targetD(2) show ?case by fastforce
  next
    case 2
    from split [OF this(2)] obtain u where
      "aggregate_target cat dep refs t out = Inr u" "rfold (aggregate_target cat dep refs) ts u = Inr out'" by auto
    with 2(1) Cons.IH(2) aggregate_targetD(1) show ?case by blast
  }
qed

text \<open>The finished select list of an aggregate.\<close>

lemma aggregate_outputD:
  assumes "aggregate_output cat dep refs shown = Inr out"
    and "distinct (map te_alias shown)" and "\<forall>t \<in> set shown. \<not> reserved (te_alias t)"
  shows "\<exists>cnt. ou_count_alias out = Some cnt \<and> mset (ou_targets out) = mset (out_items out)"
    and "ou_group out = map oc_expr (ou_columns out)" and "ou_columns out \<noteq> []"
    and "map snd (ou_targets out) = map te_alias shown @ ou_hidden_columns out"
    and "distinct (map snd (ou_targets out))" and "\<forall>c \<in> set (ou_hidden_columns out). reserved c"
proof -
  obtain o1 where f: "rfold (aggregate_target cat dep refs) shown no_output = Inr o1" and ne: "ou_columns o1 \<noteq> []"
    and out: "out = (let o1 = o1\<lparr>ou_targets := ou_targets o1 @ ou_hidden_targets o1\<rparr> in
      if ou_count_alias o1 = None
      then o1\<lparr>ou_targets := ou_targets o1 @ [(TCountStar, hidden_count_column)],
              ou_count_alias := Some hidden_count_column,
              ou_hidden_columns := ou_hidden_columns o1 @ [hidden_count_column], ou_hidden_count := True\<rparr>
      else o1)"
    using assms(1) by (auto simp: aggregate_output_def rbind_Inr_iff Let_def)
  have inv: "agg_inv o1" using aggregate_targetsD(2) [OF f] agg_inv_start by simp
  have names: "map snd (ou_targets o1) = map te_alias shown"
    using aggregate_targetsD(1) [OF f] by (simp add: no_output_def)
  show "\<exists>cnt. ou_count_alias out = Some cnt \<and> mset (ou_targets out) = mset (out_items out)"
    using inv out by (auto simp: agg_inv_def out_items_def Let_def)
  show "ou_group out = map oc_expr (ou_columns out)" "ou_columns out \<noteq> []"
    using inv ne out by (auto simp: agg_inv_def Let_def)
  show n: "map snd (ou_targets out) = map te_alias shown @ ou_hidden_columns out"
    using inv names out by (auto simp: agg_inv_def Let_def)
  have c: "\<forall>c \<in> set (ou_hidden_columns o1). reserved c \<and> c \<noteq> hidden_count_column" "distinct (ou_hidden_columns o1)"
    using inv counters_reserved by (auto simp: agg_inv_def)
  show r: "\<forall>c \<in> set (ou_hidden_columns out). reserved c"
    using c out by (auto simp: Let_def)
  have "distinct (ou_hidden_columns out)"
    using c out by (auto simp: Let_def)
  then show "distinct (map snd (ou_targets out))"
    unfolding n using assms(2,3) r by (auto simp del: set_map) auto
qed

text \<open>The hidden key columns of a join have distinct names.\<close>

lemma hidden_pk_distinct:
  assumes "distinct (map br_rti rels)" and "\<forall>r \<in> set rels. distinct (br_pk_columns r)"
  shows "distinct (map snd (concat (map hidden_pk_targets rels)))"
  using assms
proof (induction rels)
  case Nil
  show ?case by simp
next
  case (Cons r rels)
  have names: "map snd (hidden_pk_targets s) = map (hidden_pk s) (br_pk_columns s)" for s
    by (simp add: hidden_pk_targets_def)
  have "inj_on (hidden_pk r) A" for A by (rule inj_onI) (simp add: hidden_pk_inj)
  then have "distinct (map (hidden_pk r) (br_pk_columns r))" using Cons.prems(2) by (simp add: distinct_map)
  moreover have "hidden_pk r c \<notin> set (map snd (concat (map hidden_pk_targets rels)))" for c
  proof
    assume "hidden_pk r c \<in> set (map snd (concat (map hidden_pk_targets rels)))"
    then obtain s where "s \<in> set rels" "hidden_pk r c \<in> set (map snd (hidden_pk_targets s))" by auto
    then obtain d where "hidden_pk r c = hidden_pk s d" unfolding names by auto
    then have "br_rti r = br_rti s" using hidden_pk_inj by blast
    with Cons.prems(1) \<open>s \<in> set rels\<close> show False by auto
  qed
  ultimately show ?case using Cons by (auto simp: names)
qed

lemma map_filter_ok: "rmap f xs = Inr ys \<Longrightarrow> (\<And>x y. f x = Inr y \<Longrightarrow> g y = h x) \<Longrightarrow> map g ys = map h xs"
  by (induction xs arbitrary: ys) (auto simp: rbind_Inr_iff)

lemma lefts_rights: "lefts xs = [] \<Longrightarrow> length (rights xs) = length xs"
  by (induction xs) (auto simp: lefts_def rights_def List.map_filter_simps split: sum.splits)

lemma set_rights: "x \<in> set (rights xs) \<longleftrightarrow> Inr x \<in> set xs"
  by (induction xs) (auto simp: rights_def List.map_filter_simps split: sum.splits)

lemma projection_outputD:
  assumes "projection_output cat dep joined refs rels rt_index base pk_attnums shown = Inr out"
    and "distinct (map te_alias shown)" and "\<forall>t \<in> set shown. \<not> reserved (te_alias t)"
    and "joined \<Longrightarrow> rels \<noteq> [] \<and> distinct (map br_rti rels) \<and> (\<forall>r \<in> set rels. distinct (br_pk_columns r) \<and> br_pk_columns r \<noteq> [])"
    and "length pk_attnums = length (bt_pk_columns base)"
  shows "ou_group out = []"
    and "map snd (ou_targets out) = map te_alias shown @ ou_hidden_columns out"
    and "distinct (map snd (ou_targets out))" and "\<forall>c \<in> set (ou_hidden_columns out). reserved c"
    and "ou_pk_view_columns out \<noteq> []" and "set (ou_pk_view_columns out) \<subseteq> set (map snd (ou_targets out))"
    and "map oc_alias (ou_columns out) = map te_alias shown" and "rmap (projection_target cat dep) shown = Inr (ou_columns out)"
proof -
  obtain cols where cols: "rmap (projection_target cat dep) shown = Inr cols" and refs: "refs = []"
    using assms(1) by (auto simp: projection_output_def rbind_Inr_iff)
  let ?out = "no_output\<lparr>ou_targets := map (\<lambda>c. (TExpr (oc_expr c), oc_alias c)) cols, ou_columns := cols\<rparr>"
  have al: "map oc_alias cols = map te_alias shown"
    using cols by (rule map_filter_ok) (auto simp: projection_target_def rbind_Inr_iff)
  have tg: "map snd (ou_targets ?out) = map te_alias shown" using al by (simp add: o_def)
  have "ou_group out = [] \<and> map snd (ou_targets out) = map te_alias shown @ ou_hidden_columns out \<and>
    distinct (map snd (ou_targets out)) \<and> (\<forall>c \<in> set (ou_hidden_columns out). reserved c) \<and>
    ou_pk_view_columns out \<noteq> [] \<and> set (ou_pk_view_columns out) \<subseteq> set (map snd (ou_targets out)) \<and> ou_columns out = cols"
  proof (cases joined)
    case True
    let ?hidden = "concat (map hidden_pk_targets rels)"
    have out: "out = ?out\<lparr>ou_targets := ou_targets ?out @ ?hidden, ou_hidden_columns := map snd ?hidden,
        ou_pk_view_columns := map snd ?hidden\<rparr>"
      using assms(1) cols True by (simp add: projection_output_def rbind_Inr_iff Let_def refs reject_if_def)
    have res: "\<forall>c \<in> set (map snd ?hidden). reserved c" by (auto simp: hidden_pk_targets_def)
    have "?hidden \<noteq> []" using assms(4) [OF True] by (cases rels) (auto simp: hidden_pk_targets_def)
    moreover have "distinct (map snd ?hidden)" using assms(4) [OF True] by (intro hidden_pk_distinct) auto
    moreover have "\<forall>c \<in> set (map te_alias shown). \<not> reserved c" using assms(3) by auto
    with res have "set (map te_alias shown) \<inter> set (map snd ?hidden) = {}" by blast
    ultimately show ?thesis using tg assms(2) res unfolding out by (simp add: no_output_def)
  next
    case False
    let ?found = "pk_targets rt_index (zip pk_attnums (bt_pk_columns base)) shown"
    have ok: "pk_attnums \<noteq> []" "lefts ?found = []"
        "out = ?out\<lparr>ou_pk_view_columns := rights ?found, ou_pk_columns := bt_pk_columns base\<rparr>"
      using assms(1) cols False by (auto simp: projection_output_def rbind_Inr_iff Let_def refs reject_if_def split: if_splits)
    have "length (rights ?found) = length pk_attnums"
      using lefts_rights [OF ok(2)] assms(5) by (simp add: pk_targets_def)
    then have "rights ?found \<noteq> []" using ok(1) by auto
    moreover have "set (rights ?found) \<subseteq> te_alias ` set shown"
      by (auto simp: set_rights pk_targets_def find_Some_iff split: option.splits)
    ultimately show ?thesis using tg assms(2) ok(3) by (auto simp: no_output_def)
  qed
  note r = this
  show "ou_group out = []" "map snd (ou_targets out) = map te_alias shown @ ou_hidden_columns out"
    "distinct (map snd (ou_targets out))" "\<forall>c \<in> set (ou_hidden_columns out). reserved c"
    "ou_pk_view_columns out \<noteq> []" "set (ou_pk_view_columns out) \<subseteq> set (map snd (ou_targets out))"
    using r by blast+
  have "ou_columns out = cols" using r by blast
  with al cols show "map oc_alias (ou_columns out) = map te_alias shown"
    "rmap (projection_target cat dep) shown = Inr (ou_columns out)" by simp_all
qed

section \<open>A validated definition\<close>

text \<open>All intermediate results of a successful validation.\<close>

lemma validateE:
  assumes "validate cat def = Inr (spec, base)"
  obtains q entries checked quals parts shown relations out joined pk_attnums dep relname
  where "analyze cat def = Inr q" and "collect_range_table q = Inr entries" and "joined = (length entries > 1)"
    and "check_entries cat joined [] 0 entries = Inr checked" and "snd (hd checked) = (base, pk_attnums)"
    and "collect_quals (qt_jointree q) = Inr quals" and "relname = cat_rel_name cat (bt_oid base)"
    and "dep = make_deparser joined q (bt_oid base) relname"
    and "rmap (qual_text cat dep (map fst entries) (if joined then ''the WHERE or ON clause'' else ''the WHERE clause''))
      (map (flatten cat joined q) quals) = Inr parts"
    and "shown = filter (\<lambda>t. \<not> te_resjunk t) (flat_targets cat joined q)"
    and "check_visible (map fst entries) [] shown = Inr ()" and "shown \<noteq> []"
    and "rmap (use_columns cat joined (concat (map referenced_vars (map (flatten cat joined q) quals @ map te_expr shown)))
        (concat (map (join_key_vars cat) (map (flatten cat joined q) quals)))) (zip entries (map fst checked)) = Inr relations"
    and "if qt_has_aggs q then aggregate_output cat dep (qt_group q) shown = Inr out
      else projection_output cat dep joined (qt_group q) relations (fst (hd entries)) base pk_attnums shown = Inr out"
    and "spec = make_spec joined (qt_has_aggs q) base relname (conjunction parts) relations shown out"
proof -
  obtain q entries checked where q: "analyze cat def = Inr q" "collect_range_table q = Inr entries"
    "check_entries cat (length entries > 1) [] 0 entries = Inr checked"
    and v: "validate_query cat q entries checked = Inr (spec, base)"
    using assms by (auto simp: validate_def rbind_Inr_iff)
  obtain base' pk_attnums where hd: "snd (hd checked) = (base', pk_attnums)" by (rule prod.exhaust)
  define joined where "joined = (length entries > 1)"
  note u = v [unfolded validate_query_def Let_def hd prod.case, folded joined_def]
  from u have base: "base' = base" by (auto simp: rbind_Inr_iff)
  from u show thesis
    by (elim rbind_InrE) (rule that [OF q(1,2) joined_def q(3) [folded joined_def] hd [unfolded base] _ refl refl],
      auto simp: base visible_targets_def Let_def rbind_Inr_iff split: if_splits)
qed

lemma list_all2_use:
  assumes "rmap (use_columns cat joined vr jr) (zip entries rels) = Inr relations" and "length rels = length entries"
  shows "map br_oid relations = map br_oid rels" and "map br_rti relations = map br_rti rels"
    and "map br_pk_columns relations = map br_pk_columns rels" and "map br_columns relations = map br_columns rels"
    and "map br_alias relations = map br_alias rels" and "map br_qualified relations = map br_qualified rels"
    and "length relations = length entries"
proof -
  have s: "map f relations = map (f \<circ> snd) (zip entries rels)"
    if "\<And>e rel rel'. use_columns cat joined vr jr (e, rel) = Inr rel' \<Longrightarrow> f rel' = f rel" for f :: "base_relation \<Rightarrow> 'c"
    using assms(1) by (rule map_filter_ok) (use that in auto)
  have z: "map (f \<circ> snd) (zip entries rels) = map f rels" for f :: "base_relation \<Rightarrow> 'd"
    using assms(2) by (metis map_map map_snd_zip)
  show "map br_oid relations = map br_oid rels" "map br_rti relations = map br_rti rels"
    "map br_pk_columns relations = map br_pk_columns rels" "map br_columns relations = map br_columns rels"
    "map br_alias relations = map br_alias rels" "map br_qualified relations = map br_qualified rels"
    using s use_columnsD z by metis+
  show "length relations = length entries" using rmap_length [OF assms(1)] assms(2) by simp
qed

end
