(* ===== verification/Validator_Theorems.thy ===== *)
theory Validator_Theorems
  imports Validator_Facts Example_Catalog View_Maintenance
begin

text \<open>
  What an accepted definition guarantees to the rest of the program: the two shapes the maintenance
  proofs assume, columns that cover every reference, and expressions without mutable functions.
\<close>

text \<open>PostgreSQL's catalogs: key columns are distinct, and attribute numbers name columns.\<close>

definition keys_distinct :: "catalog \<Rightarrow> bool" where
  "keys_distinct cat \<longleftrightarrow> (\<forall>o1. distinct (map snd (cat_primary_key cat o1)))"

lemma validated_relations:
  assumes "collect_range_table q = Inr entries" and "check_entries cat joined [] 0 entries = Inr checked"
    and "rmap (use_columns cat joined vr jr) (zip entries (map fst checked)) = Inr relations"
  shows "map br_oid relations = map (rt_relid \<circ> snd) entries" and "distinct (map br_oid relations)"
    and "distinct (map br_rti relations)" and "length relations = length entries" and "relations \<noteq> []"
    and "\<forall>r \<in> set relations. br_pk_columns r = map snd (cat_primary_key cat (br_oid r)) \<and> (joined \<longrightarrow> br_pk_columns r \<noteq> [])"
    and "\<forall>r \<in> set relations. br_columns r = map fst (cat_columns cat (br_oid r))"
proof -
  note ce = check_entriesD [OF assms(2)]
  have len: "length checked = length entries" using ce(1) by (simp add: list_all2_lengthD)
  note u = list_all2_use [OF assms(3)]
  have oids: "map br_oid relations = map br_oid (map fst checked)" using u(1) len by simp
  show o1: "map br_oid relations = map (rt_relid \<circ> snd) entries" using oids ce(2) by simp
  show "distinct (map br_oid relations)" using o1 ce(3) by simp
  show "distinct (map br_rti relations)" using u(2) len ce(5) by simp
  show l: "length relations = length entries" using u(7) len by simp
  show "relations \<noteq> []" using l collect_range_tableD(1) [OF assms(1)] by auto
  have entry: "br_pk_columns (fst b) = map snd (cat_primary_key cat (br_oid (fst b))) \<and>
      (joined \<longrightarrow> br_pk_columns (fst b) \<noteq> []) \<and> br_columns (fst b) = map fst (cat_columns cat (br_oid (fst b)))"
    if mem: "b \<in> set checked" for b
  proof -
    obtain e seen i where "check_entry cat joined seen i e = Inr (fst b, fst (snd b), snd (snd b))"
      by (rule check_entries_mem [OF assms(2) mem])
    from check_entryD [OF this] show ?thesis by auto
  qed
  have nth: "br_oid (relations ! i) = br_oid (fst (checked ! i)) \<and> br_pk_columns (relations ! i) = br_pk_columns (fst (checked ! i)) \<and>
      br_columns (relations ! i) = br_columns (fst (checked ! i))" if "i < length relations" for i
    using that u(1,3,4) len l by (metis (no_types, lifting) length_map nth_map)
  have each: "br_pk_columns r = map snd (cat_primary_key cat (br_oid r)) \<and> (joined \<longrightarrow> br_pk_columns r \<noteq> []) \<and>
      br_columns r = map fst (cat_columns cat (br_oid r))" if mem: "r \<in> set relations" for r
  proof -
    obtain i where i: "i < length relations" "r = relations ! i" using mem by (auto simp: in_set_conv_nth)
    then have "checked ! i \<in> set checked" using l len by simp
    from entry [OF this] nth [OF i(1)] show ?thesis unfolding i(2) by metis
  qed
  show "\<forall>r \<in> set relations. br_pk_columns r = map snd (cat_primary_key cat (br_oid r)) \<and> (joined \<longrightarrow> br_pk_columns r \<noteq> [])"
    "\<forall>r \<in> set relations. br_columns r = map fst (cat_columns cat (br_oid r))"
    using each by blast+
qed

lemma validated_distinct_oids:
  assumes "validate cat def = Inr (spec, base)"
  shows "distinct (map br_oid (sp_relations spec))"
  using assms
proof (rule validateE)
  fix q entries checked quals parts shown relations out joined pk_attnums dep relname
  assume c: "check_entries cat joined [] 0 entries = Inr checked" "collect_range_table q = Inr entries"
    "rmap (use_columns cat joined (concat (map referenced_vars (map (flatten cat joined q) quals @ map te_expr shown)))
        (concat (map (join_key_vars cat) (map (flatten cat joined q) quals)))) (zip entries (map fst checked)) = Inr relations"
    and spec: "spec = make_spec joined (qt_has_aggs q) base relname (conjunction parts) relations shown out"
  show ?thesis using validated_relations(2) [OF c(2,1,3)] by (simp add: spec make_spec_def Let_def)
qed

section \<open>What the view evaluates\<close>

text \<open>
  The expressions evaluated for every row of a target: the arguments of an aggregate, otherwise the
  expression itself.
\<close>

definition evaluated :: "query_tree \<Rightarrow> target_entry \<Rightarrow> node list" where
  "evaluated q t =
     (case te_expr t of
        Aggref a args direct flt \<Rightarrow>
          if qt_has_aggs q \<and> \<not> is_group_key (qt_group q) t then (if ag_star a then [] else args) else [te_expr t]
      | _ \<Rightarrow> [te_expr t])"

lemma require_immutable_iff: "require_immutable cat n place = Inr u \<longleftrightarrow> \<not> cat_contain_mutable cat n"
  by (simp add: require_immutable_def split: option.split)

lemma classify_aggregate_immutable:
  assumes "classify_aggregate cat a args direct flt alias = Inr kind" and "\<not> ag_star a" and "n \<in> set args"
  shows "\<not> cat_contain_mutable cat n"
proof -
  have "length args = 1 \<and> \<not> cat_contain_mutable cat (hd args)"
    using assms(1,2)
    by (auto simp: classify_aggregate_def Let_def rbind_Inr_iff require_immutable_iff split: if_splits)
  with assms(3) show ?thesis by (cases args) auto
qed

lemma aggregate_target_immutable:
  assumes "aggregate_target cat dep (qt_group q) t out = Inr out'" and "qt_has_aggs q" and "n \<in> set (evaluated q t)"
  shows "\<not> cat_contain_mutable cat n"
proof (cases "is_group_key (qt_group q) t")
  case True
  then show ?thesis
    using assms by (auto simp: aggregate_target_def evaluated_def rbind_Inr_iff require_immutable_iff split: node.splits)
next
  case False
  then obtain a args direct flt where "te_expr t = Aggref a args direct flt"
      "\<exists>kind. classify_aggregate cat a args direct flt (te_alias t) = Inr kind"
    using assms(1) by (auto simp: aggregate_target_def rbind_Inr_iff split: node.splits if_splits)
  with assms(2,3) False classify_aggregate_immutable show ?thesis by (fastforce simp: evaluated_def split: if_splits)
qed

lemma aggregate_targets_immutable:
  assumes "rfold (aggregate_target cat dep (qt_group q)) ts out = Inr out'" and "qt_has_aggs q"
    and "t \<in> set ts" and "n \<in> set (evaluated q t)"
  shows "\<not> cat_contain_mutable cat n"
  using assms(1,3)
proof (induction ts arbitrary: out)
  case Nil
  then show ?case by simp
next
  case (Cons u ts)
  then obtain out1 where "aggregate_target cat dep (qt_group q) u out = Inr out1"
      "rfold (aggregate_target cat dep (qt_group q)) ts out1 = Inr out'" by (auto simp: rbind_Inr_iff)
  with Cons assms(2,4) aggregate_target_immutable show ?case by auto
qed

text \<open>A reference to a column of an entry is noted in the relation of the entry.\<close>

lemma use_columns_covers:
  assumes "use_columns cat joined var_refs join_refs (e, rel) = Inr rel'" and "(fst e, a) \<in> set var_refs"
    and "length (br_columns rel) = length (br_column_types rel)"
  shows "0 < a" and "cat_att_name cat (rt_relid (snd e)) a \<in> set (br_columns rel') \<Longrightarrow>
    cat_att_name cat (rt_relid (snd e)) a \<in> set (br_used_columns rel')"
proof -
  obtain names where n: "rmap (used_name cat (rt_relid (snd e))) (filter (\<lambda>va. fst va = fst e) var_refs) = Inr names"
      "rel' = rel\<lparr>br_used_columns := map fst (filter (\<lambda>nt. fst nt \<in> set (names @ (if joined then br_pk_columns rel else [])))
          (zip (br_columns rel) (br_column_types rel))),
        br_used_column_types := br_used_column_types rel', br_join_keys := br_join_keys rel'\<rparr>"
    using assms(1) by (auto simp: use_columns_def rbind_Inr_iff Let_def split: prod.splits)
  have "(fst e, a) \<in> set (filter (\<lambda>va. fst va = fst e) var_refs)" using assms(2) by simp
  from rmap_mem [OF n(1) this] obtain nm where "nm \<in> set names" "used_name cat (rt_relid (snd e)) (fst e, a) = Inr nm"
    by blast
  then have pos: "0 < a" and nm: "cat_att_name cat (rt_relid (snd e)) a \<in> set names"
    by (auto simp: used_name_def split: if_splits)
  show "0 < a" by (rule pos)
  assume "cat_att_name cat (rt_relid (snd e)) a \<in> set (br_columns rel')"
  then have "cat_att_name cat (rt_relid (snd e)) a \<in> set (br_columns rel)"
    using use_columnsD(6) [OF assms(1)] by simp
  then obtain ty where "(cat_att_name cat (rt_relid (snd e)) a, ty) \<in> set (zip (br_columns rel) (br_column_types rel))"
    using assms(3) by (metis in_set_impl_in_set_zip1)
  with nm show "cat_att_name cat (rt_relid (snd e)) a \<in> set (br_used_columns rel')"
    by (subst n(2)) force
qed

lemma projection_pk_length:
  assumes "projection_output cat dep joined refs rels rt_index base pk_attnums shown = Inr out" and "\<not> joined"
    and "length pk_attnums = length (bt_pk_columns base)"
  shows "length (ou_pk_columns out) = length (ou_pk_view_columns out)"
proof -
  let ?found = "pk_targets rt_index (zip pk_attnums (bt_pk_columns base)) shown"
  have "lefts ?found = []" "ou_pk_view_columns out = rights ?found" "ou_pk_columns out = bt_pk_columns base"
    using assms(1,2) by (auto simp: projection_output_def rbind_Inr_iff Let_def reject_if_def split: if_splits)
  then show ?thesis using lefts_rights [of ?found] assms(3) by (simp add: pk_targets_def)
qed

lemma validated_shape:
  assumes "validate cat def = Inr (spec, base)" and "keys_distinct cat"
  shows "(wf_aggregate spec \<or> wf_projection spec) \<and>
    map snd (sp_select_list spec) = sp_visible_columns spec @ sp_hidden_columns spec \<and>
    distinct (sp_visible_columns spec @ sp_hidden_columns spec) \<and>
    \<not> list_ex reserved (sp_visible_columns spec) \<and> list_all reserved (sp_hidden_columns spec) \<and>
    set (identity_columns spec) \<subseteq> set (map snd (sp_select_list spec)) \<and> identity_columns spec \<noteq> [] \<and>
    distinct (map br_oid (sp_relations spec)) \<and>
    q_select (sp_populate_sql spec) = sp_select_list spec \<and> q_group_by (sp_populate_sql spec) = sp_group_by spec \<and>
    (sp_shape spec = Projection \<and> \<not> is_join spec \<longrightarrow> length (sp_pk_columns spec) = length (sp_pk_view_columns spec))"
  using assms(1)
proof (rule validateE)
  fix q entries checked quals parts shown relations out joined pk_attnums dep relname
  assume range: "collect_range_table q = Inr entries" and j: "joined = (length entries > 1)"
    and checked: "check_entries cat joined [] 0 entries = Inr checked" "snd (hd checked) = (base, pk_attnums)"
    and vis: "check_visible (map fst entries) [] shown = Inr ()"
    and use: "rmap (use_columns cat joined (concat (map referenced_vars (map (flatten cat joined q) quals @ map te_expr shown)))
        (concat (map (join_key_vars cat) (map (flatten cat joined q) quals)))) (zip entries (map fst checked)) = Inr relations"
    and out: "if qt_has_aggs q then aggregate_output cat dep (qt_group q) shown = Inr out
      else projection_output cat dep joined (qt_group q) relations (fst (hd entries)) base pk_attnums shown = Inr out"
    and spec: "spec = make_spec joined (qt_has_aggs q) base relname (conjunction parts) relations shown out"
  note rels = validated_relations [OF range checked(1) use]
  have names: "distinct (map te_alias shown)" "\<forall>t \<in> set shown. \<not> reserved (te_alias t)"
    using vis by (simp_all add: check_visible_iff)
  have sp: "sp_select_list spec = ou_targets out" "sp_relations spec = relations"
    "sp_visible_columns spec = map te_alias shown" "sp_hidden_columns spec = ou_hidden_columns out"
    "sp_columns spec = ou_columns out" "sp_pk_view_columns spec = ou_pk_view_columns out"
    "sp_count_alias spec = ou_count_alias out" "sp_counts spec = ou_counts out" "sp_sums spec = ou_sums out"
    "sp_group_by spec = (if ou_group out = [] then None else Some (ou_group out))"
    "sp_shape spec = (if qt_has_aggs q then Aggregate else Projection)" "sp_pk_columns spec = ou_pk_columns out"
    "q_select (sp_populate_sql spec) = ou_targets out"
    "q_group_by (sp_populate_sql spec) = (if ou_group out = [] then None else Some (ou_group out))"
    unfolding spec make_spec_def Let_def by simp_all
  have vis_ok: "\<not> list_ex reserved (map te_alias shown)" using names(2) by (simp add: list_ex_iff)
  show ?thesis
  proof (cases "qt_has_aggs q")
    case True
    then have "aggregate_output cat dep (qt_group q) shown = Inr out" using out by simp
    note o = aggregate_outputD [OF this names]
    obtain cnt where cnt: "ou_count_alias out = Some cnt" "mset (ou_targets out) = mset (out_items out)" using o(1) by auto
    have "wf_aggregate spec"
      using True o(2,3,5) cnt by (auto simp: wf_aggregate_def sp agg_items_def out_items_def)
    moreover have "set (map oc_alias (ou_columns out)) \<subseteq> set (map snd (ou_targets out))"
    proof -
      have "set (ou_targets out) = set (out_items out)" using cnt(2) by (metis set_mset_mset)
      then show ?thesis by (force simp: out_items_def)
    qed
    ultimately show ?thesis
      using True o(3,4,5,6) rels(2) vis_ok by (simp add: sp identity_columns_def list_all_iff)
  next
    case False
    then have p: "projection_output cat dep joined (qt_group q) relations (fst (hd entries)) base pk_attnums shown = Inr out"
      using out by simp
    have j_ok: "relations \<noteq> [] \<and> distinct (map br_rti relations) \<and>
        (\<forall>r \<in> set relations. distinct (br_pk_columns r) \<and> br_pk_columns r \<noteq> [])" if joined
      using rels(3,5,6) that assms(2) by (auto simp: keys_distinct_def)
    have "checked \<noteq> []" using rels(4,5) check_entriesD(1) [OF checked(1)] by (auto dest: list_all2_lengthD)
    then have "hd checked \<in> set checked" by simp
    from check_entries_mem [OF checked(1) this] obtain e seen i
      where "check_entry cat joined seen i e = Inr (fst (hd checked), fst (snd (hd checked)), snd (snd (hd checked)))"
      by blast
    note ce = check_entryD [OF this [unfolded checked(2) fst_conv snd_conv]]
    have len: "length pk_attnums = length (bt_pk_columns base)" unfolding ce(7) ce(3) ce(9) by simp
    note o = projection_outputD [OF p names j_ok len]
    have "joined \<longleftrightarrow> is_join spec"
      using rels(4) by (simp add: j is_join_def sp)
    then have "length (ou_pk_columns out) = length (ou_pk_view_columns out)" if "\<not> is_join spec"
      using projection_pk_length [OF p _ len] that by simp
    moreover have "wf_projection spec"
      using False o(1,3,5) by (simp add: wf_projection_def sp)
    ultimately show ?thesis
      using False o(2,3,4,5,6) rels(2) vis_ok by (simp add: sp identity_columns_def list_all_iff)
  qed
qed

section \<open>Properties\<close>

text \<open>
  C29. Every accepted definition has one of the two shapes the maintenance relies on. The validator's
  specification is a well-formed aggregate (its select list is exactly the group keys, one
  \<open>count(*)\<close>, the \<open>count(expr)\<close>s and the \<open>sum(expr)\<close>s, each with its hidden counter, grouped by the
  keys) or a well-formed projection with a row identity; its output names are distinct, the hidden ones
  are reserved and follow the visible ones, which are not; its base relations are distinct tables.
\<close>

theorem validated_spec_wf:
  assumes "validate cat def = Inr (spec, base)" and "keys_distinct cat"
  shows "(wf_aggregate spec \<or> wf_projection spec) \<and>
    map snd (sp_select_list spec) = sp_visible_columns spec @ sp_hidden_columns spec \<and>
    distinct (sp_visible_columns spec @ sp_hidden_columns spec) \<and>
    \<not> list_ex reserved (sp_visible_columns spec) \<and> list_all reserved (sp_hidden_columns spec) \<and>
    set (identity_columns spec) \<subseteq> set (map snd (sp_select_list spec)) \<and> identity_columns spec \<noteq> [] \<and>
    distinct (map br_oid (sp_relations spec))"
  using validated_shape [OF assms] by blast

theorem validated_spec_wf_witness:
  "wf_aggregate (fst (the (validated ''agg''))) \<and> wf_projection (fst (the (validated ''join''))) \<and>
   sp_hidden_columns (fst (the (validated ''join''))) = [''_nabla_pk1_k'', ''_nabla_pk2_k'']"
proof -
  have k: "keys_distinct example_catalog" by (simp add: keys_distinct_def example_catalog_def)
  have v: "validate example_catalog s = Inr (fst (the (validated s)), snd (the (validated s)))"
    if "validated s \<noteq> None" for s using validatedI [OF that] by simp
  note wf = validated_spec_wf [OF v k]
  have "sp_shape (fst (the (validated ''agg''))) = Aggregate" "sp_shape (fst (the (validated ''join''))) = Projection"
    "sp_hidden_columns (fst (the (validated ''join''))) = [''_nabla_pk1_k'', ''_nabla_pk2_k'']" by code_simp+
  with wf [OF example_validates(2)] wf [OF example_validates(3)] show ?thesis
    by (auto simp: wf_aggregate_def wf_projection_def)
qed

text \<open>
  C40. The expressions of an accepted definition are safe to maintain. Every expression of its WHERE and
  ON clauses and of its select list refers only to columns of its own base relations, never to a whole
  row or a system column, and a referenced column of a relation is among its used columns, so a change
  of its type is noticed as drift; and every expression the view evaluates for a row (the conditions,
  the group keys and projected columns, the arguments of the aggregates) is free of mutable functions.
\<close>

theorem validated_expressions_safe:
  assumes "validate cat def = Inr (spec, base)"
  shows "\<exists>q entries quals shown. analyze cat def = Inr q \<and> collect_range_table q = Inr entries \<and>
    collect_quals (qt_jointree q) = Inr quals \<and> map te_alias shown = sp_visible_columns spec \<and>
    length (sp_relations spec) = length entries \<and>
    (\<forall>n \<in> set (map (flatten cat (length entries > 1) q) quals @ map te_expr shown). \<forall>v a lev. Var v a lev \<in> set (nodes n) \<longrightarrow>
      lev = 0 \<and> 0 < a \<and> (\<exists>i < length entries. v = fst (entries ! i) \<and>
        br_oid (sp_relations spec ! i) = rt_relid (snd (entries ! i)) \<and>
        (cat_att_name cat (br_oid (sp_relations spec ! i)) a \<in> set (br_columns (sp_relations spec ! i)) \<longrightarrow>
         cat_att_name cat (br_oid (sp_relations spec ! i)) a \<in> set (br_used_columns (sp_relations spec ! i))))) \<and>
    (\<forall>n \<in> set (map (flatten cat (length entries > 1) q) quals @ concat (map (evaluated q) shown)). \<not> cat_contain_mutable cat n)"
  using assms
proof (rule validateE)
  fix q entries checked quals parts shown relations out joined pk_attnums dep relname
  assume q: "analyze cat def = Inr q" "collect_range_table q = Inr entries" and j: "joined = (length entries > 1)"
    and checked: "check_entries cat joined [] 0 entries = Inr checked" and cq: "collect_quals (qt_jointree q) = Inr quals"
    and texts: "rmap (qual_text cat dep (map fst entries) (if joined then ''the WHERE or ON clause'' else ''the WHERE clause''))
      (map (flatten cat joined q) quals) = Inr parts"
    and vis: "check_visible (map fst entries) [] shown = Inr ()"
    and use: "rmap (use_columns cat joined (concat (map referenced_vars (map (flatten cat joined q) quals @ map te_expr shown)))
        (concat (map (join_key_vars cat) (map (flatten cat joined q) quals)))) (zip entries (map fst checked)) = Inr relations"
    and out: "if qt_has_aggs q then aggregate_output cat dep (qt_group q) shown = Inr out
      else projection_output cat dep joined (qt_group q) relations (fst (hd entries)) base pk_attnums shown = Inr out"
    and spec: "spec = make_spec joined (qt_has_aggs q) base relname (conjunction parts) relations shown out"
  let ?quals = "map (flatten cat joined q) quals"
  let ?refs = "concat (map referenced_vars (?quals @ map te_expr shown))"
  note rels = validated_relations [OF q(2) checked use]
  have sp: "sp_relations spec = relations" "sp_visible_columns spec = map te_alias shown"
    unfolding spec make_spec_def Let_def by simp_all
  have qual: "\<not> cat_contain_mutable cat n \<and> find_foreign_var (map fst entries) n = None" if "n \<in> set ?quals" for n
  proof -
    from rmap_mem [OF texts that] show ?thesis by (auto simp: qual_text_def rbind_Inr_iff require_immutable_iff require_base_vars_def unit_option_iff)
  qed
  have target: "\<not> cat_contain_mutable cat n" if t: "t \<in> set shown" "n \<in> set (evaluated q t)" for t n
  proof (cases "qt_has_aggs q")
    case True
    then have "\<exists>o1 o2. rfold (aggregate_target cat dep (qt_group q)) shown o1 = Inr o2"
      using out by (auto simp: aggregate_output_def rbind_Inr_iff)
    with True t aggregate_targets_immutable show ?thesis by blast
  next
    case False
    then obtain cols where "rmap (projection_target cat dep) shown = Inr cols"
      using out by (auto simp: projection_output_def rbind_Inr_iff)
    then have "\<exists>c. projection_target cat dep t = Inr c"
      using rmap_mem [of "projection_target cat dep" shown cols] t(1) by blast
    then show ?thesis
      using False t(2) by (auto simp: projection_target_def evaluated_def rbind_Inr_iff require_immutable_iff split: node.splits)
  qed
  have ref: "lev = 0 \<and> 0 < a \<and> (\<exists>i < length entries. v = fst (entries ! i) \<and>
        br_oid (relations ! i) = rt_relid (snd (entries ! i)) \<and>
        (cat_att_name cat (br_oid (relations ! i)) a \<in> set (br_columns (relations ! i)) \<longrightarrow>
         cat_att_name cat (br_oid (relations ! i)) a \<in> set (br_used_columns (relations ! i))))"
    if n: "n \<in> set (?quals @ map te_expr shown)" "Var v a lev \<in> set (nodes n)" for n v a lev
  proof -
    have "find_foreign_var (map fst entries) n = None"
      using n(1) qual vis by (auto simp: check_visible_iff)
    then have l: "lev = 0" "v \<in> set (map fst entries)" using n(2) by (auto simp: find_foreign_None_iff)
    then obtain i where i: "i < length entries" "v = fst (entries ! i)" by (auto simp: in_set_conv_nth)
    have "(v, a) \<in> set (referenced_vars n)" using n(2) l(1) by (simp add: set_referenced_vars)
    then have r: "(fst (entries ! i), a) \<in> set ?refs" using n(1) i(2) by auto
    have lc: "length checked = length entries" using check_entriesD(1) [OF checked] by (simp add: list_all2_lengthD)
    have u: "use_columns cat joined ?refs (concat (map (join_key_vars cat) ?quals)) (entries ! i, fst (checked ! i)) =
        Inr (relations ! i)"
      using use i(1) lc rels(4) by (auto simp: rmap_Inr_iff list_all2_conv_all_nth)
    have "\<exists>seen k. check_entry cat joined seen k (entries ! i) = Inr (fst (checked ! i), fst (snd (checked ! i)), snd (snd (checked ! i)))"
      using check_entriesD(1) [OF checked] i(1) by (auto simp: list_all2_conv_all_nth)
    then obtain seen k where "check_entry cat joined seen k (entries ! i) =
        Inr (fst (checked ! i), fst (snd (checked ! i)), snd (snd (checked ! i)))" by blast
    note ce = check_entryD [OF this]
    have "length (br_columns (fst (checked ! i))) = length (br_column_types (fst (checked ! i)))"
      unfolding ce(4,5) by simp
    note c = use_columns_covers [OF u r this]
    have "br_oid (relations ! i) = rt_relid (snd (entries ! i))"
      using use_columnsD(1) [OF u] ce(1) by simp
    with c l(1) i show ?thesis by metis
  qed
  show ?thesis
  proof (rule exI [of _ q], rule exI [of _ entries], rule exI [of _ quals], rule exI [of _ shown],
      unfold j [symmetric], intro conjI)
    show "analyze cat def = Inr q" "collect_range_table q = Inr entries" "collect_quals (qt_jointree q) = Inr quals"
      by (rule q cq)+
    show "map te_alias shown = sp_visible_columns spec" by (simp add: sp)
    show "length (sp_relations spec) = length entries" using rels(4) by (simp add: sp)
    show "\<forall>n \<in> set (?quals @ map te_expr shown). \<forall>v a lev. Var v a lev \<in> set (nodes n) \<longrightarrow>
      lev = 0 \<and> 0 < a \<and> (\<exists>i < length entries. v = fst (entries ! i) \<and>
        br_oid (sp_relations spec ! i) = rt_relid (snd (entries ! i)) \<and>
        (cat_att_name cat (br_oid (sp_relations spec ! i)) a \<in> set (br_columns (sp_relations spec ! i)) \<longrightarrow>
         cat_att_name cat (br_oid (sp_relations spec ! i)) a \<in> set (br_used_columns (sp_relations spec ! i))))"
      unfolding sp using ref by blast
    show "\<forall>n \<in> set (?quals @ concat (map (evaluated q) shown)). \<not> cat_contain_mutable cat n"
      using qual target by auto
  qed
qed

text \<open>The join of the example: its condition is not mutable and refers to the second column of the first table.\<close>

theorem validated_expressions_safe_witness:
  "\<not> example_mutable (OpExpr 96 65 [Var 1 2 0, Var 2 1 0]) \<and>
   ''v'' \<in> set (br_used_columns (sp_relations (fst (the (validated ''join''))) ! 0))"
proof -
  let ?spec = "fst (the (validated ''join''))"
  let ?n = "OpExpr 96 65 [Var 1 2 0, Var 2 1 0]"
  have ex: "validate example_catalog ''join'' = Inr (?spec, snd (the (validated ''join'')))"
    using validatedI [OF example_validates(3)] by simp
  have an: "analyze example_catalog ''join'' = Inr join_query"
    by (simp add: analyze_def example_catalog_def raised_def)
  have range: "collect_range_table join_query = Inr [(1, example_rte 16 ''a''), (2, example_rte 17 ''b'')]"
    by (simp add: collect_range_table_def join_query_def example_query_def example_rte_def)
  have quals: "collect_quals (qt_jointree join_query) = Inr [?n]"
    by (simp add: join_query_def example_query_def opt_list_def)
  have flat: "flatten example_catalog b join_query n = n" for b n
    by (simp add: flatten_def example_catalog_def)
  obtain q entries quals shown where q: "analyze example_catalog ''join'' = Inr q" "collect_range_table q = Inr entries"
      "collect_quals (qt_jointree q) = Inr quals"
    and vars: "\<forall>n \<in> set (map (flatten example_catalog (length entries > 1) q) quals @ map te_expr shown).
      \<forall>v a lev. Var v a lev \<in> set (nodes n) \<longrightarrow>
      lev = 0 \<and> 0 < a \<and> (\<exists>i < length entries. v = fst (entries ! i) \<and>
        br_oid (sp_relations ?spec ! i) = rt_relid (snd (entries ! i)) \<and>
        (cat_att_name example_catalog (br_oid (sp_relations ?spec ! i)) a \<in> set (br_columns (sp_relations ?spec ! i)) \<longrightarrow>
         cat_att_name example_catalog (br_oid (sp_relations ?spec ! i)) a \<in> set (br_used_columns (sp_relations ?spec ! i))))"
    and immut: "\<forall>n \<in> set (map (flatten example_catalog (length entries > 1) q) quals @ concat (map (evaluated q) shown)).
      \<not> cat_contain_mutable example_catalog n"
    using validated_expressions_safe [OF ex] by (elim exE conjE) (rule that, assumption+)
  have qe: "q = join_query" "entries = [(1, example_rte 16 ''a''), (2, example_rte 17 ''b'')]" "quals = [?n]"
    using q an range quals by auto
  have "Var 1 2 0 \<in> set (nodes ?n)" by (simp add: set_nodes [of ?n])
  moreover have "?n \<in> set (map (flatten example_catalog
      (length [(1 :: int, example_rte 16 ''a''), (2, example_rte 17 ''b'')] > 1) join_query) [?n] @ map te_expr shown)"
    by (simp add: flat)
  ultimately obtain i where
    i: "i < length [(1 :: int, example_rte 16 ''a''), (2, example_rte 17 ''b'')]" "1 = fst ([(1 :: int, example_rte 16 ''a''), (2, example_rte 17 ''b'')] ! i)"
      "cat_att_name example_catalog (br_oid (sp_relations ?spec ! i)) 2 \<in> set (br_columns (sp_relations ?spec ! i)) \<longrightarrow>
       cat_att_name example_catalog (br_oid (sp_relations ?spec ! i)) 2 \<in> set (br_used_columns (sp_relations ?spec ! i))"
    using vars [unfolded qe] by blast
  have "i = 0" using i(1,2) by (cases i) auto
  moreover have "''v'' \<in> set (br_columns (sp_relations ?spec ! 0))" by code_simp
  ultimately have "''v'' \<in> set (br_used_columns (sp_relations ?spec ! 0))"
    using i(3) by (simp add: example_catalog_def example_att_def)
  moreover have "\<not> example_mutable ?n"
    using immut [unfolded qe, rule_format, of ?n] flat by (simp add: example_catalog_def)
  ultimately show ?thesis by (intro conjI)
qed

end
