(* ===== verification/Api.thy ===== *)
theory Api
  imports Catalog Validator
begin

text \<open>
  The reading half of \<open>src/src/api.rs\<close>: how a name finds its row of \<open>nabla.views\<close>, the refresh set of a
  join view, waiting for a frontier or for a build, and the pages of the delta log a subscriber reads.
  An error a function raises is a \<open>report\<close>. PostgreSQL's name resolution is a parameter, the record
  \<open>api\<close>; what another session commits between two polls is a sequence of observations.
\<close>

section \<open>Parameters\<close>

text \<open>
  \<open>ap_range_var\<close> is \<open>stringToQualifiedNameList\<close> and \<open>makeRangeVarFromNameList\<close>, the parts of a
  qualified name (catalog, schema, relation), or the error it raises; \<open>ap_visible_relid\<close> looks a name up
  through the search path; \<open>ap_view_relid\<close> is the column \<open>nabla.views.relid\<close>, which PostgreSQL assigns
  when the VIEW is created; \<open>ap_spec_error\<close> is what \<open>serde_json\<close> says of a corrupt specification;
  \<open>ap_json\<close> reads a stored \<open>jsonb\<close>. The last six are for the writing functions: the catalogs a
  definition is validated against and the report of an error PostgreSQL raises meanwhile, the WAL level,
  the quoted name of an oid, creating the slot (its position, or an error) and dropping a relation (the
  objects the DROP removes, as \<open>pg_event_trigger_dropped_objects\<close> lists them, or an error).
\<close>

record dropped =
  dr_oid :: u32
  dr_schema :: string
  dr_name :: string

record api =
  ap_range_var :: "string \<Rightarrow> report + string option \<times> string option \<times> string"
  ap_creation_namespace :: "report + string"
  ap_visible_relid :: "string option \<times> string \<Rightarrow> u32 option"
  ap_view_relid :: "int \<Rightarrow> u32 option"
  ap_spec_error :: "int \<Rightarrow> string"
  ap_json :: "string \<Rightarrow> json"
  ap_catalog :: catalog
  ap_raised :: "string \<Rightarrow> report"
  ap_wal_level :: string
  ap_regclass :: "u32 \<Rightarrow> string option"
  ap_create_slot :: "report + u64"
  ap_drop :: "string \<Rightarrow> report + dropped list"

section \<open>Finding a view\<close>

text \<open>\<open>CatalogRow\<close>; \<open>load_view_where\<close> raises when one of the selected rows has a corrupt specification.\<close>

record catalog_row =
  cr_id :: int
  cr_name :: string
  cr_spec :: view_spec
  cr_frontier :: u64
  cr_epoch :: int
  cr_status :: string
  cr_last_seq :: int
  cr_stale_reason :: "string option"
  cr_last_error :: "string option"

definition load_row :: "api \<Rightarrow> view_entry \<Rightarrow> report + catalog_row" where
  "load_row ap v =
     (case vw_spec v of
        None \<Rightarrow> Inl (invalid (''nabla: corrupt spec: '' @ ap_spec_error ap (vw_id v)) None)
      | Some spec \<Rightarrow>
          Inr \<lparr>cr_id = vw_id v, cr_name = vw_name v, cr_spec = spec, cr_frontier = read_lsn (vw_frontier v),
               cr_epoch = vw_epoch v, cr_status = vw_status v, cr_last_seq = vw_last_seq v,
               cr_stale_reason = vw_stale_reason v, cr_last_error = vw_last_error v\<rparr>)"

definition load_view_where :: "api \<Rightarrow> (view_entry \<Rightarrow> bool) \<Rightarrow> db \<Rightarrow> report + catalog_row list" where
  "load_view_where ap p d = rmap (load_row ap) (filter p (db_views d))"

definition parse_name :: "api \<Rightarrow> string \<Rightarrow> report + string option \<times> string" where
  "parse_name ap name =
     (if CHR 0x00 \<in> set name then Inl (invalid ''nabla: view name contains a NUL byte'' None)
      else rbind (ap_range_var ap name) (\<lambda>(catalog, schema, rel).
        if catalog \<noteq> None
        then Inl (invalid (''nabla: view name '' @ quoted name @ '' must have at most two parts (schema.name)'') None)
        else Inr (schema, rel)))"

definition creation_name :: "api \<Rightarrow> string option \<times> string \<Rightarrow> report + string" where
  "creation_name ap rv =
     rbind (case fst rv of Some s \<Rightarrow> Inr s | None \<Rightarrow> ap_creation_namespace ap) (\<lambda>schema.
     Inr (cat_quote_qualified (ap_catalog ap) schema (snd rv)))"

definition not_found :: "string \<Rightarrow> report" where
  "not_found name = raise_error ''42P01'' (''nabla: view '' @ quoted name @ '' does not exist'') None"

definition first_row :: "catalog_row list \<Rightarrow> catalog_row option" where
  "first_row rows = (case rows of [] \<Rightarrow> None | v # vs \<Rightarrow> Some v)"

definition find_view :: "api \<Rightarrow> db \<Rightarrow> string \<Rightarrow> report + catalog_row" where
  "find_view ap d name =
     rbind (parse_name ap name) (\<lambda>rv.
     rbind (case ap_visible_relid ap rv of
              None \<Rightarrow> Inr None
            | Some relid \<Rightarrow>
                rbind (load_view_where ap (\<lambda>v. ap_view_relid ap (vw_id v) = Some relid) d)
                  (\<lambda>rows. Inr (first_row rows))) (\<lambda>found.
     case found of
       Some view \<Rightarrow> Inr view
     | None \<Rightarrow>
         rbind (creation_name ap rv) (\<lambda>canonical.
         rbind (load_view_where ap (\<lambda>v. vw_name v = canonical) d) (\<lambda>rows.
         ok_or (not_found name) (first_row rows)))))"

section \<open>The refresh set\<close>

text \<open>
  The ids and relations as sets, like the code's \<open>BTreeSet\<close>s. \<open>sharing_views\<close> is the query for the join
  views that read one of the relations, \<open>relations_of\<close> the query for the relations of views; the test
  on the length of the specification's \<open>relations\<close> is on the stored JSON, which a corrupt
  specification is taken to fail.
\<close>

definition join_view_ids :: "db \<Rightarrow> int set" where
  "join_view_ids d =
     set (map vw_id (filter (\<lambda>v. case vw_spec v of None \<Rightarrow> False | Some s \<Rightarrow> is_join s) (db_views d)))"

definition sharing_views :: "db \<Rightarrow> u32 set \<Rightarrow> int set" where
  "sharing_views d relids =
     set (map fst (filter (\<lambda>(i, r). r \<in> relids \<and> i \<in> join_view_ids d) (db_relations d)))"

definition relations_of :: "db \<Rightarrow> int set \<Rightarrow> u32 set" where
  "relations_of d ids = set (map snd (filter (\<lambda>(i, r). i \<in> ids) (db_relations d)))"

text \<open>Every iteration but the last of the loop below adds an id or a relation of a row of \<open>nabla.view_relations\<close>.\<close>

lemma sharing_views_subset: "sharing_views d relids \<subseteq> fst ` set (db_relations d)"
  by (auto simp: sharing_views_def)

lemma relations_of_subset: "relations_of d ids \<subseteq> snd ` set (db_relations d)"
  by (auto simp: relations_of_def)

lemma added_decreases:
  assumes "finite u" and "b \<subseteq> u"
  shows "card (u - (a \<union> b)) \<le> card (u - a)"
    and "card a \<noteq> card (a \<union> b) \<Longrightarrow> card (u - (a \<union> b)) < card (u - a)"
proof -
  have fin: "finite (u - a)" using assms(1) by simp
  show "card (u - (a \<union> b)) \<le> card (u - a)" using fin by (rule card_mono) auto
  assume "card a \<noteq> card (a \<union> b)"
  then obtain x where "x \<in> b" "x \<notin> a" by (metis Un_absorb2 subsetI)
  then have "u - (a \<union> b) \<subset> u - a" using assms(2) by blast
  with fin show "card (u - (a \<union> b)) < card (u - a)" by (rule psubset_card_mono)
qed

text \<open>The loop stops when neither set has become larger.\<close>

function closure_loop :: "db \<Rightarrow> int set \<Rightarrow> u32 set \<Rightarrow> int set" where
  "closure_loop d view_ids relids =
     (let view_ids' = view_ids \<union> sharing_views d relids;
          relids' = relids \<union> relations_of d view_ids'
      in if (card view_ids, card relids) = (card view_ids', card relids') then view_ids'
         else closure_loop d view_ids' relids')"
  by pat_completeness auto
termination
proof (relation "measure (\<lambda>(d, view_ids, relids).
    card (fst ` set (db_relations d) - view_ids) + card (snd ` set (db_relations d) - relids))", goal_cases)
  case 1
  show ?case by simp
next
  case (2 d view_ids relids view_ids' relids')
  note ids = added_decreases [OF _ sharing_views_subset [of d relids], where a = view_ids]
  note rels = added_decreases [OF _ relations_of_subset [of d view_ids'], where a = relids]
  from 2 ids rels show ?case by fastforce
qed

declare closure_loop.simps [simp del]

definition refresh_ids :: "db \<Rightarrow> catalog_row \<Rightarrow> int set" where
  "refresh_ids d view = closure_loop d {cr_id view} (set (map br_oid (sp_relations (cr_spec view))))"

definition refresh_closure :: "api \<Rightarrow> db \<Rightarrow> catalog_row \<Rightarrow> report + catalog_row list" where
  "refresh_closure ap d view = load_view_where ap (\<lambda>v. vw_id v \<in> refresh_ids d view) d"

section \<open>Waiting\<close>

text \<open>\<open>current_state\<close>: frontier, status, stale reason and last error of a canonical name.\<close>

definition current_state :: "db \<Rightarrow> string \<Rightarrow> report + u64 \<times> string \<times> string option \<times> string option" where
  "current_state d canonical =
     (case find (\<lambda>v. vw_name v = canonical) (db_views d) of
        None \<Rightarrow> Inl (not_found canonical)
      | Some v \<Rightarrow> Inr (read_lsn (vw_frontier v), vw_status v, vw_stale_reason v, vw_last_error v))"

text \<open>
  What the n-th pass of a polling loop sees: the latest snapshot, the idle window, the clock (in
  nanoseconds, from the call on) and an interrupt, if one is pending.
\<close>

record poll_view =
  pv_db :: db
  pv_idle :: idle_shmem
  pv_now :: int
  pv_interrupt :: "report option"

definition poll_deadline :: "int \<Rightarrow> int" where
  "poll_deadline timeout_ms = max timeout_ms 0 * 1000000"

text \<open>
  The loop of both waiting functions: \<open>body\<close> raises, returns, or lets the loop go on; then the deadline
  and the interrupts are checked and the session sleeps. A loop that never ends is \<open>None\<close>.
\<close>

partial_function (option) poll_loop ::
    "(poll_view \<Rightarrow> report + bool option) \<Rightarrow> int \<Rightarrow> (nat \<Rightarrow> poll_view) \<Rightarrow> nat \<Rightarrow> (report + bool) option" where
  "poll_loop body deadline world n =
     (case body (world n) of
        Inl e \<Rightarrow> Some (Inl e)
      | Inr (Some b) \<Rightarrow> Some (Inr b)
      | Inr None \<Rightarrow>
          if pv_now (world n) \<ge> deadline then Some (Inr False)
          else (case pv_interrupt (world n) of
                  Some e \<Rightarrow> Some (Inl e)
                | None \<Rightarrow> poll_loop body deadline world (n + 1)))"

definition frontier_body :: "string \<Rightarrow> u64 \<Rightarrow> poll_view \<Rightarrow> report + bool option" where
  "frontier_body canonical target pv =
     rbind (current_state (pv_db pv) canonical) (\<lambda>(frontier, status, stale_reason, last_error).
     if status = ''stale'' then Inl (stale canonical stale_reason)
     else if status = ''failed'' then Inl (failed canonical last_error)
     else if effective_frontier (pv_idle pv) frontier \<ge> target then Inr (Some True)
     else Inr None)"

definition wait_for_frontier :: "string \<Rightarrow> u64 \<Rightarrow> int \<Rightarrow> (nat \<Rightarrow> poll_view) \<Rightarrow> (report + bool) option" where
  "wait_for_frontier canonical target timeout_ms world =
     poll_loop (frontier_body canonical target) (poll_deadline timeout_ms) world 0"

definition ready_body :: "string \<Rightarrow> poll_view \<Rightarrow> report + bool option" where
  "ready_body canonical pv =
     rbind (current_state (pv_db pv) canonical) (\<lambda>(frontier, status, stale_reason, last_error).
     if status = ''live'' then Inr (Some True)
     else if status = ''failed'' then Inl (failed canonical last_error)
     else if status = ''stale'' then Inl (stale canonical stale_reason)
     else Inr None)"

text \<open>The callers resolve the name first, in the caller's snapshot \<open>d\<close>.\<close>

definition await_ready :: "api \<Rightarrow> db \<Rightarrow> string \<Rightarrow> int \<Rightarrow> (nat \<Rightarrow> poll_view) \<Rightarrow> (report + bool) option" where
  "await_ready ap d name timeout_ms world =
     (case find_view ap d name of
        Inl e \<Rightarrow> Some (Inl e)
      | Inr view \<Rightarrow> poll_loop (ready_body (cr_name view)) (poll_deadline timeout_ms) world 0)"

definition wait_for :: "api \<Rightarrow> db \<Rightarrow> string \<Rightarrow> u64 \<Rightarrow> int \<Rightarrow> (nat \<Rightarrow> poll_view) \<Rightarrow> (report + bool) option" where
  "wait_for ap d name target timeout_ms world =
     (case find_view ap d name of
        Inl e \<Rightarrow> Some (Inl e)
      | Inr view \<Rightarrow> wait_for_frontier (cr_name view) target timeout_ms world)"

definition wait_for_text :: "api \<Rightarrow> db \<Rightarrow> string \<Rightarrow> string \<Rightarrow> int \<Rightarrow> (nat \<Rightarrow> poll_view) \<Rightarrow> (report + bool) option" where
  "wait_for_text ap d name l timeout_ms world =
     (case find_view ap d name of
        Inl e \<Rightarrow> Some (Inl e)
      | Inr view \<Rightarrow>
          (case lsn_parse l of
             None \<Rightarrow> Some (Inl (invalid (''nabla: '' @ quoted l @ '' is not a valid LSN (expected X/Y)'') None))
           | Some target \<Rightarrow> wait_for_frontier (cr_name view) target timeout_ms world))"

section \<open>What the catalog says of a view\<close>

definition view_frontier :: "api \<Rightarrow> db \<Rightarrow> db \<Rightarrow> string \<Rightarrow> report + u64" where
  "view_frontier ap d latest name =
     rbind (find_view ap d name) (\<lambda>view. rbind (current_state latest (cr_name view)) (\<lambda>st. Inr (fst st)))"

record status_row =
  sr_name :: string
  sr_status :: string
  sr_epoch :: int
  sr_frontier_lsn :: u64
  sr_frontier :: string
  sr_current_seq :: int
  sr_stale_reason :: "string option"

definition status :: "api \<Rightarrow> db \<Rightarrow> string \<Rightarrow> report + status_row" where
  "status ap d name =
     rbind (find_view ap d name) (\<lambda>view. Inr
       \<lparr>sr_name = cr_name view, sr_status = cr_status view, sr_epoch = cr_epoch view,
        sr_frontier_lsn = cr_frontier view, sr_frontier = lsn_format (cr_frontier view),
        sr_current_seq = cr_last_seq view,
        sr_stale_reason = (if cr_status view = ''failed'' then cr_last_error view else cr_stale_reason view)\<rparr>)"

definition visible_columns :: "api \<Rightarrow> db \<Rightarrow> string \<Rightarrow> report + string list" where
  "visible_columns ap d name = rbind (find_view ap d name) (\<lambda>view. Inr (sp_visible_columns (cr_spec view)))"

text \<open>\<open>to_regclass\<close> of the storage table: the table when it exists.\<close>

definition storage_table :: "api \<Rightarrow> db \<Rightarrow> string \<Rightarrow> report + string option" where
  "storage_table ap d name =
     rbind (find_view ap d name) (\<lambda>view.
     Inr (if db_storage d (cr_id view) = None then None else Some (storage_name (cr_id view))))"

definition current_seq :: "api \<Rightarrow> db \<Rightarrow> string \<Rightarrow> report + int" where
  "current_seq ap d name = rbind (find_view ap d name) (\<lambda>view. Inr (cr_last_seq view))"

section \<open>Reading the delta log\<close>

record change_row =
  ch_seq :: int
  ch_lsn :: string
  ch_xid :: "int option"
  ch_op :: string
  ch_row :: json

text \<open>\<open>row - keys\<close> on \<open>jsonb\<close>; the rows of the log are objects.\<close>

fun minus_keys :: "json \<Rightarrow> string list \<Rightarrow> json" where
  "minus_keys (JObject kvs) keys = JObject (filter (\<lambda>kv. fst kv \<notin> set keys) kvs)"
| "minus_keys v keys = v"

definition change_row :: "api \<Rightarrow> string list \<Rightarrow> delta_entry \<Rightarrow> change_row" where
  "change_row ap hidden e =
     \<lparr>ch_seq = de_seq e, ch_lsn = lsn_format (de_lsn e), ch_xid = Some (uint (de_xid e)), ch_op = [de_op e],
      ch_row = minus_keys (ap_json ap (de_row e)) hidden\<rparr>"

text \<open>
  The query: a page of at most \<open>limit\<close> deltas in order, and when the page is full the deltas after its
  last one that belong to the same source transaction.
\<close>

definition page :: "db \<Rightarrow> int \<Rightarrow> int \<Rightarrow> int \<Rightarrow> delta_entry list" where
  "page d i after limit =
     take (nat limit) (sort_key de_seq (filter (\<lambda>e. de_view e = i \<and> de_seq e > after) (db_deltas d)))"

definition rest_of_transaction :: "db \<Rightarrow> int \<Rightarrow> int \<Rightarrow> delta_entry list \<Rightarrow> delta_entry list" where
  "rest_of_transaction d i limit ps =
     (if ps = [] \<or> \<not> int (length ps) \<ge> limit then []
      else filter (\<lambda>e. de_view e = i \<and> de_seq e > de_seq (last ps) \<and> de_lsn e = de_lsn (last ps) \<and>
             de_xid e = de_xid (last ps)) (db_deltas d))"

definition read_page :: "db \<Rightarrow> int \<Rightarrow> int \<Rightarrow> int \<Rightarrow> delta_entry list" where
  "read_page d i after limit =
     (let ps = page d i after limit in sort_key de_seq (ps @ rest_of_transaction d i limit ps))"

text \<open>\<open>SELECT min(seq)\<close>.\<close>

definition oldest_seq :: "db \<Rightarrow> int \<Rightarrow> int option" where
  "oldest_seq d i =
     (case map de_seq (deltas_of i d) of [] \<Rightarrow> None | s # ss \<Rightarrow> Some (fold min ss s))"

text \<open>The checks in their order: stale, failed, epoch, retention.\<close>

definition changes_check :: "db \<Rightarrow> catalog_row \<Rightarrow> int \<Rightarrow> int \<Rightarrow> report option" where
  "changes_check d view after_seq epoch =
     (if cr_status view = ''stale'' then Some (stale (cr_name view) (cr_stale_reason view))
      else if cr_status view = ''failed'' then Some (failed (cr_name view) (cr_last_error view))
      else if epoch \<noteq> cr_epoch view then Some (epoch_changed (cr_name view) epoch (cr_epoch view))
      else case oldest_seq d (cr_id view) of
        Some oldest \<Rightarrow> if after_seq < oldest - 1 then Some (lagged (cr_name view) oldest) else None
      | None \<Rightarrow>
          if after_seq < cr_last_seq view then Some (lagged (cr_name view) (cr_last_seq view + 1)) else None)"

definition changes :: "api \<Rightarrow> db \<Rightarrow> string \<Rightarrow> int \<Rightarrow> int \<Rightarrow> int \<Rightarrow> bool \<Rightarrow> report + change_row list" where
  "changes ap d name after_seq epoch max_rows include_hidden =
     rbind (find_view ap d name) (\<lambda>view.
     case changes_check d view after_seq epoch of
       Some e \<Rightarrow> Inl e
     | None \<Rightarrow>
         let hidden = (if include_hidden then [] else sp_hidden_columns (cr_spec view)) in
         Inr (map (change_row ap hidden) (read_page d (cr_id view) after_seq (max max_rows 1))))"

end
