(* ===== verification/Api_Write.thy ===== *)
theory Api_Write
  imports Api
begin

text \<open>
  The writing half of \<open>src/src/api.rs\<close>: \<open>create_view\<close>, \<open>refresh\<close> and \<open>drop_view\<close>, with the SQL functions of
  \<open>src/sql/bootstrap.sql\<close> they run. A function that raises is aborted by PostgreSQL with everything it
  wrote, so its result is either a report or the changed server.
\<close>

section \<open>State\<close>

text \<open>
  Beside the database: the tables of the publication (\<open>None\<close>: there is none yet), the relations that
  exist under a canonical name (the VIEWs and storage tables among them), and the sequence of
  \<open>nabla.views.id\<close>.
\<close>

record server =
  sv_db :: db
  sv_publication :: "u32 list option"
  sv_relations :: "string list"
  sv_next_id :: int

definition relation_exists :: "server \<Rightarrow> string \<Rightarrow> bool" where
  "relation_exists sv name \<longleftrightarrow> name \<in> set (sv_relations sv)"

definition published :: "server \<Rightarrow> u32 list" where
  "published sv = (case sv_publication sv of None \<Rightarrow> [] | Some tables \<Rightarrow> tables)"

section \<open>Creating\<close>

definition require_logical_wal :: "api \<Rightarrow> report + unit" where
  "require_logical_wal ap =
     (if ap_wal_level ap \<noteq> ''logical''
      then Inl (prerequisite (''nabla: wal_level must be '' @ sql_quoted ''logical'' @ '' (currently '' @
             sql_quoted (ap_wal_level ap) @ '')'')
             (Some ''Set wal_level = logical in postgresql.conf and restart PostgreSQL.''))
      else Inr ())"

definition ensure_slot :: "api \<Rightarrow> server \<Rightarrow> report + server" where
  "ensure_slot ap sv =
     (if db_slot (sv_db sv) = None
      then rbind (ap_create_slot ap) (\<lambda>l. Inr (sv\<lparr>sv_db := (sv_db sv)\<lparr>db_slot := Some l\<rparr>\<rparr>))
      else Inr sv)"

definition oid_gone :: "u32 \<Rightarrow> string" where
  "oid_gone o1 = ''base table with oid '' @ int_text (uint o1) @ '' no longer exists''"

definition ensure_publication_includes :: "api \<Rightarrow> u32 \<Rightarrow> server \<Rightarrow> report + server" where
  "ensure_publication_includes ap o1 sv =
     (let sv = sv\<lparr>sv_publication := Some (published sv)\<rparr> in
      if o1 \<in> set (published sv) then Inr sv
      else case ap_regclass ap o1 of
        None \<Rightarrow> Inl (failed ''?'' (Some (oid_gone o1)))
      | Some table \<Rightarrow> Inr (sv\<lparr>sv_publication := Some (published sv @ [o1])\<rparr>))"

definition publish_relations :: "api \<Rightarrow> view_spec \<Rightarrow> server \<Rightarrow> report + server" where
  "publish_relations ap spec sv = rfold (ensure_publication_includes ap) (map br_oid (sp_relations spec)) sv"

text \<open>The report of a definition that is not accepted.\<close>

fun def_report :: "api \<Rightarrow> def_error \<Rightarrow> report" where
  "def_report ap (Unsupported reason) = unsupported_definition reason"
| "def_report ap (Invalid message) = invalid message None"
| "def_report ap (Raised message) = ap_raised ap message"

definition accept_definition :: "api \<Rightarrow> string \<Rightarrow> report + view_spec \<times> base_table" where
  "accept_definition ap definition =
     (case validate (ap_catalog ap) definition of Inl e \<Rightarrow> Inl (def_report ap e) | Inr x \<Rightarrow> Inr x)"

definition require_full_row :: "view_spec \<Rightarrow> base_table \<Rightarrow> report + unit" where
  "require_full_row spec base =
     (if \<not> is_join spec \<and> sp_shape spec = Aggregate \<and> bt_replident base \<noteq> ''f''
      then Inl (prerequisite
             (''nabla: the aggregate shape needs the full old row of every change, but '' @ bt_qualified base @
              '' has REPLICA IDENTITY '' @ sql_quoted (bt_replident base))
             (Some (''Run: ALTER TABLE '' @ bt_qualified base @ '' REPLICA IDENTITY FULL;'')))
      else Inr ())"

definition require_free_name :: "string \<Rightarrow> server \<Rightarrow> report + unit" where
  "require_free_name canonical sv =
     (if relation_exists sv canonical
      then Inl (invalid (''nabla: relation '' @ canonical @ '' already exists'') None)
      else if \<exists>v \<in> set (db_views (sv_db sv)). vw_name v = canonical
      then Inl (invalid (''nabla: view '' @ canonical @ '' already exists'') None)
      else Inr ())"

text \<open>The rows of \<open>nabla.views\<close> and \<open>nabla.view_relations\<close>; the columns not named get their defaults.\<close>

definition new_entry :: "int \<Rightarrow> string \<Rightarrow> string \<Rightarrow> view_spec \<Rightarrow> view_entry" where
  "new_entry i canonical definition spec =
     \<lparr>vw_id = i, vw_name = canonical, vw_definition = definition, vw_spec = Some spec, vw_frontier = 0,
      vw_epoch = 1, vw_status = ''initializing'', vw_last_seq = 0, vw_apply_failures = 0, vw_last_error = None,
      vw_stale_reason = None, vw_populated = False\<rparr>"

definition insert_view :: "string \<Rightarrow> string \<Rightarrow> view_spec \<Rightarrow> server \<Rightarrow> server" where
  "insert_view canonical definition spec sv =
     (let i = sv_next_id sv; d = sv_db sv in
      sv\<lparr>sv_next_id := i + 1,
         sv_db := d\<lparr>db_views := db_views d @ [new_entry i canonical definition spec],
                    db_relations := db_relations d @ map (\<lambda>r. (i, br_oid r)) (sp_relations spec)\<rparr>\<rparr>)"

definition create_view :: "api \<Rightarrow> string \<Rightarrow> string \<Rightarrow> server \<Rightarrow> report + string \<times> server" where
  "create_view ap name definition sv =
     rbind (parse_name ap name) (\<lambda>rv.
     rbind (creation_name ap rv) (\<lambda>canonical.
     rbind (accept_definition ap definition) (\<lambda>(spec, base).
     rbind (require_logical_wal ap) (\<lambda>_.
     rbind (require_full_row spec base) (\<lambda>_.
     rbind (require_free_name canonical sv) (\<lambda>_.
     rbind (ensure_slot ap sv) (\<lambda>sv.
     rbind (publish_relations ap spec sv) (\<lambda>sv.
     Inr (canonical, insert_view canonical definition spec sv)))))))))"

section \<open>Refreshing\<close>

definition require_relations :: "api \<Rightarrow> catalog_row \<Rightarrow> report + unit" where
  "require_relations ap view =
     (case find (\<lambda>r. ap_regclass ap (br_oid r) = None) (sp_relations (cr_spec view)) of
        None \<Rightarrow> Inr ()
      | Some r \<Rightarrow> Inl (failed (cr_name view) (Some (''base table '' @ br_qualified r @ '' (oid '' @
          int_text (uint (br_oid r)) @ '') no longer exists''))))"

definition mark_refreshing :: "int list \<Rightarrow> server \<Rightarrow> server" where
  "mark_refreshing ids sv =
     sv\<lparr>sv_db := (sv_db sv)\<lparr>db_views := map (\<lambda>v.
       if vw_id v \<in> set ids \<and> vw_status v \<notin> {''initializing'', ''refreshing''}
       then v\<lparr>vw_status := ''refreshing''\<rparr> else v) (db_views (sv_db sv))\<rparr>\<rparr>"

definition refresh :: "api \<Rightarrow> string \<Rightarrow> server \<Rightarrow> report + server" where
  "refresh ap name sv =
     rbind (find_view ap (sv_db sv) name) (\<lambda>view.
     rbind (require_relations ap view) (\<lambda>_.
     rbind (ensure_slot ap sv) (\<lambda>sv.
     rbind (if is_join (cr_spec view)
            then rbind (refresh_closure ap (sv_db sv) view) (\<lambda>rows. Inr (map cr_id rows))
            else Inr [cr_id view]) (\<lambda>ids.
     rbind (publish_relations ap (cr_spec view) sv) (\<lambda>sv.
     Inr (mark_refreshing ids sv))))))"

section \<open>Dropping\<close>

text \<open>
  \<open>nabla.forget_view\<close>: the catalog row goes first (its deltas and relations cascade), then a join view
  that was built releases its shadows, and a shadow nobody references any more is dropped with its row;
  then the VIEW and the storage table go, if they are still there.
\<close>

definition delete_view_rows :: "int \<Rightarrow> db \<Rightarrow> db" where
  "delete_view_rows i d =
     d\<lparr>db_views := filter (\<lambda>v. vw_id v \<noteq> i) (db_views d), db_deltas := filter (\<lambda>e. de_view e \<noteq> i) (db_deltas d),
       db_relations := filter (\<lambda>(j, r). j \<noteq> i) (db_relations d)\<rparr>"

definition drop_shadow :: "u32 \<Rightarrow> db \<Rightarrow> db" where
  "drop_shadow o1 d =
     d\<lparr>db_shadows := filter (\<lambda>s. se_relid s \<noteq> o1) (db_shadows d), db_shadow_columns := (db_shadow_columns d)(o1 := None),
       db_shadow_rows := (db_shadow_rows d)(o1 := [])\<rparr>"

definition release_shadow :: "u32 \<Rightarrow> db \<Rightarrow> db" where
  "release_shadow o1 d =
     (let d = update_shadow o1 (\<lambda>s. s\<lparr>se_refcount := se_refcount s - 1\<rparr>) d in
      if \<exists>s \<in> set (db_shadows d). se_relid s = o1 \<and> se_refcount s \<le> 0 then drop_shadow o1 d else d)"

definition drop_objects :: "view_entry \<Rightarrow> server \<Rightarrow> server" where
  "drop_objects v sv =
     sv\<lparr>sv_relations := filter (\<lambda>n. n \<noteq> vw_name v \<and> n \<noteq> storage_name (vw_id v)) (sv_relations sv),
        sv_db := (sv_db sv)\<lparr>db_storage := (db_storage (sv_db sv))(vw_id v := None)\<rparr>\<rparr>"

definition entry_is_join :: "view_entry \<Rightarrow> bool" where
  "entry_is_join v = (case vw_spec v of None \<Rightarrow> False | Some s \<Rightarrow> is_join s)"

definition forget_view :: "int \<Rightarrow> server \<Rightarrow> server" where
  "forget_view i sv =
     (case find_id i (sv_db sv) of
        None \<Rightarrow> sv
      | Some v \<Rightarrow>
          (let relids = map snd (filter (\<lambda>(j, r). j = i) (db_relations (sv_db sv)));
               d = delete_view_rows i (sv_db sv);
               d = (if entry_is_join v \<and> vw_populated v then fold release_shadow relids d else d)
           in drop_objects v (sv\<lparr>sv_db := d\<rparr>)))"

text \<open>\<open>nabla.prune_publication\<close>: only tables some view or some shadow needs stay.\<close>

definition needed :: "db \<Rightarrow> u32 \<Rightarrow> bool" where
  "needed d o1 \<longleftrightarrow> o1 \<in> snd ` set (db_relations d) \<or> o1 \<in> se_relid ` set (db_shadows d)"

definition prune_publication :: "server \<Rightarrow> server" where
  "prune_publication sv =
     sv\<lparr>sv_publication := map_option (filter (needed (sv_db sv))) (sv_publication sv)\<rparr>"

text \<open>
  The event trigger \<open>nabla.on_sql_drop\<close> runs after a DROP with the tables and views it removed: a VIEW or
  a storage table forgets its view, a shadow table its row, a base table every view over it and its
  shadow. A storage number that is no \<open>integer\<close> is an error of the cast. The DROPs of \<open>forget_view\<close> fire
  the trigger again; by then the rows it looks for are gone.
\<close>

definition storage_number :: "api \<Rightarrow> dropped \<Rightarrow> report + int option" where
  "storage_number ap obj =
     (if dr_schema obj = ''nabla_store'' \<and> take 1 (dr_name obj) = ''v'' \<and> tl (dr_name obj) \<noteq> [] \<and>
         list_all is_digit (tl (dr_name obj))
      then case parse_int 32 (tl (dr_name obj)) of None \<Rightarrow> Inl (ap_raised ap (dr_name obj)) | Some i \<Rightarrow> Inr (Some i)
      else Inr None)"

definition forget_shadows :: "(shadow_entry \<Rightarrow> bool) \<Rightarrow> server \<Rightarrow> server" where
  "forget_shadows gone sv =
     sv\<lparr>sv_db := (sv_db sv)\<lparr>db_shadows := filter (\<lambda>s. \<not> gone s) (db_shadows (sv_db sv))\<rparr>\<rparr>"

definition forget_dropped :: "api \<Rightarrow> dropped \<Rightarrow> server \<Rightarrow> report + server" where
  "forget_dropped ap obj sv =
     rbind (storage_number ap obj) (\<lambda>number.
     let views = map vw_id (filter (\<lambda>v. ap_view_relid ap (vw_id v) = Some (dr_oid obj)) (db_views (sv_db sv)));
         sv = fold forget_view views sv;
         sv = (case number of None \<Rightarrow> sv | Some i \<Rightarrow> forget_view i sv);
         sv = forget_shadows (\<lambda>s. se_table s = dr_schema obj @ ''.'' @ dr_name obj) sv;
         over = remdups (map fst (filter (\<lambda>(i, r). r = dr_oid obj) (db_relations (sv_db sv))));
         sv = fold forget_view over sv
     in Inr (forget_shadows (\<lambda>s. se_relid s = dr_oid obj) sv))"

definition on_sql_drop :: "api \<Rightarrow> dropped list \<Rightarrow> server \<Rightarrow> report + server" where
  "on_sql_drop ap objs sv =
     (if objs = [] then Inr sv else rbind (rfold (forget_dropped ap) objs sv) (\<lambda>sv. Inr (prune_publication sv)))"

text \<open>
  \<open>DROP VIEW\<close> and \<open>DROP TABLE\<close> may fail (something else depends on the relation); otherwise the relation
  is gone when the trigger runs.
\<close>

definition drop_relation :: "api \<Rightarrow> string \<Rightarrow> server \<Rightarrow> report + server" where
  "drop_relation ap name sv =
     rbind (ap_drop ap name) (\<lambda>objs.
     on_sql_drop ap objs
       (sv\<lparr>sv_relations := filter (\<lambda>n. n \<noteq> name) (sv_relations sv),
           sv_db := (sv_db sv)\<lparr>db_storage :=
             (\<lambda>i. if storage_name i = name then None else db_storage (sv_db sv) i)\<rparr>\<rparr>))"

definition drop_if_exists :: "api \<Rightarrow> string \<Rightarrow> server \<Rightarrow> report + server" where
  "drop_if_exists ap name sv = (if relation_exists sv name then drop_relation ap name sv else Inr sv)"

definition drop_view :: "api \<Rightarrow> string \<Rightarrow> server \<Rightarrow> report + server" where
  "drop_view ap name sv =
     rbind (find_view ap (sv_db sv) name) (\<lambda>view.
     rbind (drop_if_exists ap (cr_name view) sv) (\<lambda>sv.
     rbind (drop_if_exists ap (storage_name (cr_id view)) sv) (\<lambda>sv.
     Inr (prune_publication (forget_view (cr_id view) sv)))))"

section \<open>The guard of the storage tables\<close>

text \<open>
  The trigger on every storage table: the setting \<open>nabla.internal_write\<close> (missing counts as off), the
  kind of the statement, and the old and new row.
\<close>

definition guard_view :: "string option \<Rightarrow> string \<Rightarrow> 'r \<Rightarrow> 'r \<Rightarrow> report + 'r" where
  "guard_view internal_write tg_op old new =
     (if (case internal_write of None \<Rightarrow> ''off'' | Some s \<Rightarrow> s) \<noteq> ''on''
      then Inl \<lparr>rp_sqlstate = ''NB005'', rp_message = ''nabla: cannot modify a nabla view directly'',
        rp_detail = None,
        rp_hint = Some ''The table is maintained by the nabla worker. Change the base table instead.''\<rparr>
      else if tg_op = ''DELETE'' then Inr old else Inr new)"

end
