(* ===== verification/Api_Facts.thy ===== *)
theory Api_Facts
  imports Api Round_Properties Example_Round Example_Catalog
begin

text \<open>
  What the reading functions guarantee: the refresh set is the least one closed under shared shadows,
  waiting ends and its answer is true, and the pages of the delta log are whole transactions without gaps.
\<close>

section \<open>The refresh set\<close>

text \<open>Join views connected to a view through relations they share.\<close>

inductive connected :: "db \<Rightarrow> int \<Rightarrow> u32 set \<Rightarrow> int \<Rightarrow> bool" for d i0 seed where
  self: "connected d i0 seed i0"
| seed: "r \<in> seed \<Longrightarrow> (j, r) \<in> set (db_relations d) \<Longrightarrow> j \<in> join_view_ids d \<Longrightarrow> connected d i0 seed j"
| share: "connected d i0 seed i \<Longrightarrow> (i, r) \<in> set (db_relations d) \<Longrightarrow> (j, r) \<in> set (db_relations d) \<Longrightarrow>
    j \<in> join_view_ids d \<Longrightarrow> connected d i0 seed j"

text \<open>The invariant of the loop, and the exit: neither set grew.\<close>

lemma closure_loop_sound:
  assumes "\<forall>i \<in> ids. connected d i0 seed i"
    and "\<forall>r \<in> rels. r \<in> seed \<or> (\<exists>i. connected d i0 seed i \<and> (i, r) \<in> set (db_relations d))"
  shows "\<forall>i \<in> closure_loop d ids rels. connected d i0 seed i"
  using assms
proof (induction d ids rels rule: closure_loop.induct)
  case (1 d ids rels)
  let ?ids = "ids \<union> sharing_views d rels" and ?rels = "rels \<union> relations_of d (ids \<union> sharing_views d rels)"
  have i: "\<forall>i \<in> ?ids. connected d i0 seed i"
  proof
    fix i assume "i \<in> ?ids"
    then consider "i \<in> ids" | r where "(i, r) \<in> set (db_relations d)" "r \<in> rels" "i \<in> join_view_ids d"
      by (auto simp: sharing_views_def)
    then show "connected d i0 seed i"
    proof cases
      case 1
      with "1.prems"(1) show ?thesis by blast
    next
      case (2 r)
      with "1.prems"(2) show ?thesis by (blast intro: connected.seed connected.share)
    qed
  qed
  then have "\<forall>r \<in> ?rels. r \<in> seed \<or> (\<exists>i. connected d i0 seed i \<and> (i, r) \<in> set (db_relations d))"
    using "1.prems"(2) by (auto simp: relations_of_def)
  with i "1.IH" [OF refl refl] show ?case
    by (subst closure_loop.simps) (simp add: Let_def)
qed

lemma card_eq_Un: "finite a \<Longrightarrow> finite b \<Longrightarrow> card a = card (a \<union> b) \<Longrightarrow> a \<union> b = a"
  by (metis card_subset_eq finite_Un sup_ge1)

definition closed_under_sharing :: "db \<Rightarrow> int set \<Rightarrow> bool" where
  "closed_under_sharing d ids \<longleftrightarrow>
     (\<forall>i \<in> ids. \<forall>r j. (i, r) \<in> set (db_relations d) \<longrightarrow> (j, r) \<in> set (db_relations d) \<longrightarrow>
        j \<in> join_view_ids d \<longrightarrow> j \<in> ids)"

lemma closure_loop_closed:
  assumes "finite ids" and "finite rels"
  shows "ids \<subseteq> closure_loop d ids rels \<and> sharing_views d rels \<subseteq> closure_loop d ids rels \<and>
    closed_under_sharing d (closure_loop d ids rels)"
  using assms
proof (induction d ids rels rule: closure_loop.induct)
  case (1 d ids rels)
  let ?ids = "ids \<union> sharing_views d rels" and ?rels = "rels \<union> relations_of d (ids \<union> sharing_views d rels)"
  have fin: "finite (sharing_views d rels)" "finite (relations_of d ?ids)"
    by (simp_all add: sharing_views_def relations_of_def)
  show ?case
  proof (cases "(card ids, card rels) = (card ?ids, card ?rels)")
    case True
    then have eq: "?ids = ids" "?rels = rels" using card_eq_Un 1(2,3) fin by blast+
    have res: "closure_loop d ids rels = ids" using True eq by (subst closure_loop.simps) (simp add: Let_def)
    have "relations_of d ids \<subseteq> rels" "sharing_views d rels \<subseteq> ids" using eq by auto
    then have "closed_under_sharing d ids"
      by (fastforce simp: closed_under_sharing_def relations_of_def sharing_views_def)
    with res eq show ?thesis by auto
  next
    case False
    have res: "closure_loop d ids rels = closure_loop d ?ids ?rels"
      by (subst closure_loop.simps) (unfold Let_def if_not_P [OF False], rule refl)
    from "1.IH" [OF refl refl False] 1(2,3) fin show ?thesis unfolding res by auto
  qed
qed

lemma refresh_ids_eq:
  "refresh_ids d view =
     {j. connected d (cr_id view) (br_oid ` set (sp_relations (cr_spec view))) j}"
proof -
  let ?seed = "br_oid ` set (sp_relations (cr_spec view))" and ?ids = "refresh_ids d view"
  have "\<forall>i \<in> ?ids. connected d (cr_id view) ?seed i"
    unfolding refresh_ids_def by (rule closure_loop_sound) (auto intro: connected.self)
  moreover have c: "cr_id view \<in> ?ids" "sharing_views d ?seed \<subseteq> ?ids" "closed_under_sharing d ?ids"
    using closure_loop_closed [of "{cr_id view}" "set (map br_oid (sp_relations (cr_spec view)))" d]
    by (simp_all add: refresh_ids_def)
  have "j \<in> ?ids" if "connected d (cr_id view) ?seed j" for j
    using that
  proof induction
    case self
    show ?case by (rule c(1))
  next
    case (seed r j)
    then have "j \<in> sharing_views d ?seed" by (force simp: sharing_views_def)
    with c(2) show ?case by blast
  next
    case (share i r j)
    with c(3) show ?case by (auto simp: closed_under_sharing_def)
  qed
  ultimately show ?thesis by blast
qed

section \<open>Polling\<close>

text \<open>What one pass decides: raise, answer, give up, or go on (\<open>None\<close>).\<close>

definition poll_end :: "(poll_view \<Rightarrow> report + bool option) \<Rightarrow> int \<Rightarrow> poll_view \<Rightarrow> (report + bool) option" where
  "poll_end body deadline pv =
     (case body pv of
        Inl e \<Rightarrow> Some (Inl e)
      | Inr (Some b) \<Rightarrow> Some (Inr b)
      | Inr None \<Rightarrow> if pv_now pv \<ge> deadline then Some (Inr False) else map_option Inl (pv_interrupt pv))"

lemma poll_loop_end: "poll_end body deadline (world n) = Some r \<Longrightarrow> poll_loop body deadline world n = Some r"
  by (subst poll_loop.simps) (auto simp: poll_end_def split: sum.splits option.splits if_splits)

lemma poll_loop_go: "poll_end body deadline (world n) = None \<Longrightarrow>
    poll_loop body deadline world n = poll_loop body deadline world (n + 1)"
  by (subst poll_loop.simps) (auto simp: poll_end_def split: sum.splits option.splits if_splits)

lemma poll_end_late: "pv_now pv \<ge> deadline \<Longrightarrow> poll_end body deadline pv \<noteq> None"
  by (auto simp: poll_end_def split: sum.splits option.splits)

lemma poll_loop_ends:
  assumes "pv_now (world k) \<ge> deadline" and "n \<le> k"
  shows "\<exists>m r. n \<le> m \<and> m \<le> k \<and> poll_end body deadline (world m) = Some r \<and>
    (\<forall>j. n \<le> j \<and> j < m \<longrightarrow> poll_end body deadline (world j) = None) \<and>
    poll_loop body deadline world n = Some r"
  using assms(2)
proof (induction "k - n" arbitrary: n)
  case 0
  then have "n = k" by simp
  moreover obtain r where "poll_end body deadline (world k) = Some r"
    using poll_end_late [OF assms(1)] by auto
  ultimately show ?case using poll_loop_end by (intro exI [of _ k]) auto
next
  case (Suc i)
  then have le: "n + 1 \<le> k" by linarith
  show ?case
  proof (cases "poll_end body deadline (world n)")
    case None
    then obtain m r where m: "n + 1 \<le> m" "m \<le> k" "poll_end body deadline (world m) = Some r"
      "\<forall>j. n + 1 \<le> j \<and> j < m \<longrightarrow> poll_end body deadline (world j) = None"
      "poll_loop body deadline world (n + 1) = Some r"
      using Suc.hyps(1) [OF _ le] Suc.hyps(2) by (metis Suc_eq_plus1 diff_Suc_1 diff_diff_left plus_1_eq_Suc)
    have "poll_end body deadline (world j) = None" if "n \<le> j" "j < m" for j
      using None m(4) that by (cases "j = n") auto
    with m None show ?thesis by (intro exI [of _ m]) (auto simp: poll_loop_go)
  next
    case (Some r)
    then show ?thesis using Suc.hyps(2) by (intro exI [of _ n] exI [of _ r]) (auto simp: poll_loop_end)
  qed
qed

text \<open>The session sleeps ten milliseconds between two passes, so the clock reaches every deadline.\<close>

definition clock_runs :: "(nat \<Rightarrow> poll_view) \<Rightarrow> bool" where
  "clock_runs world \<longleftrightarrow>
     0 \<le> pv_now (world 0) \<and> (\<forall>n. pv_now (world n) + 10000000 \<le> pv_now (world (n + 1)))"

lemma clock_ge: "clock_runs world \<Longrightarrow> int n * 10000000 \<le> pv_now (world n)"
proof (induction n)
  case 0
  then show ?case by (simp add: clock_runs_def)
next
  case (Suc n)
  then have "pv_now (world n) + 10000000 \<le> pv_now (world (n + 1))" by (simp only: clock_runs_def)
  with Suc show ?case by simp
qed

lemma deadline_reached:
  assumes "clock_runs world"
  shows "pv_now (world ((nat timeout_ms + 9) div 10)) \<ge> poll_deadline timeout_ms"
proof -
  have "max timeout_ms 0 \<le> int ((nat timeout_ms + 9) div 10) * 10" by (simp add: zdiv_int) linarith
  with clock_ge [OF assms, of "(nat timeout_ms + 9) div 10"] show ?thesis by (simp add: poll_deadline_def)
qed

text \<open>Both waiting functions: they end, after at most one pass per ten milliseconds of the timeout.\<close>

lemma wait_ends:
  assumes "clock_runs world"
  obtains n r where "n \<le> (nat timeout_ms + 9) div 10"
    and "poll_end body (poll_deadline timeout_ms) (world n) = Some r"
    and "\<And>m. m < n \<Longrightarrow> poll_end body (poll_deadline timeout_ms) (world m) = None"
    and "poll_loop body (poll_deadline timeout_ms) world 0 = Some r"
  using poll_loop_ends [where n = 0 and body = body and world = world, OF deadline_reached [OF assms] le0, of timeout_ms]
  by auto

text \<open>What a pass of \<open>wait_for_frontier\<close> saw.\<close>

lemma frontier_poll_true:
  assumes "poll_end (frontier_body canonical target) deadline pv = Some (Inr True)"
  shows "\<exists>v \<in> set (db_views (pv_db pv)). vw_name v = canonical \<and> vw_status v \<notin> {''stale'', ''failed''} \<and>
    effective_frontier (pv_idle pv) (vw_frontier v) \<ge> target"
  using assms
  by (auto simp: poll_end_def frontier_body_def current_state_def find_Some_iff rbind_Inr_iff
      split: sum.splits option.splits if_splits)

lemma frontier_poll_short:
  assumes "poll_end (frontier_body canonical target) deadline pv \<in> {None, Some (Inr False)}"
  shows "\<exists>v \<in> set (db_views (pv_db pv)). vw_name v = canonical \<and>
    effective_frontier (pv_idle pv) (vw_frontier v) < target"
  using assms
  by (auto simp: poll_end_def frontier_body_def current_state_def find_Some_iff rbind_Inr_iff not_le
      split: sum.splits option.splits if_splits)

lemma poll_false_late: "poll_end (frontier_body canonical target) deadline pv = Some (Inr False) \<Longrightarrow> pv_now pv \<ge> deadline"
  by (auto simp: poll_end_def frontier_body_def rbind_Inr_iff split: sum.splits option.splits if_splits)

section \<open>Pages of the log\<close>

definition same_tx :: "delta_entry \<Rightarrow> delta_entry \<Rightarrow> bool" where
  "same_tx e f \<longleftrightarrow> de_lsn e = de_lsn f \<and> de_xid e = de_xid f"

text \<open>PostgreSQL: the end of a commit record belongs to one transaction.\<close>

definition one_tx_per_lsn :: "delta_entry list \<Rightarrow> bool" where
  "one_tx_per_lsn es \<longleftrightarrow> (\<forall>e \<in> set es. \<forall>f \<in> set es. de_lsn e = de_lsn f \<longrightarrow> de_xid e = de_xid f)"

definition after_seq :: "int \<Rightarrow> delta_entry list \<Rightarrow> delta_entry list" where
  "after_seq k es = filter (\<lambda>e. de_seq e > k) es"

text \<open>\<open>n\<close> cuts a list of deltas at the end of a transaction.\<close>

definition tx_boundary :: "delta_entry list \<Rightarrow> nat \<Rightarrow> bool" where
  "tx_boundary es n \<longleftrightarrow> n = length es \<or> (0 < n \<and> n < length es \<and> \<not> same_tx (es ! (n - 1)) (es ! n))"

lemma same_tx_iff:
  assumes "one_tx_per_lsn es" and "f \<in> set es" and "e \<in> set es"
  shows "same_tx f e \<longleftrightarrow> de_lsn e = de_lsn f"
proof -
  have "de_lsn f = de_lsn e \<longrightarrow> de_xid f = de_xid e" using assms unfolding one_tx_per_lsn_def by blast
  then show ?thesis unfolding same_tx_def by (cases "de_lsn f = de_lsn e") simp_all
qed

lemma log_seqs_sorted: "map de_seq es = [a .. b] \<Longrightarrow> sort_key de_seq es = es"
  by (simp add: sort_key_id_if_sorted)

lemma filter_seqs: "map de_seq (filter (\<lambda>e. de_seq e > k) es) = filter (\<lambda>x. x > k) (map de_seq es)"
  by (simp add: filter_map comp_def)

lemma after_seqs:
  assumes "log_ok v es"
  shows "map de_seq (after_seq k es) = [max (vw_last_seq v + 1 - int (length es)) (k + 1) .. vw_last_seq v]"
    and "sorted (map de_lsn (after_seq k es))"
proof -
  show "map de_seq (after_seq k es) = [max (vw_last_seq v + 1 - int (length es)) (k + 1) .. vw_last_seq v]"
    unfolding after_seq_def filter_seqs using assms by (simp add: log_ok_def filter_upto)
  show "sorted (map de_lsn (after_seq k es))"
    using assms by (simp add: log_ok_def sorted_filter after_seq_def)
qed

lemma deltas_of_after: "filter (\<lambda>e. de_view e = i \<and> de_seq e > k) (db_deltas d) = after_seq k (deltas_of i d)"
  by (simp add: after_seq_def deltas_of_def conj_commute)

lemma nth_seq: "map de_seq es = [a .. b] \<Longrightarrow> n < length es \<Longrightarrow> de_seq (es ! n) = a + int n"
proof -
  assume u: "map de_seq es = [a .. b]" and n: "n < length es"
  then have "length es = nat (b - a + 1)" by (metis length_map length_upto)
  with n have "a + int n \<le> b" by simp
  then show ?thesis using u n by (metis nth_map nth_upto)
qed

lemma sorted_takeWhile_eq:
  assumes "sorted (map f es)" and "\<forall>e \<in> set es. l \<le> f e"
  shows "filter (\<lambda>e. f e = l) es = takeWhile (\<lambda>e. f e = l) es"
  using assms
proof (induction es)
  case Nil
  show ?case by simp
next
  case (Cons e es)
  show ?case
  proof (cases "f e = l")
    case True
    with Cons show ?thesis by simp
  next
    case False
    with Cons.prems have "\<forall>x \<in> set es. f x \<noteq> l" by force
    with False show ?thesis by (simp add: filter_empty_conv)
  qed
qed

text \<open>The deltas of a source transaction stand together in the log.\<close>

lemma rest_is_takeWhile:
  assumes "sorted (map de_lsn es)" and "one_tx_per_lsn es" and "0 < n" and "n \<le> length es"
  shows "filter (\<lambda>e. same_tx (es ! (n - 1)) e) (drop n es) = takeWhile (\<lambda>e. same_tx (es ! (n - 1)) e) (drop n es)"
proof -
  let ?x = "es ! (n - 1)"
  have mem: "?x \<in> set es" using assms(3,4) by (simp add: Suc_le_lessD)
  have same: "same_tx ?x e \<longleftrightarrow> de_lsn e = de_lsn ?x" if "e \<in> set (drop n es)" for e
  proof -
    have "e \<in> set es" using that by (rule in_set_dropD)
    then show ?thesis by (rule same_tx_iff [OF assms(2) mem])
  qed
  have ge: "de_lsn ?x \<le> de_lsn e" if e: "e \<in> set (drop n es)" for e
  proof -
    obtain j where j: "j < length (drop n es)" "e = drop n es ! j" using e by (auto simp: in_set_conv_nth)
    then have "n - 1 \<le> n + j" "n + j < length es" "e = es ! (n + j)" by auto
    with sorted_nth_mono [OF assms(1), of "n - 1" "n + j"] show ?thesis by simp
  qed
  have "filter (same_tx ?x) (drop n es) = filter (\<lambda>e. de_lsn e = de_lsn ?x) (drop n es)"
    by (rule filter_cong [OF refl]) (rule same)
  also have "\<dots> = takeWhile (\<lambda>e. de_lsn e = de_lsn ?x) (drop n es)"
    using assms(1) ge by (intro sorted_takeWhile_eq) (simp_all flip: drop_map)
  also have "\<dots> = takeWhile (same_tx ?x) (drop n es)"
    by (rule takeWhile_cong [OF refl]) (rule same [symmetric])
  finally show ?thesis .
qed

lemma filter_after_nth:
  assumes "map de_seq es = [a .. b]" and "n < length es"
  shows "filter (\<lambda>e. de_seq e > de_seq (es ! n)) es = drop (n + 1) es"
proof -
  have seq: "de_seq (es ! j) = a + int j" if "j < length es" for j using nth_seq [OF assms(1) that] .
  have "filter (\<lambda>e. de_seq e > de_seq (es ! n)) (take (n + 1) es) = []"
    using seq assms(2) by (auto simp: filter_empty_conv in_set_conv_nth)
  moreover have "filter (\<lambda>e. de_seq e > de_seq (es ! n)) (drop (n + 1) es) = drop (n + 1) es"
    using seq assms(2) by (auto simp: filter_id_conv in_set_conv_nth)
  ultimately show ?thesis by (metis append_self_conv2 append_take_drop_id filter_append)
qed

text \<open>A page is a prefix of the deltas after the cursor and ends with a transaction.\<close>

lemma read_page_prefix:
  fixes k :: int
  assumes "log_ok v (deltas_of i d)" and "one_tx_per_lsn (deltas_of i d)" and "1 \<le> limit"
  defines "lg \<equiv> after_seq k (deltas_of i d)"
  shows "\<exists>n. read_page d i k limit = take n lg \<and> tx_boundary lg n \<and> (nat limit \<le> n \<or> n = length lg)"
proof -
  have seqs: "map de_seq lg = [max (vw_last_seq v + 1 - int (length (deltas_of i d))) (k + 1) .. vw_last_seq v]"
    "sorted (map de_lsn lg)"
    unfolding lg_def by (rule after_seqs [OF assms(1)])+
  have sorted: "sort_key de_seq (take n lg) = take n lg" for n
  proof -
    have "sorted (map de_seq lg)" unfolding seqs(1) by simp
    then show ?thesis by (simp add: sort_key_id_if_sorted sorted_wrt_take flip: take_map)
  qed
  have pg: "page d i k limit = take (nat limit) lg"
    using sorted [of "length lg"] by (simp add: page_def deltas_of_after lg_def)
  show ?thesis
  proof (cases "nat limit \<le> length lg")
    case False
    then have "\<not> limit \<le> int (length (take (nat limit) lg))" by simp
    then have "rest_of_transaction d i limit (page d i k limit) = []"
      unfolding pg rest_of_transaction_def by (rule if_P [OF disjI2])
    then have "read_page d i k limit = take (length lg) lg"
      using False sorted [of "length lg"] by (simp add: read_page_def pg)
    then show ?thesis by (intro exI [of _ "length lg"]) (simp add: tx_boundary_def)
  next
    case True
    let ?n = "nat limit"
    let ?x = "lg ! (?n - 1)"
    have n: "0 < ?n" using assms(3) by simp
    have len: "length (take ?n lg) = ?n" using True by simp
    have ne: "take ?n lg \<noteq> []" using n len by auto
    have lst: "last (take ?n lg) = ?x"
      unfolding last_conv_nth [OF ne] len using n by simp
    have gt: "de_seq ?x > k"
    proof -
      have "?x \<in> set lg" using n True by (simp add: Suc_le_lessD)
      then show ?thesis by (simp add: lg_def after_seq_def)
    qed
    have "filter (\<lambda>e. de_view e = i \<and> de_seq e > de_seq ?x \<and> de_lsn e = de_lsn ?x \<and> de_xid e = de_xid ?x) (db_deltas d) =
        filter (same_tx ?x) (filter (\<lambda>e. de_seq e > de_seq ?x) lg)"
      using gt unfolding lg_def after_seq_def deltas_of_def filter_filter
      by (intro filter_cong [OF refl]) (auto simp: same_tx_def)
    also have "filter (\<lambda>e. de_seq e > de_seq ?x) lg = drop ?n lg"
      using filter_after_nth [OF seqs(1), of "?n - 1"] n True by simp
    also have "filter (same_tx ?x) (drop ?n lg) = takeWhile (same_tx ?x) (drop ?n lg)"
      using rest_is_takeWhile [OF seqs(2) _ n True] assms(2)
      by (simp add: one_tx_per_lsn_def lg_def after_seq_def)
    finally have rest: "rest_of_transaction d i limit (take ?n lg) = takeWhile (same_tx ?x) (drop ?n lg)"
      using ne len assms(3) by (simp add: rest_of_transaction_def lst)
    let ?m = "?n + length (takeWhile (same_tx ?x) (drop ?n lg))"
    have all: "take ?n lg @ takeWhile (same_tx ?x) (drop ?n lg) = take ?m lg"
      by (simp add: take_add takeWhile_eq_take flip: takeWhile_eq_take)
    have "read_page d i k limit = take ?m lg"
      using sorted [of ?m] unfolding read_page_def Let_def pg rest all .
    moreover have "tx_boundary lg ?m"
    proof (cases "?m < length lg")
      case False
      then have "?m = length lg"
        using length_takeWhile_le [of "same_tx ?x" "drop ?n lg"] True unfolding length_drop by linarith
      then show ?thesis by (simp add: tx_boundary_def)
    next
      case less: True
      let ?t = "takeWhile (same_tx ?x) (drop ?n lg)"
      have "\<not> same_tx ?x (drop ?n lg ! length ?t)"
        using less by (intro nth_length_takeWhile) simp
      then have no: "\<not> same_tx ?x (lg ! ?m)" using True by simp
      have "same_tx ?x (lg ! (?m - 1))"
      proof (cases "?t")
        case Nil
        then show ?thesis by (simp add: same_tx_def)
      next
        case (Cons y ys)
        then have "last ?t \<in> set ?t" by simp
        then have "same_tx ?x (last ?t)" by (rule set_takeWhileD [THEN conjunct2])
        moreover have "last ?t = lg ! (?m - 1)"
        proof -
          have ne: "?t \<noteq> []" using Cons by simp
          then have l: "length ?t - 1 < length ?t" by simp
          have "last ?t = drop ?n lg ! (length ?t - 1)"
            unfolding last_conv_nth [OF ne] by (rule takeWhile_nth [OF l])
          also have "\<dots> = lg ! (?n + (length ?t - 1))" using True by simp
          also have "?n + (length ?t - 1) = ?m - 1" using l by linarith
          finally show ?thesis .
        qed
        ultimately show ?thesis by simp
      qed
      with no less n show ?thesis by (auto simp: tx_boundary_def same_tx_def)
    qed
    ultimately show ?thesis by (intro exI [of _ ?m]) simp
  qed
qed

end
