(* ===== verification/Api_Theorems.thy ===== *)
theory Api_Theorems
  imports Api_Facts
begin

text \<open>
  The properties of the reading functions, with a small log as the concrete case.
\<close>

section \<open>The checks of \<open>changes\<close>\<close>

lemma rmap_first: "rmap f xs = Inr ys \<Longrightarrow> first_row ys = Some y \<Longrightarrow> \<exists>x \<in> set xs. f x = Inr y"
  by (cases xs; cases ys) (auto simp: first_row_def rbind_Inr_iff)

lemma load_view_where_first:
  assumes "load_view_where ap p d = Inr rows" and "first_row rows = Some view"
  shows "\<exists>v \<in> set (db_views d). load_row ap v = Inr view"
  using rmap_first [OF assms(1) [unfolded load_view_where_def] assms(2)] by auto

lemma find_view_row:
  assumes "find_view ap d name = Inr view"
  shows "\<exists>v \<in> set (db_views d). load_row ap v = Inr view"
  using assms
  by (auto simp: find_view_def rbind_Inr_iff ok_or_def intro: load_view_where_first
      split: option.splits)

lemma load_rowD:
  assumes "load_row ap v = Inr view"
  shows "cr_id view = vw_id v" "cr_name view = vw_name v" "vw_spec v = Some (cr_spec view)"
    "cr_frontier view = vw_frontier v" "cr_epoch view = vw_epoch v" "cr_status view = vw_status v"
    "cr_last_seq view = vw_last_seq v" "cr_stale_reason view = vw_stale_reason v"
    "cr_last_error view = vw_last_error v"
  using assms by (auto simp: load_row_def split: option.splits)

lemma fold_min_upto: "fold min [a + 1 .. b] a = (a :: int)"
proof -
  have "fold min xs a = a" if "\<forall>x \<in> set xs. a \<le> x" for xs
    using that by (induction xs) (auto simp: min_def)
  then show ?thesis by simp
qed

lemma oldest_seq_log:
  assumes "log_ok v (deltas_of i d)"
  shows "oldest_seq d i = (if deltas_of i d = [] then None
    else Some (vw_last_seq v + 1 - int (length (deltas_of i d))))"
proof (cases "deltas_of i d")
  case Nil
  then show ?thesis by (simp add: oldest_seq_def)
next
  case (Cons e es)
  let ?a = "vw_last_seq v + 1 - int (length (deltas_of i d))"
  have "?a \<le> vw_last_seq v" using Cons by simp
  then have "map de_seq (deltas_of i d) = ?a # [?a + 1 .. vw_last_seq v]"
    using assms by (simp add: log_ok_def upto_rec1)
  then show ?thesis using Cons fold_min_upto [of ?a "vw_last_seq v"] by (simp add: oldest_seq_def)
qed

text \<open>A delta after the cursor that the log no longer holds.\<close>

definition missing_delta :: "int \<Rightarrow> int \<Rightarrow> delta_entry list \<Rightarrow> bool" where
  "missing_delta k last_seq es \<longleftrightarrow> (\<exists>s. k < s \<and> s \<le> last_seq \<and> s \<notin> de_seq ` set es)"

lemma missing_delta_log:
  assumes "log_ok v es"
  shows "missing_delta k (vw_last_seq v) es \<longleftrightarrow> k < vw_last_seq v - int (length es)"
proof -
  have s: "de_seq ` set es = {vw_last_seq v + 1 - int (length es) .. vw_last_seq v}"
    using assms by (metis image_set log_ok_def set_upto)
  show ?thesis
  proof
    assume "missing_delta k (vw_last_seq v) es"
    then show "k < vw_last_seq v - int (length es)" unfolding missing_delta_def s by auto
  next
    assume "k < vw_last_seq v - int (length es)"
    then show "missing_delta k (vw_last_seq v) es"
      unfolding missing_delta_def s by (intro exI [of _ "k + 1"]) auto
  qed
qed

lemma retention_check:
  assumes "log_ok v (deltas_of i d)"
  shows "(case oldest_seq d i of
        Some oldest \<Rightarrow> if k < oldest - 1 then Some (lagged n oldest) else None
      | None \<Rightarrow> if k < vw_last_seq v then Some (lagged n (vw_last_seq v + 1)) else None) =
    (if missing_delta k (vw_last_seq v) (deltas_of i d)
     then Some (lagged n (vw_last_seq v + 1 - int (length (deltas_of i d)))) else None)"
  unfolding missing_delta_log [OF assms] oldest_seq_log [OF assms] by auto

lemma changes_page:
  assumes "find_view ap d name = Inr view" and "load_row ap v = Inr view" and "v \<in> set (db_views d)"
    and "changes_check d view k epoch = None" and "catalog_ok d" and "one_tx_per_lsn (deltas_of (vw_id v) d)"
  defines "lg \<equiv> after_seq k (deltas_of (vw_id v) d)"
  shows "map de_seq lg = [k + 1 .. vw_last_seq v]"
    and "\<exists>n. changes ap d name k epoch max_rows include_hidden =
        Inr (map (change_row ap (if include_hidden then [] else sp_hidden_columns (cr_spec view))) (take n lg)) \<and>
      tx_boundary lg n \<and> (nat (max max_rows 1) \<le> n \<or> n = length lg)"
proof -
  note r = load_rowD [OF assms(2)]
  have log: "log_ok v (deltas_of (vw_id v) d)" using assms(3,5) by (simp add: catalog_ok_def)
  have "\<not> missing_delta k (vw_last_seq v) (deltas_of (vw_id v) d)"
    using assms(4) unfolding changes_check_def r retention_check [OF log] by (simp split: if_splits)
  then show "map de_seq lg = [k + 1 .. vw_last_seq v]"
    unfolding lg_def after_seqs(1) [OF log] missing_delta_log [OF log] by (simp add: max_def)
  obtain n where n: "read_page d (vw_id v) k (max max_rows 1) = take n lg" "tx_boundary lg n"
    "nat (max max_rows 1) \<le> n \<or> n = length lg"
    using read_page_prefix [OF log assms(6) max.cobounded2, of k max_rows] unfolding lg_def by blast
  have "changes ap d name k epoch max_rows include_hidden =
      Inr (map (change_row ap (if include_hidden then [] else sp_hidden_columns (cr_spec view))) (take n lg))"
    using assms(1,4) by (simp add: changes_def r(1) n(1))
  with n(2,3) show "\<exists>n. changes ap d name k epoch max_rows include_hidden =
        Inr (map (change_row ap (if include_hidden then [] else sp_hidden_columns (cr_spec view))) (take n lg)) \<and>
      tx_boundary lg n \<and> (nat (max max_rows 1) \<le> n \<or> n = length lg)" by blast
qed

lemma page_short:
  assumes "tx_boundary lg n" and "nat (max max_rows 1) \<le> n \<or> n = length lg"
    and "int (length (take n lg)) < max max_rows 1"
  shows "n = length lg"
proof (rule ccontr)
  assume "n \<noteq> length lg"
  with assms(1,2) have "nat (max max_rows 1) \<le> n" "n < length lg" by (auto simp: tx_boundary_def)
  with assms(3) show False by simp
qed

section \<open>Properties\<close>

text \<open>
  C30. \<open>changes\<close> serves the log without gaps and in whole transactions. When it returns, the view is not
  stale or failed and the subscriber's epoch is the view's; the deltas after the subscriber's cursor are
  numbered from the next number to the view's last one; and the result is a prefix of them that ends at
  the end of a source transaction, is all of them when it is shorter than \<open>max_rows\<close>, and carries each
  delta's number, LSN, transaction and operation, the hidden columns removed from its row unless asked for.
\<close>

theorem changes_serves_log:
  assumes "changes ap d name k epoch max_rows include_hidden = Inr rows" and "catalog_ok d"
    and "\<forall>v \<in> set (db_views d). one_tx_per_lsn (deltas_of (vw_id v) d)"
  shows "\<exists>v n spec. v \<in> set (db_views d) \<and> vw_spec v = Some spec \<and> epoch = vw_epoch v \<and>
    vw_status v \<notin> {''stale'', ''failed''} \<and>
    map de_seq (after_seq k (deltas_of (vw_id v) d)) = [k + 1 .. vw_last_seq v] \<and>
    rows = map (change_row ap (if include_hidden then [] else sp_hidden_columns spec))
      (take n (after_seq k (deltas_of (vw_id v) d))) \<and>
    tx_boundary (after_seq k (deltas_of (vw_id v) d)) n \<and>
    (int (length rows) < max max_rows 1 \<longrightarrow> n = length (after_seq k (deltas_of (vw_id v) d)))"
proof -
  obtain view where view: "find_view ap d name = Inr view" "changes_check d view k epoch = None"
    using assms(1) by (auto simp: changes_def rbind_Inr_iff Let_def split: option.splits)
  obtain v where v: "v \<in> set (db_views d)" "load_row ap v = Inr view" using find_view_row [OF view(1)] by blast
  note r = load_rowD [OF v(2)]
  have tx: "one_tx_per_lsn (deltas_of (vw_id v) d)" using assms(3) v(1) by blast
  note page = changes_page [OF view(1) v(2,1) view(2) assms(2) tx]
  have ok: "vw_status v \<notin> {''stale'', ''failed''}" "epoch = vw_epoch v"
    using view(2) by (auto simp: changes_check_def r split: if_splits)
  obtain n where n: "rows = map (change_row ap (if include_hidden then [] else sp_hidden_columns (cr_spec view)))
      (take n (after_seq k (deltas_of (vw_id v) d)))" "tx_boundary (after_seq k (deltas_of (vw_id v) d)) n"
    "nat (max max_rows 1) \<le> n \<or> n = length (after_seq k (deltas_of (vw_id v) d))"
    using page(2) [of max_rows include_hidden] assms(1) by auto
  have all: "int (length rows) < max max_rows 1 \<longrightarrow> n = length (after_seq k (deltas_of (vw_id v) d))"
    using page_short [OF n(2,3)] unfolding n(1) by simp
  show ?thesis
    by (intro exI [of _ v] exI [of _ n] exI [of _ "cr_spec view"] conjI) (rule v(1) r(3) ok page(1) n(1,2) all)+
qed

definition log_entry :: "int \<Rightarrow> u64 \<Rightarrow> u32 \<Rightarrow> char \<Rightarrow> delta_entry" where
  "log_entry s l x o1 = \<lparr>de_view = 1, de_seq = s, de_lsn = l, de_xid = x, de_op = o1, de_row = ''r''\<rparr>"

text \<open>A log of two transactions, the first one with two deltas; the first delta is already collected.\<close>

definition log_db :: db where
  "log_db = example_db\<lparr>
     db_views := [(example_entry 1 ''public.p'' proj_spec)\<lparr>vw_frontier := 30, vw_last_seq := 4\<rparr>],
     db_deltas := [log_entry 2 20 700 (CHR ''D''), log_entry 3 20 700 (CHR ''I''), log_entry 4 30 701 (CHR ''I'')]\<rparr>"

definition example_api :: api where
  "example_api = \<lparr>ap_range_var = (\<lambda>s. Inr (None, Some ''public'', s)), ap_creation_namespace = Inr ''public'',
     ap_visible_relid = (\<lambda>s. None), ap_view_relid = (\<lambda>i. None),
     ap_spec_error = (\<lambda>i. ''?''), ap_json = (\<lambda>s. JObject [(''k'', JString s)]),
     ap_catalog = example_catalog, ap_raised = (\<lambda>m. raise_error ''42601'' m None), ap_wal_level = ''logical'',
     ap_regclass = (\<lambda>o1. Some (if o1 = 17 then ''public.u'' else ''public.t'')), ap_create_slot = Inr 5,
     ap_drop = (\<lambda>s. case split_once (CHR ''.'') s of
       Some (schema, name) \<Rightarrow> Inr [\<lparr>dr_oid = 99, dr_schema = schema, dr_name = name\<rparr>] | None \<Rightarrow> Inr [])\<rparr>"

lemma log_db_ok: "catalog_ok log_db" by code_simp

lemma log_db_tx: "\<forall>v \<in> set (db_views log_db). one_tx_per_lsn (deltas_of (vw_id v) log_db)"
  by code_simp

theorem changes_serves_log_witness:
  "map ch_seq (projr (changes example_api log_db ''p'' 1 1 1 False)) = [2, 3] \<and>
   (\<exists>v n. v \<in> set (db_views log_db) \<and> tx_boundary (after_seq 1 (deltas_of (vw_id v) log_db)) n \<and> n = 2)"
proof -
  let ?r = "changes example_api log_db ''p'' 1 1 1 False"
  have e: "isl ?r = False" "map ch_seq (projr ?r) = [2, 3]" by code_simp+
  then have "?r = Inr (projr ?r)" by (cases ?r) auto
  from changes_serves_log [OF this log_db_ok log_db_tx] obtain v n and spec :: view_spec where
    v: "v \<in> set (db_views log_db)" "tx_boundary (after_seq 1 (deltas_of (vw_id v) log_db)) n"
    "projr ?r = map (change_row example_api (if False then [] else sp_hidden_columns spec))
      (take n (after_seq 1 (deltas_of (vw_id v) log_db)))"
    by (elim exE conjE) (rule that, assumption+)
  have "length (projr ?r) = 2" using e(2) by (metis length_map length_Cons list.size(3) One_nat_def Suc_1)
  then have "length (take n (after_seq 1 (deltas_of (vw_id v) log_db))) = 2" using v(3) by simp
  then have "n = 2 \<or> 2 = length (after_seq 1 (deltas_of (vw_id v) log_db))" by auto
  moreover have "vw_id v = 1" using v(1) by (simp add: log_db_def example_entry_def)
  moreover have "length (after_seq 1 (deltas_of 1 log_db)) = 3" by code_simp
  ultimately show ?thesis using v e(2) by auto
qed

text \<open>
  C31. \<open>changes\<close> fails on a known view in exactly four cases, tested in this order: the view is stale, it
  is failed, the subscriber's epoch is not the view's, or a delta after the subscriber's cursor is no
  longer in the log. So a subscriber is told that it lagged exactly when it did, with the number of the
  oldest delta still retained.
\<close>

theorem changes_errors:
  assumes "find_view ap d name = Inr view" and "catalog_ok d"
  shows "(changes ap d name k epoch max_rows include_hidden = Inl e) =
    (if cr_status view = ''stale'' then e = stale (cr_name view) (cr_stale_reason view)
     else if cr_status view = ''failed'' then e = failed (cr_name view) (cr_last_error view)
     else if epoch \<noteq> cr_epoch view then e = epoch_changed (cr_name view) epoch (cr_epoch view)
     else missing_delta k (cr_last_seq view) (deltas_of (cr_id view) d) \<and>
       e = lagged (cr_name view) (cr_last_seq view + 1 - int (length (deltas_of (cr_id view) d))))"
proof -
  obtain v where v: "v \<in> set (db_views d)" "load_row ap v = Inr view" using find_view_row [OF assms(1)] by blast
  note r = load_rowD [OF v(2)]
  have log: "log_ok v (deltas_of (vw_id v) d)" using assms(2) v(1) by (simp add: catalog_ok_def)
  have c: "changes ap d name k epoch max_rows include_hidden = Inl e \<longleftrightarrow> changes_check d view k epoch = Some e"
    using assms(1) by (simp add: changes_def Let_def split: option.splits)
  show ?thesis
    unfolding c changes_check_def r retention_check [OF log] by (simp split: if_splits) blast
qed

theorem changes_errors_witness:
  "changes example_api log_db ''p'' 0 1 10 False = Inl (lagged ''public.p'' 2)"
proof -
  let ?v = "projr (find_view example_api log_db ''p'')"
  have "isl (find_view example_api log_db ''p'') = False" by code_simp
  then have v: "find_view example_api log_db ''p'' = Inr ?v" by (cases "find_view example_api log_db ''p''") auto
  have e: "cr_status ?v = ''live''" "cr_epoch ?v = 1" "cr_last_seq ?v = 4" "cr_id ?v = 1" "cr_name ?v = ''public.p''"
    by code_simp+
  have len: "length (deltas_of 1 log_db) = 3" "de_seq ` set (deltas_of 1 log_db) = {2, 3, 4}" by code_simp+
  have m: "missing_delta 0 4 (deltas_of 1 log_db)" unfolding missing_delta_def len by (intro exI [of _ 1]) auto
  show ?thesis
    unfolding changes_errors [OF v log_db_ok] e using m len by simp
qed

text \<open>
  C37. The refresh set of a join view is the least set of views that contains it, every join view over
  one of its base tables, and with any member every join view sharing a base table with that member. So
  after a refresh no view outside the set reads a shadow that is going to be rebuilt for a view inside.
\<close>

theorem refresh_ids_least:
  "cr_id view \<in> refresh_ids d view \<and>
   sharing_views d (br_oid ` set (sp_relations (cr_spec view))) \<subseteq> refresh_ids d view \<and>
   closed_under_sharing d (refresh_ids d view) \<and>
   (\<forall>ids. cr_id view \<in> ids \<and> sharing_views d (br_oid ` set (sp_relations (cr_spec view))) \<subseteq> ids \<and>
     closed_under_sharing d ids \<longrightarrow> refresh_ids d view \<subseteq> ids)"
proof -
  let ?seed = "br_oid ` set (sp_relations (cr_spec view))"
  have "j \<in> ids" if "connected d (cr_id view) ?seed j" "cr_id view \<in> ids" "sharing_views d ?seed \<subseteq> ids"
    "closed_under_sharing d ids" for ids j
    using that
  proof (induction rule: connected.induct)
    case self
    then show ?case by simp
  next
    case (seed r j)
    then have "j \<in> sharing_views d ?seed" by (force simp: sharing_views_def)
    with seed show ?case by blast
  next
    case (share i r j)
    then show ?case unfolding closed_under_sharing_def by blast
  qed
  then have "refresh_ids d view \<subseteq> ids" if "cr_id view \<in> ids" "sharing_views d ?seed \<subseteq> ids"
    "closed_under_sharing d ids" for ids
    using that unfolding refresh_ids_eq by blast
  moreover have "cr_id view \<in> refresh_ids d view \<and> sharing_views d ?seed \<subseteq> refresh_ids d view \<and>
      closed_under_sharing d (refresh_ids d view)"
    using closure_loop_closed [of "{cr_id view}" "set (map br_oid (sp_relations (cr_spec view)))" d]
    by (simp add: refresh_ids_def)
  ultimately show ?thesis by blast
qed

text \<open>Four join views; the first three are connected through the relations 2 and 3.\<close>

definition sharing_db :: db where
  "sharing_db = example_db\<lparr>
     db_views := map (\<lambda>i. example_entry i ''public.j'' join_spec) [1, 2, 3, 4],
     db_relations := [(1, 1), (1, 2), (2, 2), (2, 3), (3, 3), (3, 4), (4, 5), (4, 6)]\<rparr>"

definition sharing_row :: catalog_row where
  "sharing_row = \<lparr>cr_id = 1, cr_name = ''public.j'',
     cr_spec = join_spec\<lparr>sp_relations := map (\<lambda>(r, o1). r\<lparr>br_oid := o1\<rparr>) (zip (sp_relations join_spec) [1, 2])\<rparr>,
     cr_frontier = 10, cr_epoch = 1, cr_status = ''live'', cr_last_seq = 0, cr_stale_reason = None,
     cr_last_error = None\<rparr>"

theorem refresh_ids_least_witness:
  "refresh_ids sharing_db sharing_row = {1, 2, 3} \<and>
   refresh_ids sharing_db sharing_row \<subseteq> {1, 2, 3, 9}"
proof -
  have c: "cr_id sharing_row \<in> {1, 2, 3, 9}" by code_simp
  have s: "sharing_views sharing_db (br_oid ` set (sp_relations (cr_spec sharing_row))) \<subseteq> {1, 2, 3, 9}" by code_simp
  have cl: "closed_under_sharing sharing_db {1, 2, 3, 9}"
    by (auto simp: closed_under_sharing_def sharing_db_def)
  from refresh_ids_least [of sharing_row sharing_db]
  have "\<forall>ids. cr_id sharing_row \<in> ids \<and>
      sharing_views sharing_db (br_oid ` set (sp_relations (cr_spec sharing_row))) \<subseteq> ids \<and>
      closed_under_sharing sharing_db ids \<longrightarrow> refresh_ids sharing_db sharing_row \<subseteq> ids" by (elim conjE)
  from this [rule_format, OF conjI [OF c conjI [OF s cl]]]
  have "refresh_ids sharing_db sharing_row \<subseteq> {1, 2, 3, 9}" .
  moreover have "refresh_ids sharing_db sharing_row = {1, 2, 3}" by code_simp
  ultimately show ?thesis by simp
qed

text \<open>
  C36. Waiting always ends and its answer is sound. With a clock that runs, \<open>wait_for\<close> returns after at
  most one pass per ten milliseconds of the timeout. When it returns true, the view was neither stale nor
  failed and (with a quiet idle window) every published transaction up to the target was in the view; when
  it returns false, the timeout is over and in no pass had the frontier reached the target.
\<close>

theorem wait_for_frontier_sound:
  assumes "clock_runs world"
  shows "\<exists>n r. n \<le> (nat timeout_ms + 9) div 10 \<and> wait_for_frontier canonical target timeout_ms world = Some r \<and>
    (r = Inr True \<longrightarrow> (\<exists>v \<in> set (db_views (pv_db (world n))). vw_name v = canonical \<and>
       vw_status v \<notin> {''stale'', ''failed''} \<and>
       (\<forall>commits. quiet (pv_idle (world n)) commits \<longrightarrow> (\<forall>l \<in> commits. l \<le> target \<longrightarrow> l \<le> vw_frontier v)))) \<and>
    (r = Inr False \<longrightarrow> max timeout_ms 0 * 1000000 \<le> pv_now (world n) \<and>
       (\<forall>m \<le> n. \<exists>v \<in> set (db_views (pv_db (world m))). vw_name v = canonical \<and>
          effective_frontier (pv_idle (world m)) (vw_frontier v) < target))"
proof -
  let ?body = "frontier_body canonical target" and ?dl = "poll_deadline timeout_ms"
  obtain n r where n: "n \<le> (nat timeout_ms + 9) div 10" "poll_end ?body ?dl (world n) = Some r"
    "\<And>m. m < n \<Longrightarrow> poll_end ?body ?dl (world m) = None" "poll_loop ?body ?dl world 0 = Some r"
    using wait_ends [OF assms] by metis
  have reached: "\<exists>v \<in> set (db_views (pv_db (world n))). vw_name v = canonical \<and> vw_status v \<notin> {''stale'', ''failed''} \<and>
      (\<forall>commits. quiet (pv_idle (world n)) commits \<longrightarrow> (\<forall>l \<in> commits. l \<le> target \<longrightarrow> l \<le> vw_frontier v))"
    if true: "r = Inr True"
  proof -
    obtain v where v: "v \<in> set (db_views (pv_db (world n)))" "vw_name v = canonical"
      "vw_status v \<notin> {''stale'', ''failed''}" "effective_frontier (pv_idle (world n)) (vw_frontier v) \<ge> target"
      using frontier_poll_true n(2) unfolding true by blast
    have "l \<le> vw_frontier v" if "quiet (pv_idle (world n)) commits" "l \<in> commits" "l \<le> target" for commits l
    proof -
      have "l \<in> {l \<in> commits. l \<le> effective_frontier (pv_idle (world n)) (vw_frontier v)}"
        using that v(4) by (auto intro: order_trans)
      then show ?thesis unfolding effective_frontier_sound [OF that(1)] by simp
    qed
    with v(1-3) show ?thesis by blast
  qed
  have short: "max timeout_ms 0 * 1000000 \<le> pv_now (world n) \<and>
      (\<forall>m \<le> n. \<exists>v \<in> set (db_views (pv_db (world m))). vw_name v = canonical \<and>
        effective_frontier (pv_idle (world m)) (vw_frontier v) < target)" if false: "r = Inr False"
  proof -
    have "poll_end ?body ?dl (world m) \<in> {None, Some (Inr False)}" if "m \<le> n" for m
      using n(2,3) that unfolding false by (cases "m = n") auto
    moreover have "?dl \<le> pv_now (world n)" using poll_false_late n(2) unfolding false by blast
    ultimately show ?thesis unfolding poll_deadline_def by (blast intro: frontier_poll_short)
  qed
  show ?thesis
    using n(1,4) reached short unfolding wait_for_frontier_def by blast
qed

definition example_world :: "nat \<Rightarrow> poll_view" where
  "example_world n = \<lparr>pv_db = log_db, pv_idle = None, pv_now = int n * 12000000, pv_interrupt = None\<rparr>"

theorem wait_for_frontier_sound_witness:
  "\<exists>n r. n \<le> (3 :: nat) \<and> wait_for_frontier ''public.p'' 25 25 example_world = Some r \<and> r \<noteq> Inr False"
proof -
  have c: "clock_runs example_world" by (auto simp: clock_runs_def example_world_def)
  have "nat 25 + 9 = (34 :: nat)" by simp
  then have k: "(nat 25 + 9) div 10 = (3 :: nat)" by simp
  from wait_for_frontier_sound [OF c, of 25 "''public.p''" 25] obtain n r where
    r: "n \<le> 3" "wait_for_frontier ''public.p'' 25 25 example_world = Some r"
    "r = Inr False \<longrightarrow> (\<forall>m \<le> n. \<exists>v \<in> set (db_views (pv_db (example_world m))). vw_name v = ''public.p'' \<and>
          effective_frontier (pv_idle (example_world m)) (vw_frontier v) < 25)"
    unfolding k by blast
  have "r \<noteq> Inr False"
  proof
    assume "r = Inr False"
    with r(3) have "\<exists>v \<in> set (db_views log_db). effective_frontier None (vw_frontier v) < 25"
      by (auto simp: example_world_def)
    then show False by (simp add: log_db_def effective_frontier_def)
  qed
  with r(1,2) show ?thesis by (intro exI [of _ n] exI [of _ r] conjI)
qed


end
