(* ===== verification/Api_Write_Facts.thy ===== *)
theory Api_Write_Facts
  imports Api_Write Api_Theorems Validator_Theorems Populate_Theorems
begin

text \<open>
  What \<open>create_view\<close>, \<open>refresh\<close> and \<open>drop_view\<close> keep: the catalog stays consistent, the publication covers
  every base table the worker must see, and every shadow is counted once per join view that reads it.
\<close>

section \<open>The invariant of the server\<close>

text \<open>The join views that were built over a relation.\<close>

definition readers :: "db \<Rightarrow> u32 \<Rightarrow> view_entry list" where
  "readers d o1 = filter (\<lambda>v. entry_is_join v \<and> vw_populated v \<and> (vw_id v, o1) \<in> set (db_relations d)) (db_views d)"

definition shadows_ok :: "db \<Rightarrow> bool" where
  "shadows_ok d \<longleftrightarrow> distinct (map se_relid (db_shadows d)) \<and>
     (\<forall>s \<in> set (db_shadows d). se_refcount s = int (length (readers d (se_relid s))) \<and> readers d (se_relid s) \<noteq> [])"

definition server_ok :: "server \<Rightarrow> bool" where
  "server_ok sv \<longleftrightarrow>
     unique_ids (sv_db sv) \<and> distinct (map vw_name (db_views (sv_db sv))) \<and>
     (\<forall>v \<in> set (db_views (sv_db sv)). vw_id v < sv_next_id sv) \<and>
     distinct (db_relations (sv_db sv)) \<and> fst ` set (db_relations (sv_db sv)) \<subseteq> vw_id ` set (db_views (sv_db sv)) \<and>
     Collect (needed (sv_db sv)) \<subseteq> set (published sv) \<and> shadows_ok (sv_db sv)"

section \<open>Slot and publication\<close>

lemma ensure_slot_keeps:
  assumes "ensure_slot ap sv = Inr sv'"
  shows "sv_publication sv' = sv_publication sv" "sv_relations sv' = sv_relations sv" "sv_next_id sv' = sv_next_id sv"
    "db_views (sv_db sv') = db_views (sv_db sv)" "db_relations (sv_db sv') = db_relations (sv_db sv)"
    "db_shadows (sv_db sv') = db_shadows (sv_db sv)" "db_slot (sv_db sv') \<noteq> None"
  using assms by (auto simp: ensure_slot_def rbind_Inr_iff split: if_splits)

lemma ensure_publication_keeps:
  assumes "ensure_publication_includes ap o1 sv = Inr sv'"
  shows "sv_db sv' = sv_db sv" "sv_relations sv' = sv_relations sv" "sv_next_id sv' = sv_next_id sv"
    "set (published sv') = insert o1 (set (published sv))"
  using assms by (auto simp: ensure_publication_includes_def published_def Let_def split: if_splits option.splits)

lemma publish_relations_keeps:
  assumes "publish_relations ap spec sv = Inr sv'"
  shows "sv_db sv' = sv_db sv" "sv_relations sv' = sv_relations sv" "sv_next_id sv' = sv_next_id sv"
    "set (published sv') = set (published sv) \<union> br_oid ` set (sp_relations spec)"
proof -
  have k: "sv_db sv' = sv_db sv \<and> sv_relations sv' = sv_relations sv \<and> sv_next_id sv' = sv_next_id sv \<and>
      set (published sv') = set (published sv) \<union> set os"
    if "rfold (ensure_publication_includes ap) os sv = Inr sv'" for os sv
    using that
  proof (induction os arbitrary: sv)
    case Nil
    then show ?case by simp
  next
    case (Cons o1 os)
    then obtain u where u: "ensure_publication_includes ap o1 sv = Inr u"
      "rfold (ensure_publication_includes ap) os u = Inr sv'" by (auto simp: rbind_Inr_iff)
    from Cons.IH [OF u(2)] ensure_publication_keeps [OF u(1)] show ?case by auto
  qed
  from k [OF assms [unfolded publish_relations_def]]
  show "sv_db sv' = sv_db sv" "sv_relations sv' = sv_relations sv" "sv_next_id sv' = sv_next_id sv"
    "set (published sv') = set (published sv) \<union> br_oid ` set (sp_relations spec)" by auto
qed

lemma readers_cong:
  "db_views d' = db_views d \<Longrightarrow> db_relations d' = db_relations d \<Longrightarrow> readers d' = readers d"
  by (simp add: readers_def fun_eq_iff)

lemma needed_cong:
  "db_relations d' = db_relations d \<Longrightarrow> db_shadows d' = db_shadows d \<Longrightarrow> needed d' = needed d"
  by (simp add: needed_def fun_eq_iff)

section \<open>Creating\<close>

lemma server_ok_insert:
  assumes ok: "server_ok sv" and new: "canonical \<notin> vw_name ` set (db_views (sv_db sv))"
    and os: "distinct (map br_oid (sp_relations spec))" "br_oid ` set (sp_relations spec) \<subseteq> set (published sv)"
  shows "server_ok (insert_view canonical definition spec sv)"
proof -
  let ?d = "sv_db sv" and ?sv = "insert_view canonical definition spec sv" and ?i = "sv_next_id sv"
  have v: "db_views (sv_db ?sv) = db_views ?d @ [new_entry ?i canonical definition spec]"
    "db_relations (sv_db ?sv) = db_relations ?d @ map (\<lambda>r. (?i, br_oid r)) (sp_relations spec)"
    "db_shadows (sv_db ?sv) = db_shadows ?d" "published ?sv = published sv" "sv_next_id ?sv = ?i + 1"
    by (simp_all add: insert_view_def Let_def published_def)
  have fresh1: "?i \<notin> vw_id ` set (db_views ?d)" using ok by (auto simp: server_ok_def)
  moreover have "fst ` set (db_relations ?d) \<subseteq> vw_id ` set (db_views ?d)" using ok by (simp add: server_ok_def)
  ultimately have fresh: "?i \<notin> vw_id ` set (db_views ?d)" "?i \<notin> fst ` set (db_relations ?d)" by blast+
  have "readers (sv_db ?sv) o1 = readers ?d o1" for o1
  proof -
    have "\<not> vw_populated (new_entry ?i canonical definition spec)" by (simp add: new_entry_def)
    moreover have "filter (\<lambda>v. entry_is_join v \<and> vw_populated v \<and> (vw_id v, o1) \<in> set (db_relations (sv_db ?sv))) (db_views ?d) =
        readers ?d o1"
    proof -
      have "vw_id w \<noteq> ?i" if "w \<in> set (db_views ?d)" for w using fresh(1) that by force
      then show ?thesis unfolding readers_def v by (intro filter_cong [OF refl]) auto
    qed
    ultimately show ?thesis by (simp add: readers_def v)
  qed
  then have "shadows_ok (sv_db ?sv)" using ok by (simp add: server_ok_def shadows_ok_def v)
  moreover have "distinct (db_relations (sv_db ?sv))"
  proof -
    have "distinct (map (\<lambda>r. (?i, br_oid r)) (sp_relations spec))"
      using os(1) by (simp add: distinct_map inj_on_def)
    moreover have "set (db_relations ?d) \<inter> set (map (\<lambda>r. (?i, br_oid r)) (sp_relations spec)) = {}"
      using fresh(2) by force
    ultimately show ?thesis using ok by (simp add: server_ok_def v)
  qed
  moreover have "Collect (needed (sv_db ?sv)) \<subseteq> set (published ?sv)"
  proof -
    have "needed (sv_db ?sv) o1 \<longleftrightarrow> needed ?d o1 \<or> o1 \<in> br_oid ` set (sp_relations spec)" for o1
      unfolding needed_def v by force
    then show ?thesis using ok os(2) unfolding server_ok_def v by blast
  qed
  moreover have n: "vw_id (new_entry ?i canonical definition spec) = ?i"
    "vw_name (new_entry ?i canonical definition spec) = canonical" by (simp_all add: new_entry_def)
  have "unique_ids (sv_db ?sv)" "distinct (map vw_name (db_views (sv_db ?sv)))"
    using ok new fresh(1) by (simp_all add: server_ok_def unique_ids_def v n)
  moreover have "\<forall>v \<in> set (db_views (sv_db ?sv)). vw_id v < sv_next_id ?sv"
  proof
    fix w assume "w \<in> set (db_views (sv_db ?sv))"
    then consider "w \<in> set (db_views ?d)" | "vw_id w = ?i" unfolding v using n(1) by auto
    then show "vw_id w < sv_next_id ?sv"
    proof cases
      case 1
      then have "vw_id w < ?i" using ok unfolding server_ok_def by blast
      then show ?thesis unfolding v by simp
    qed (simp add: v)
  qed
  moreover have "fst ` set (db_relations (sv_db ?sv)) \<subseteq> vw_id ` set (db_views (sv_db ?sv))"
  proof -
    have "fst ` set (db_relations ?d) \<subseteq> vw_id ` set (db_views ?d)" using ok by (simp add: server_ok_def)
    then show ?thesis unfolding v using n(1) by auto
  qed
  ultimately show ?thesis unfolding server_ok_def by blast
qed

lemma server_ok_same:
  assumes "server_ok sv" and "db_views (sv_db sv') = db_views (sv_db sv)" and "db_relations (sv_db sv') = db_relations (sv_db sv)"
    and "db_shadows (sv_db sv') = db_shadows (sv_db sv)" and "sv_next_id sv' = sv_next_id sv"
    and "set (published sv) \<subseteq> set (published sv')"
  shows "server_ok sv'"
  using assms readers_cong [OF assms(2,3)] needed_cong [OF assms(3,4)]
  by (auto simp: server_ok_def unique_ids_def shadows_ok_def)

lemma create_view_ok:
  assumes "create_view ap name definition sv = Inr (canonical, sv')" and "server_ok sv"
  shows "server_ok sv'"
proof -
  obtain rv spec base s1 s2 where
    acc: "accept_definition ap definition = Inr (spec, base)" and free: "require_free_name canonical sv = Inr ()"
    and s: "ensure_slot ap sv = Inr s1" "publish_relations ap spec s1 = Inr s2"
    "sv' = insert_view canonical definition spec s2"
    using assms(1) by (auto simp: create_view_def rbind_Inr_iff)
  have d: "distinct (map br_oid (sp_relations spec))"
    using acc validated_distinct_oids by (auto simp: accept_definition_def split: sum.splits)
  note k = ensure_slot_keeps [OF s(1)] publish_relations_keeps [OF s(2)]
  have "server_ok s2" using assms(2) by (rule server_ok_same) (use k in \<open>auto simp: published_def\<close>)
  moreover have "canonical \<notin> vw_name ` set (db_views (sv_db s2))"
    using free k by (auto simp: require_free_name_def split: if_splits)
  ultimately show ?thesis unfolding s(3) by (rule server_ok_insert) (use d k in auto)
qed

section \<open>Refreshing\<close>

lemma mark_refreshing_keeps:
  "map (\<lambda>v. (vw_id v, vw_name v, vw_spec v, vw_populated v)) (db_views (sv_db (mark_refreshing ids sv))) =
   map (\<lambda>v. (vw_id v, vw_name v, vw_spec v, vw_populated v)) (db_views (sv_db sv))"
  by (simp add: mark_refreshing_def)

lemma filter_map_same: "(\<And>x. P (f x) = P x) \<Longrightarrow> filter P (map f xs) = map f (filter P xs)"
  by (induction xs) auto

lemma readers_mark:
  "length (readers (sv_db (mark_refreshing ids sv)) o1) = length (readers (sv_db sv) o1)"
proof -
  let ?f = "\<lambda>v. if vw_id v \<in> set ids \<and> vw_status v \<notin> {''initializing'', ''refreshing''}
    then v\<lparr>vw_status := ''refreshing''\<rparr> else v"
  let ?p = "\<lambda>v. entry_is_join v \<and> vw_populated v \<and> (vw_id v, o1) \<in> set (db_relations (sv_db sv))"
  have "readers (sv_db (mark_refreshing ids sv)) o1 = filter ?p (map ?f (db_views (sv_db sv)))"
    by (simp add: readers_def mark_refreshing_def)
  also have "\<dots> = map ?f (filter ?p (db_views (sv_db sv)))"
    by (rule filter_map_same) (simp add: entry_is_join_def)
  finally show ?thesis by (simp add: readers_def)
qed

lemma server_ok_mark: "server_ok sv \<Longrightarrow> server_ok (mark_refreshing ids sv)"
proof -
  assume ok: "server_ok sv"
  let ?sv = "mark_refreshing ids sv"
  have same: "db_relations (sv_db ?sv) = db_relations (sv_db sv)" "db_shadows (sv_db ?sv) = db_shadows (sv_db sv)"
    "published ?sv = published sv" "sv_next_id ?sv = sv_next_id sv"
    by (simp_all add: mark_refreshing_def published_def)
  have ids: "map vw_id (db_views (sv_db ?sv)) = map vw_id (db_views (sv_db sv))"
    "map vw_name (db_views (sv_db ?sv)) = map vw_name (db_views (sv_db sv))"
    by (simp_all add: mark_refreshing_def)
  have iset: "vw_id ` set (db_views (sv_db ?sv)) = vw_id ` set (db_views (sv_db sv))" using ids(1) by (metis image_set)
  have "readers (sv_db ?sv) o1 = [] \<longleftrightarrow> readers (sv_db sv) o1 = []" for o1
    using readers_mark [of ids sv o1] by (metis length_0_conv)
  then have "shadows_ok (sv_db ?sv)" using ok by (simp add: server_ok_def shadows_ok_def same readers_mark)
  moreover have "\<forall>v \<in> set (db_views (sv_db ?sv)). vw_id v < sv_next_id ?sv"
    using ok iset unfolding server_ok_def same by (metis image_iff)
  ultimately show ?thesis
    using ok needed_cong [OF same(1,2)] by (simp add: server_ok_def unique_ids_def ids same iset)
qed

lemma refresh_ok:
  assumes "refresh ap name sv = Inr sv'" and "server_ok sv"
  shows "server_ok sv'"
proof -
  obtain s1 s2 ids and view :: catalog_row where s: "ensure_slot ap sv = Inr s1" "publish_relations ap (cr_spec view) s1 = Inr s2"
    "sv' = mark_refreshing ids s2"
    using assms(1) by (auto simp: refresh_def rbind_Inr_iff)
  note k = ensure_slot_keeps [OF s(1)] publish_relations_keeps [OF s(2)]
  have "server_ok s2" using assms(2) by (rule server_ok_same) (use k in \<open>auto simp: published_def\<close>)
  then show ?thesis unfolding s(3) by (rule server_ok_mark)
qed

section \<open>Dropping\<close>

definition dec_ref :: "u32 list \<Rightarrow> shadow_entry \<Rightarrow> shadow_entry" where
  "dec_ref os s = (if se_relid s \<in> set os then s\<lparr>se_refcount := se_refcount s - 1\<rparr> else s)"

text \<open>What releasing the shadows of \<open>os\<close> leaves: the ones with another reference, counted down.\<close>

definition released :: "u32 list \<Rightarrow> shadow_entry list \<Rightarrow> shadow_entry list" where
  "released os ss = map (dec_ref os) (filter (\<lambda>s. se_relid s \<in> set os \<longrightarrow> 1 < se_refcount s) ss)"

lemma dec_ref_relid [simp]: "se_relid (dec_ref os s) = se_relid s"
  by (simp add: dec_ref_def)

lemma released_distinct: "distinct (map se_relid ss) \<Longrightarrow> distinct (map se_relid (released os ss))"
  by (simp add: released_def comp_def distinct_map_filter)

lemma release_shadow_frame [simp]:
  "db_views (release_shadow o1 d) = db_views d" "db_relations (release_shadow o1 d) = db_relations d"
  "db_deltas (release_shadow o1 d) = db_deltas d" "db_storage (release_shadow o1 d) = db_storage d"
  "db_slot (release_shadow o1 d) = db_slot d"
  by (simp_all add: release_shadow_def Let_def drop_shadow_def)

lemma release_shadow_list:
  assumes "distinct (map se_relid (db_shadows d))"
  shows "db_shadows (release_shadow o1 d) = released [o1] (db_shadows d)"
proof -
  have u: "db_shadows (update_shadow o1 (\<lambda>s. s\<lparr>se_refcount := se_refcount s - 1\<rparr>) d) = map (dec_ref [o1]) (db_shadows d)"
    by (simp add: update_shadow_def dec_ref_def)
  have low: "se_refcount (dec_ref [o1] s) \<le> 0 \<longleftrightarrow> \<not> 1 < se_refcount s" if "se_relid s = o1" for s
    using that by (auto simp: dec_ref_def)
  show ?thesis
  proof (cases "\<exists>s \<in> set (db_shadows d). se_relid s = o1 \<and> \<not> 1 < se_refcount s")
    case True
    then obtain t where t: "t \<in> set (db_shadows d)" "se_relid t = o1" "\<not> 1 < se_refcount t" by blast
    have eq: "s = t" if "s \<in> set (db_shadows d)" "se_relid s = o1" for s
      using assms t(1,2) that by (simp add: distinct_map inj_on_def)
    have "filter (\<lambda>s. se_relid s \<noteq> o1) (map (dec_ref [o1]) (db_shadows d)) =
        map (dec_ref [o1]) (filter (\<lambda>s. se_relid s \<noteq> o1) (db_shadows d))"
      by (rule filter_map_same) simp
    also have "filter (\<lambda>s. se_relid s \<noteq> o1) (db_shadows d) =
        filter (\<lambda>s. se_relid s \<in> set [o1] \<longrightarrow> 1 < se_refcount s) (db_shadows d)"
      using eq t(3) by (intro filter_cong [OF refl]) auto
    finally show ?thesis using t low [OF t(2)] by (auto simp: release_shadow_def Let_def u drop_shadow_def released_def)
  next
    case False
    then have "filter (\<lambda>s. se_relid s \<in> set [o1] \<longrightarrow> 1 < se_refcount s) (db_shadows d) = db_shadows d"
      by (auto simp: filter_id_conv)
    moreover have "\<not> (\<exists>s \<in> set (map (dec_ref [o1]) (db_shadows d)). se_relid s = o1 \<and> se_refcount s \<le> 0)"
      using False low by auto
    ultimately show ?thesis by (simp only: release_shadow_def Let_def u released_def if_False)
  qed
qed

lemma released_Cons:
  assumes "o1 \<notin> set os"
  shows "released os (released [o1] ss) = released (o1 # os) ss"
proof -
  have "filter (\<lambda>s. se_relid s \<in> set os \<longrightarrow> 1 < se_refcount s)
        (map (dec_ref [o1]) (filter (\<lambda>s. se_relid s \<in> set [o1] \<longrightarrow> 1 < se_refcount s) ss)) =
      map (dec_ref [o1]) (filter (\<lambda>s. se_relid s \<in> set os \<longrightarrow> 1 < se_refcount s)
        (filter (\<lambda>s. se_relid s \<in> set [o1] \<longrightarrow> 1 < se_refcount s) ss))"
    using assms by (intro filter_map_same) (auto simp: dec_ref_def)
  also have "filter (\<lambda>s. se_relid s \<in> set os \<longrightarrow> 1 < se_refcount s)
        (filter (\<lambda>s. se_relid s \<in> set [o1] \<longrightarrow> 1 < se_refcount s) ss) =
      filter (\<lambda>s. se_relid s \<in> set (o1 # os) \<longrightarrow> 1 < se_refcount s) ss"
    unfolding filter_filter by (intro filter_cong [OF refl]) auto
  finally have f: "filter (\<lambda>s. se_relid s \<in> set os \<longrightarrow> 1 < se_refcount s) (released [o1] ss) =
      map (dec_ref [o1]) (filter (\<lambda>s. se_relid s \<in> set (o1 # os) \<longrightarrow> 1 < se_refcount s) ss)"
    by (simp only: released_def)
  have "dec_ref os (dec_ref [o1] s) = dec_ref (o1 # os) s" for s
    using assms by (auto simp: dec_ref_def)
  then show ?thesis unfolding released_def [of os] f released_def [of "o1 # os"] by simp
qed

lemma release_shadows_frame [simp]:
  "db_views (fold release_shadow os d) = db_views d" "db_relations (fold release_shadow os d) = db_relations d"
  "db_deltas (fold release_shadow os d) = db_deltas d" "db_storage (fold release_shadow os d) = db_storage d"
  "db_slot (fold release_shadow os d) = db_slot d"
  by (induction os arbitrary: d) simp_all

lemma release_shadows_list:
  "distinct os \<Longrightarrow> distinct (map se_relid (db_shadows d)) \<Longrightarrow>
   db_shadows (fold release_shadow os d) = released os (db_shadows d)"
proof (induction os arbitrary: d)
  case Nil
  have "map (dec_ref []) ss = ss" for ss by (rule map_idI) (simp add: dec_ref_def)
  then show ?case by (simp add: released_def)
next
  case (Cons o1 os)
  have r: "db_shadows (release_shadow o1 d) = released [o1] (db_shadows d)"
    using Cons.prems(2) by (rule release_shadow_list)
  then have "distinct (map se_relid (db_shadows (release_shadow o1 d)))"
    using released_distinct [OF Cons.prems(2)] by simp
  with Cons r released_Cons [of o1 os] show ?case by simp
qed

lemma readers_delete:
  "readers (delete_view_rows i d) o1 = filter (\<lambda>v. vw_id v \<noteq> i) (readers d o1)"
  unfolding readers_def delete_view_rows_def filter_filter by (simp, intro filter_cong [OF refl]) auto

lemma length_filter_unique:
  assumes "distinct (map f xs)" and "x \<in> set xs"
  shows "length (filter (\<lambda>y. f y \<noteq> f x) xs) = length xs - 1"
proof -
  have "filter (\<lambda>y. f y \<noteq> f x) xs = remove1 x xs"
    using assms
  proof (induction xs)
    case Nil
    then show ?case by simp
  next
    case (Cons y ys)
    show ?case
    proof (cases "y = x")
      case True
      then have "f x \<notin> f ` set ys" using Cons.prems(1) by simp
      then have "\<forall>z \<in> set ys. f z \<noteq> f x" by (metis imageI)
      then show ?thesis using True by (simp add: filter_id_conv)
    next
      case False
      then have "x \<in> set ys" "f y \<noteq> f x" using Cons.prems by auto
      with False Cons show ?thesis by simp
    qed
  qed
  then show ?thesis using assms(2) by (simp add: length_remove1)
qed


lemma readers_ids: "unique_ids d \<Longrightarrow> distinct (map vw_id (readers d o1))"
  by (simp add: unique_ids_def readers_def distinct_map_filter)

lemma distinct_relids: "distinct rels \<Longrightarrow> distinct (map snd (filter (\<lambda>(j, r). j = i) rels))"
proof (induction rels)
  case Nil
  then show ?case by simp
next
  case (Cons x rels)
  then show ?case by (cases x) force
qed

lemma forget_shadows_ok:
  assumes "shadows_ok d" and "unique_ids d" and "distinct (db_relations d)" and "find_id i d = Some v"
  defines "os \<equiv> map snd (filter (\<lambda>(j, r). j = i) (db_relations d))"
  shows "shadows_ok (if entry_is_join v \<and> vw_populated v then fold release_shadow os (delete_view_rows i d)
    else delete_view_rows i d)"
proof -
  let ?d = "delete_view_rows i d"
  have v: "v \<in> set (db_views d)" "vw_id v = i"
    using assms(4) by (auto simp: find_id_def find_Some_iff)
  have os: "set os = {r. (i, r) \<in> set (db_relations d)}" by (force simp: os_def)
  have dos: "distinct os"
    unfolding os_def by (rule distinct_relids [OF assms(3)])
  have sh: "db_shadows ?d = db_shadows d" by (simp add: delete_view_rows_def)
  have v_reads: "v \<in> set (readers d o1) \<longleftrightarrow> entry_is_join v \<and> vw_populated v \<and> o1 \<in> set os" for o1
    using v os by (simp add: readers_def)
  have only: "w = v" if "w \<in> set (readers d o1)" "vw_id w = i" for w o1
    using assms(2) v that by (auto simp: unique_ids_def readers_def distinct_map inj_on_def)
  have same: "readers ?d o1 = readers d o1" if "v \<notin> set (readers d o1)" for o1
    unfolding readers_delete using only that by (auto simp: filter_id_conv)
  have less: "length (readers ?d o1) = length (readers d o1) - 1" if "v \<in> set (readers d o1)" for o1
    unfolding readers_delete using length_filter_unique [OF readers_ids [OF assms(2)] that] v(2) by simp
  have ok: "distinct (map se_relid (db_shadows d))"
    "\<And>s. s \<in> set (db_shadows d) \<Longrightarrow> se_refcount s = int (length (readers d (se_relid s))) \<and> readers d (se_relid s) \<noteq> []"
    using assms(1) by (simp_all add: shadows_ok_def)
  show ?thesis
  proof (cases "entry_is_join v \<and> vw_populated v")
    case False
    then show ?thesis using ok same v_reads by (auto simp: shadows_ok_def sh)
  next
    case True
    have list: "db_shadows (fold release_shadow os ?d) = released os (db_shadows d)"
      using release_shadows_list [OF dos, of ?d] ok(1) sh by simp
    have rd: "readers (fold release_shadow os ?d) = readers ?d" by (rule readers_cong) simp_all
    have "se_refcount t = int (length (readers ?d (se_relid t))) \<and> readers ?d (se_relid t) \<noteq> []"
      if mem: "t \<in> set (released os (db_shadows d))" for t
    proof -
      obtain s where s: "s \<in> set (db_shadows d)" "se_relid s \<in> set os \<longrightarrow> 1 < se_refcount s" "t = dec_ref os s"
        using mem by (auto simp: released_def)
      note o = ok(2) [OF s(1)]
      show ?thesis
      proof (cases "se_relid s \<in> set os")
        case r: True
        then have "v \<in> set (readers d (se_relid s))" using True v_reads by simp
        from less [OF this] s(2) r o have "int (length (readers ?d (se_relid s))) = se_refcount s - 1"
          "0 < length (readers ?d (se_relid s))" by auto
        then show ?thesis using s(3) r by (auto simp: dec_ref_def)
      next
        case r: False
        then have "v \<notin> set (readers d (se_relid s))" using v_reads by simp
        from same [OF this] o s(3) r show ?thesis by (simp add: dec_ref_def)
      qed
    qed
    then show ?thesis using True released_distinct [OF ok(1)] by (simp add: shadows_ok_def list rd)
  qed
qed

lemma forget_view_ok:
  assumes "server_ok sv"
  shows "server_ok (forget_view i sv)"
proof (cases "find_id i (sv_db sv)")
  case None
  then show ?thesis using assms by (simp add: forget_view_def)
next
  case (Some v)
  let ?d = "sv_db sv"
  let ?os = "map snd (filter (\<lambda>(j, r). j = i) (db_relations ?d))"
  define e where "e = (if entry_is_join v \<and> vw_populated v then fold release_shadow ?os (delete_view_rows i ?d)
    else delete_view_rows i ?d)"
  have f: "forget_view i sv = drop_objects v (sv\<lparr>sv_db := e\<rparr>)"
    using Some by (simp add: forget_view_def Let_def e_def)
  have ok: "shadows_ok e"
    unfolding e_def using assms by (intro forget_shadows_ok) (simp_all add: server_ok_def Some)
  have views: "db_views e = filter (\<lambda>v. vw_id v \<noteq> i) (db_views ?d)"
    and rels: "db_relations e = filter (\<lambda>(j, r). j \<noteq> i) (db_relations ?d)"
    by (simp_all add: delete_view_rows_def e_def)
  have shadows: "se_relid ` set (db_shadows e) \<subseteq> se_relid ` set (db_shadows ?d)"
  proof (cases "entry_is_join v \<and> vw_populated v")
    case True
    have "distinct ?os"
      using assms unfolding server_ok_def by (simp add: distinct_relids)
    then have "db_shadows e = released ?os (db_shadows ?d)"
      using True assms release_shadows_list [of ?os "delete_view_rows i ?d"]
      by (simp add: server_ok_def shadows_ok_def delete_view_rows_def e_def)
    then show ?thesis by (auto simp: released_def)
  next
    case False
    then have "db_shadows e = db_shadows ?d" unfolding e_def by (simp only: if_False) (simp add: delete_view_rows_def)
    then show ?thesis by simp
  qed
  have s: "sv_db (forget_view i sv) = e\<lparr>db_storage := (db_storage e)(vw_id v := None)\<rparr>"
    "published (forget_view i sv) = published sv" "sv_next_id (forget_view i sv) = sv_next_id sv"
    unfolding f by (simp_all add: drop_objects_def published_def)
  have rd: "shadows_ok (sv_db (forget_view i sv))"
    using ok readers_cong [of "sv_db (forget_view i sv)" e] by (simp add: shadows_ok_def s)
  have "needed ?d o1" if n: "needed (sv_db (forget_view i sv)) o1" for o1
  proof -
    consider "o1 \<in> snd ` set (db_relations e)" | "o1 \<in> se_relid ` set (db_shadows e)"
      using n by (auto simp: needed_def s)
    then show ?thesis
    proof cases
      case 1
      then show ?thesis unfolding rels needed_def by auto
    next
      case 2
      with shadows show ?thesis unfolding needed_def by blast
    qed
  qed
  then have "Collect (needed (sv_db (forget_view i sv))) \<subseteq> set (published sv)"
    using assms unfolding server_ok_def by blast
  moreover have "fst ` set (db_relations e) \<subseteq> vw_id ` set (db_views e)"
    using assms unfolding views rels server_ok_def by fastforce
  ultimately show ?thesis
    using assms rd unfolding server_ok_def s(2,3)
    by (simp add: s(1) views rels unique_ids_def distinct_map_filter)
qed

lemma prune_ok:
  assumes "server_ok sv"
  shows "server_ok (prune_publication sv)"
proof -
  have "set (published (prune_publication sv)) = {o1 \<in> set (published sv). needed (sv_db sv) o1}"
    by (auto simp: prune_publication_def published_def split: option.split)
  moreover have "sv_db (prune_publication sv) = sv_db sv" "sv_next_id (prune_publication sv) = sv_next_id sv"
    by (simp_all add: prune_publication_def)
  ultimately show ?thesis using assms unfolding server_ok_def by auto
qed

lemma forget_shadows_server_ok:
  assumes "server_ok sv"
  shows "server_ok (forget_shadows gone sv)"
proof -
  have d: "db_views (sv_db (forget_shadows gone sv)) = db_views (sv_db sv)"
    "db_relations (sv_db (forget_shadows gone sv)) = db_relations (sv_db sv)"
    "db_shadows (sv_db (forget_shadows gone sv)) = filter (\<lambda>s. \<not> gone s) (db_shadows (sv_db sv))"
    "published (forget_shadows gone sv) = published sv" "sv_next_id (forget_shadows gone sv) = sv_next_id sv"
    by (simp_all add: forget_shadows_def published_def)
  have n: "needed (sv_db (forget_shadows gone sv)) o1 \<Longrightarrow> needed (sv_db sv) o1" for o1
    by (auto simp: needed_def d)
  have sh: "shadows_ok (sv_db (forget_shadows gone sv))"
    using assms readers_cong [OF d(1,2)]
    by (simp add: server_ok_def shadows_ok_def d distinct_map_filter)
  have "Collect (needed (sv_db (forget_shadows gone sv))) \<subseteq> set (published sv)"
    using assms n unfolding server_ok_def by blast
  then show ?thesis
    using assms sh unfolding server_ok_def unique_ids_def d by blast
qed

lemma forget_views_ok: "server_ok sv \<Longrightarrow> server_ok (fold forget_view ids sv)"
  by (induction ids arbitrary: sv) (simp_all add: forget_view_ok)

lemma forget_dropped_ok:
  assumes "forget_dropped ap obj sv = Inr sv'" and "server_ok sv"
  shows "server_ok sv'"
  using assms
  by (auto simp: forget_dropped_def rbind_Inr_iff Let_def split: option.split
      intro!: forget_shadows_server_ok forget_views_ok forget_view_ok)

lemma on_sql_drop_ok:
  assumes "on_sql_drop ap objs sv = Inr sv'" and "server_ok sv"
  shows "server_ok sv'"
proof -
  have "server_ok t" if "rfold (forget_dropped ap) objs s = Inr t" "server_ok s" for objs s t
    using that by (induction objs arbitrary: s) (auto simp: rbind_Inr_iff dest: forget_dropped_ok)
  with assms prune_ok show ?thesis by (auto simp: on_sql_drop_def rbind_Inr_iff split: if_splits)
qed

lemma drop_relation_ok:
  assumes "drop_relation ap name sv = Inr sv'" and "server_ok sv"
  shows "server_ok sv'"
proof -
  have "server_ok (sv\<lparr>sv_relations := rs, sv_db := (sv_db sv)\<lparr>db_storage := st\<rparr>\<rparr>)" for rs st
    using assms(2) by (rule server_ok_same) (simp_all add: published_def)
  with assms(1) on_sql_drop_ok show ?thesis by (auto simp: drop_relation_def rbind_Inr_iff)
qed

lemma drop_view_ok:
  assumes "drop_view ap name sv = Inr sv'" and "server_ok sv"
  shows "server_ok sv'"
proof -
  have d: "server_ok t" if "drop_if_exists ap n s = Inr t" "server_ok s" for n s t
    using that drop_relation_ok by (auto simp: drop_if_exists_def split: if_splits)
  show ?thesis
    using assms(1) d assms(2) prune_ok forget_view_ok by (auto simp: drop_view_def rbind_Inr_iff)
qed


end
