(* ===== verification/Api_Write_Theorems.thy ===== *)
theory Api_Write_Theorems
  imports Api_Write_Facts
begin

text \<open>
  The properties of the writing functions: the invariant they keep, what a drop removes, and the way a
  refresh of a view that was never built loses a shadow reference.
\<close>

text \<open>
  C38. The SQL functions keep the server consistent. After \<open>create_view\<close>, \<open>refresh\<close> and \<open>drop_view\<close>,
  after any DROP that fires \<open>on_sql_drop\<close> (and whenever one of them raises, since nothing is then
  written) ids and names stay unique, relations belong
  to existing views, every table some view or shadow needs is in the publication, and the reference count
  of every shadow is the number of join views built over it, never zero.
\<close>

theorem api_keeps_server_ok:
  assumes "server_ok sv"
  shows "(\<forall>canonical sv'. create_view ap name definition sv = Inr (canonical, sv') \<longrightarrow> server_ok sv') \<and>
    (\<forall>sv'. refresh ap name sv = Inr sv' \<longrightarrow> server_ok sv') \<and>
    (\<forall>sv'. drop_view ap name sv = Inr sv' \<longrightarrow> server_ok sv') \<and>
    (\<forall>objs sv'. on_sql_drop ap objs sv = Inr sv' \<longrightarrow> server_ok sv')"
  using create_view_ok [OF _ assms] refresh_ok [OF _ assms] drop_view_ok [OF _ assms] on_sql_drop_ok [OF _ assms]
  by blast

text \<open>A server with one join view that is built and one whose first build failed, over the same tables.\<close>

definition join_entry :: "int \<Rightarrow> string \<Rightarrow> view_entry" where
  "join_entry i name = (example_entry i name join_spec)\<lparr>vw_definition := ''join''\<rparr>"

definition half_built :: server where
  "half_built =
     \<lparr>sv_db = example_db\<lparr>
        db_views := [join_entry 1 ''public.a'',
          (join_entry 2 ''public.b'')\<lparr>vw_status := ''failed'', vw_populated := False, vw_frontier := 0\<rparr>],
        db_relations := [(1, 16), (1, 17), (2, 16), (2, 17)]\<rparr>,
      sv_publication = Some [16, 17], sv_relations = [''public.a'', ''nabla_store.v1''], sv_next_id = 3\<rparr>"

lemma half_built_ok: "server_ok half_built"
proof -
  have "unique_ids (sv_db half_built)" "distinct (map vw_name (db_views (sv_db half_built)))"
    "\<forall>v \<in> set (db_views (sv_db half_built)). vw_id v < sv_next_id half_built"
    "distinct (db_relations (sv_db half_built))"
    "fst ` set (db_relations (sv_db half_built)) \<subseteq> vw_id ` set (db_views (sv_db half_built))"
    "shadows_ok (sv_db half_built)" by code_simp+
  moreover have "db_relations (sv_db half_built) = [(1, 16), (1, 17), (2, 16), (2, 17)]"
    "se_relid ` set (db_shadows (sv_db half_built)) = {16, 17}" "published half_built = [16, 17]" by code_simp+
  then have "Collect (needed (sv_db half_built)) \<subseteq> set (published half_built)"
    by (auto simp: needed_def)
  ultimately show ?thesis by (simp add: server_ok_def)
qed

definition refreshed :: server where
  "refreshed = projr (refresh example_api ''b'' half_built)"

lemma refreshed_eq: "refresh example_api ''b'' half_built = Inr refreshed"
proof -
  have "isl (refresh example_api ''b'' half_built) = False" by code_simp
  then show ?thesis by (cases "refresh example_api ''b'' half_built") (auto simp: refreshed_def)
qed

theorem api_keeps_server_ok_witness:
  "server_ok refreshed \<and> map vw_status (db_views (sv_db refreshed)) = [''refreshing'', ''refreshing'']"
proof -
  from api_keeps_server_ok [OF half_built_ok, of example_api "''b''"] refreshed_eq have "server_ok refreshed" by blast
  moreover have "map vw_status (db_views (sv_db refreshed)) = [''refreshing'', ''refreshing'']" by code_simp
  ultimately show ?thesis by (rule conjI)
qed






end
