(* ===== verification/Client.thy ===== *)
theory Client
  imports Api
begin

text \<open>
  The reference client, \<open>src/clients/rust/nabla-client/src/lib.rs\<close>: a subscription connects, bootstraps from
  one snapshot, then follows the delta log by calling \<open>nabla.changes\<close>. What the server and the network
  answer during one pass of the client's loop is a parameter, the record \<open>answers\<close>. Sleeping changes no
  state and is left out; the number of rows of one answer is taken to fit in an \<open>i32\<close>.
\<close>

section \<open>Types\<close>

text \<open>\<open>tokio_postgres::Error\<close>: a report of the server, or anything else that went wrong on the way.\<close>

datatype pg_error = Transport string | Server report

datatype client_error = Postgres pg_error | Protocol string | NotConnected | ViewFailed string

fun error_text :: "(pg_error \<Rightarrow> string) \<Rightarrow> client_error \<Rightarrow> string" where
  "error_text show_pg (Postgres e) = ''postgres: '' @ show_pg e"
| "error_text show_pg (Protocol m) = ''protocol violation: '' @ m"
| "error_text show_pg NotConnected = ''not connected''"
| "error_text show_pg (ViewFailed r) = ''view failed to build: '' @ r"

datatype change_op = InsertOp | DeleteOp

record client_delta =
  cd_seq :: int
  cd_op :: change_op
  cd_row :: json

datatype resync_reason = Lagged | EpochChanged int int | Stale string | Disconnected

fun resync_text :: "resync_reason \<Rightarrow> string" where
  "resync_text Lagged = ''lagged''"
| "resync_text (EpochChanged from1 to1) = ''epoch changed ('' @ int_text from1 @ '' -> '' @ int_text to1 @ '')''"
| "resync_text (Stale reason) = ''stale: '' @ reason"
| "resync_text Disconnected = ''disconnected''"

datatype event =
    Snapshot int string int "json list"                          \<comment> \<open>epoch, frontier, cursor, rows\<close>
  | Transaction "int option" string int "client_delta list"      \<comment> \<open>xid, lsn, epoch, deltas\<close>
  | Resync resync_reason

text \<open>Durations in milliseconds.\<close>

record options =
  op_batch :: int
  op_poll_interval :: int
  op_keep_hidden :: bool
  op_max_backoff :: int
  op_build_poll :: int

definition default_options :: options where
  "default_options = \<lparr>op_batch = 1000, op_poll_interval = 1000, op_keep_hidden = False, op_max_backoff = 30000,
     op_build_poll = 200\<rparr>"

text \<open>\<open>ChangeRow\<close>: a row of \<open>changes()\<close> with its operation read.\<close>

record client_row =
  cw_seq :: int
  cw_lsn :: string
  cw_xid :: "int option"
  cw_op :: change_op
  cw_row :: json

datatype client_state = NeedBootstrap | Following

datatype failure =
  FLagged | FStale string | FEpochChanged int int | FDisconnected | FOther client_error

datatype boot = BootReady | BootBuilding | BootStale string | BootFailed string

section \<open>Names and errors\<close>

definition quote_ident :: "string \<Rightarrow> string" where
  "quote_ident s =
     CHR 0x22 # concat (map (\<lambda>c. if c = CHR 0x22 then [CHR 0x22, CHR 0x22] else [c]) s) @ [CHR 0x22]"

definition quote_view :: "string \<Rightarrow> string" where
  "quote_view view =
     (case split_once (CHR ''.'') view of
        Some (schema, name) \<Rightarrow> quote_ident schema @ ''.'' @ quote_ident name
      | None \<Rightarrow> quote_ident view)"

text \<open>\<open>rsplit(' ').next()\<close>.\<close>

definition last_word :: "string \<Rightarrow> string" where
  "last_word s = rev (takeWhile (\<lambda>c. c \<noteq> CHR '' '') (rev s))"

definition reported :: "report \<Rightarrow> string" where
  "reported r = or_unrecorded (rp_detail r)"

definition new_epoch :: "report \<Rightarrow> int \<Rightarrow> int" where
  "new_epoch r epoch =
     (case Option.bind (rp_detail r) (\<lambda>d. parse_int 32 (last_word d)) of None \<Rightarrow> epoch | Some m \<Rightarrow> m)"

definition classify :: "pg_error \<Rightarrow> int \<Rightarrow> failure" where
  "classify e epoch =
     (case e of
        Transport m \<Rightarrow> FDisconnected
      | Server r \<Rightarrow>
          (if rp_sqlstate r = ''NB001'' then FLagged
           else if rp_sqlstate r = ''NB002'' then FStale (reported r)
           else if rp_sqlstate r = ''NB003'' then FEpochChanged epoch (new_epoch r epoch)
           else if rp_sqlstate r = ''NB006'' then FOther (ViewFailed (reported r))
           else FOther (Postgres e)))"

section \<open>Subscriptions\<close>

text \<open>The cursor of a pending event is the one to adopt once it is handed out.\<close>

record subscription =
  su_view :: string
  su_options :: options
  su_connected :: bool
  su_state :: client_state
  su_epoch :: int
  su_cursor :: int
  su_pending :: "(event \<times> int option) list"
  su_tail :: "client_row list"
  su_stale_backoff :: int

text \<open>What waiting for a notification ends with; \<open>Closed\<close> when the connection is gone.\<close>

datatype wakeup = Notified | Closed | Elapsed

definition wait_for_wakeup :: "wakeup \<Rightarrow> bool" where
  "wait_for_wakeup w = (case w of Notified \<Rightarrow> True | Closed \<Rightarrow> False | Elapsed \<Rightarrow> True)"

text \<open>
  One pass: opening a connection, the canonical name and \<open>LISTEN\<close>, a wake-up, the statements of the bootstrap transaction, and \<open>changes\<close> (view, cursor, epoch, batch, hidden).
\<close>

record answers =
  an_connect :: "pg_error + unit"
  an_name :: "string \<Rightarrow> pg_error + string"
  an_listen :: "string \<Rightarrow> pg_error + unit"
  an_wakeup :: wakeup
  an_begin :: "pg_error + unit"
  an_status :: "string \<Rightarrow> pg_error + status_row"
  an_columns :: "string \<Rightarrow> pg_error + string list"
  an_rows :: "string \<Rightarrow> pg_error + json list"
  an_commit :: "pg_error + unit"
  an_changes :: "string \<Rightarrow> int \<Rightarrow> int \<Rightarrow> int \<Rightarrow> bool \<Rightarrow> pg_error + change_row list"

definition connect :: "answers \<Rightarrow> subscription \<Rightarrow> (pg_error + unit) \<times> subscription" where
  "connect an su =
     (case rbind (an_connect an) (\<lambda>_. an_name an (su_view su)) of
        Inl e \<Rightarrow> (Inl e, su)
      | Inr name \<Rightarrow>
          (let su = su\<lparr>su_view := name\<rparr> in
           case an_listen an (quote_ident (''nabla:'' @ name)) of
             Inl e \<Rightarrow> (Inl e, su)
           | Inr u \<Rightarrow> (Inr (), su\<lparr>su_connected := True, su_state := NeedBootstrap, su_tail := []\<rparr>)))"

text \<open>\<open>open_with\<close>; the view name is trimmed.\<close>

definition new_subscription :: "string \<Rightarrow> options \<Rightarrow> subscription" where
  "new_subscription view options =
     \<lparr>su_view = trim view, su_options = options, su_connected = False, su_state = NeedBootstrap, su_epoch = 0,
      su_cursor = 0, su_pending = [], su_tail = [], su_stale_backoff = 1000\<rparr>"

definition open_with :: "answers \<Rightarrow> string \<Rightarrow> options \<Rightarrow> client_error + subscription" where
  "open_with an view options =
     (case connect an (new_subscription view options) of
        (Inl e, su) \<Rightarrow> Inl (Postgres e)
      | (Inr u, su) \<Rightarrow> Inr su)"

definition push_event :: "event \<Rightarrow> int option \<Rightarrow> subscription \<Rightarrow> subscription" where
  "push_event evt cursor su = su\<lparr>su_pending := su_pending su @ [(evt, cursor)]\<rparr>"

definition resync :: "resync_reason \<Rightarrow> subscription \<Rightarrow> subscription" where
  "resync reason su = (push_event (Resync reason) None su)\<lparr>su_tail := [], su_state := NeedBootstrap\<rparr>"

section \<open>Bootstrap\<close>

definition snapshot_sql :: "string \<Rightarrow> string list option \<Rightarrow> string" where
  "snapshot_sql view columns =
     (case columns of
        None \<Rightarrow> ''SELECT to_jsonb(v) FROM '' @ quote_view view @ '' AS v''
      | Some cs \<Rightarrow> ''SELECT to_jsonb(v) FROM (SELECT '' @ join_text '', '' (map quote_ident cs) @ '' FROM '' @
          quote_view view @ '') AS v'')"

text \<open>The transaction: status, visible columns and rows from one snapshot.\<close>

definition read_snapshot :: "answers \<Rightarrow> string \<Rightarrow> bool \<Rightarrow> status_row \<Rightarrow> pg_error + boot \<times> event option" where
  "read_snapshot an view keep st =
     rbind (if keep then Inr (snapshot_sql view None)
            else rbind (an_columns an view) (\<lambda>cs. Inr (snapshot_sql view (Some cs)))) (\<lambda>sql.
     rbind (an_rows an sql) (\<lambda>rows.
     rbind (an_commit an) (\<lambda>_.
     Inr (BootReady, Some (Snapshot (sr_epoch st) (sr_frontier st) (sr_current_seq st) rows)))))"

definition bootstrap_read :: "answers \<Rightarrow> string \<Rightarrow> bool \<Rightarrow> pg_error + boot \<times> event option" where
  "bootstrap_read an view keep =
     rbind (an_begin an) (\<lambda>_.
     rbind (an_status an view) (\<lambda>st.
     let reason = or_unrecorded (sr_stale_reason st) in
     if sr_status st = ''initializing'' \<or> sr_status st = ''refreshing''
     then rbind (an_commit an) (\<lambda>_. Inr (BootBuilding, None))
     else if sr_status st = ''failed'' then rbind (an_commit an) (\<lambda>_. Inr (BootFailed reason, None))
     else if sr_status st = ''stale'' then rbind (an_commit an) (\<lambda>_. Inr (BootStale reason, None))
     else read_snapshot an view keep st))"

definition bootstrap :: "answers \<Rightarrow> subscription \<Rightarrow> (failure + boot) \<times> subscription" where
  "bootstrap an su =
     (if \<not> su_connected su then (Inl (FOther NotConnected), su)
      else case bootstrap_read an (su_view su) (op_keep_hidden (su_options su)) of
        Inr (BootReady, Some (Snapshot epoch frontier cursor rows)) \<Rightarrow>
          (Inr BootReady, push_event (Snapshot epoch frontier cursor rows) (Some cursor)
             (su\<lparr>su_epoch := epoch, su_cursor := cursor, su_stale_backoff := 1000, su_state := Following, su_tail := []\<rparr>))
      | Inr (outcome, evt) \<Rightarrow> (Inr outcome, su)
      | Inl e \<Rightarrow> (Inl (classify e (su_epoch su)), su))"

section \<open>Following\<close>

text \<open>
  Every row is checked against the expected number before its operation is read. The text of an unknown
  operation is the one of \<open>{:?}\<close> when nothing in it has to be escaped.
\<close>

definition gap_message :: "int \<Rightarrow> int \<Rightarrow> string" where
  "gap_message expected seq = ''expected seq '' @ int_text expected @ '', got '' @ int_text seq @
     '': deltas of a view must be contiguous''"

fun parse_rows :: "int \<Rightarrow> change_row list \<Rightarrow> failure + client_row list" where
  "parse_rows expected [] = Inr []"
| "parse_rows expected (r # rs) =
     (if ch_seq r \<noteq> expected then Inl (FOther (Protocol (gap_message expected (ch_seq r))))
      else rbind (if ch_op r = ''I'' then Inr InsertOp
                  else if ch_op r = ''D'' then Inr DeleteOp
                  else Inl (FOther (Protocol (''unknown op '' @ quoted (ch_op r))))) (\<lambda>op1.
      rbind (parse_rows (expected + 1) rs) (\<lambda>ws.
      Inr (\<lparr>cw_seq = ch_seq r, cw_lsn = ch_lsn r, cw_xid = ch_xid r, cw_op = op1, cw_row = ch_row r\<rparr> # ws))))"

definition same_transaction :: "client_row \<Rightarrow> client_row \<Rightarrow> bool" where
  "same_transaction a b \<longleftrightarrow> cw_xid a = cw_xid b \<and> cw_lsn a = cw_lsn b"

text \<open>Consecutive rows of one transaction form a group.\<close>

definition add_row :: "client_row list list \<Rightarrow> client_row \<Rightarrow> client_row list list" where
  "add_row groups row =
     (if groups \<noteq> [] \<and> same_transaction (hd (last groups)) row
      then butlast groups @ [last groups @ [row]] else groups @ [[row]])"

definition tx_groups :: "client_row list \<Rightarrow> client_row list list" where
  "tx_groups rows = foldl add_row [] rows"

definition group_event :: "int \<Rightarrow> client_row list \<Rightarrow> event \<times> int option" where
  "group_event epoch g =
     (Transaction (cw_xid (hd g)) (cw_lsn (hd g)) epoch
        (map (\<lambda>r. \<lparr>cd_seq = cw_seq r, cd_op = cw_op r, cd_row = cw_row r\<rparr>) g), Some (cw_seq (last g)))"

definition fetch_after :: "subscription \<Rightarrow> int" where
  "fetch_after su = (if su_tail su = [] then su_cursor su else cw_seq (last (su_tail su)))"

text \<open>The rows of one answer, once parsed: when the batch is full the last group is kept back.\<close>

definition take_rows :: "bool \<Rightarrow> client_row list \<Rightarrow> subscription \<Rightarrow> subscription" where
  "take_rows full rows su =
     (let groups = tx_groups (su_tail su @ rows);
          keep = full \<and> groups \<noteq> [];
          out = (if keep then butlast groups else groups)
      in su\<lparr>su_tail := (if keep then last groups else []),
            su_pending := su_pending su @ map (group_event (su_epoch su)) out\<rparr>)"

definition fetch :: "answers \<Rightarrow> subscription \<Rightarrow> (failure + unit) \<times> subscription" where
  "fetch an su =
     (if \<not> su_connected su then (Inl (FOther NotConnected), su)
      else case an_changes an (su_view su) (fetch_after su) (su_epoch su) (op_batch (su_options su))
                  (op_keep_hidden (su_options su)) of
        Inl e \<Rightarrow> (Inl (classify e (su_epoch su)), su)
      | Inr rows \<Rightarrow>
          (case parse_rows (fetch_after su + 1) rows of
             Inl f \<Rightarrow> (Inl f, su)
           | Inr ws \<Rightarrow> (Inr (), take_rows (int (length rows) \<ge> op_batch (su_options su)) ws su)))"

section \<open>The loop\<close>

text \<open>
  One pass of \<open>next\<close>: an answer for the caller, or \<open>None\<close> to go on. A pass without a connection is one
  attempt of \<open>reconnect\<close>, whose own loop changes nothing else.
\<close>

definition bootstrap_pass :: "answers \<Rightarrow> subscription \<Rightarrow> (client_error + event) option \<times> subscription" where
  "bootstrap_pass an su =
     (case bootstrap an su of
        (Inr BootReady, su) \<Rightarrow> (None, su)
      | (Inr BootBuilding, su) \<Rightarrow> (None, su)
      | (Inr (BootStale reason), su) \<Rightarrow>
          (None, push_event (Resync (Stale reason)) None
             (su\<lparr>su_stale_backoff := min (su_stale_backoff su * 2) (op_max_backoff (su_options su))\<rparr>))
      | (Inr (BootFailed reason), su) \<Rightarrow> (Some (Inl (ViewFailed reason)), su)
      | (Inl FDisconnected, su) \<Rightarrow> (None, su\<lparr>su_connected := False\<rparr>)
      | (Inl (FOther e), su) \<Rightarrow> (Some (Inl e), su)
      | (Inl f, su) \<Rightarrow> (None, su))"

definition follow_pass :: "answers \<Rightarrow> subscription \<Rightarrow> (client_error + event) option \<times> subscription" where
  "follow_pass an su =
     (if su_tail su = [] \<and> \<not> wait_for_wakeup (an_wakeup an) then (None, su\<lparr>su_connected := False\<rparr>)
      else case fetch an su of
        (Inr u, su) \<Rightarrow> (None, su)
      | (Inl FLagged, su) \<Rightarrow> (None, resync Lagged su)
      | (Inl (FStale reason), su) \<Rightarrow> (None, resync (Stale reason) su)
      | (Inl (FEpochChanged from1 to1), su) \<Rightarrow> (None, resync (EpochChanged from1 to1) su)
      | (Inl FDisconnected, su) \<Rightarrow> (None, su\<lparr>su_tail := [], su_connected := False\<rparr>)
      | (Inl (FOther e), su) \<Rightarrow> (Some (Inl e), su))"

definition pass :: "answers \<Rightarrow> subscription \<Rightarrow> (client_error + event) option \<times> subscription" where
  "pass an su =
     (case su_pending su of
        (evt, cursor) # rest \<Rightarrow>
          (Some (Inr evt), su\<lparr>su_pending := rest,
             su_cursor := (case cursor of None \<Rightarrow> su_cursor su | Some c \<Rightarrow> c)\<rparr>)
      | [] \<Rightarrow>
          (if \<not> su_connected su then
             (case connect an su of
                (Inr u, su) \<Rightarrow> (None, push_event (Resync Disconnected) None su)
              | (Inl e, su) \<Rightarrow> (None, su))
           else case su_state su of
             NeedBootstrap \<Rightarrow> bootstrap_pass an su
           | Following \<Rightarrow> follow_pass an su))"

text \<open>\<open>next\<close>: the answer, the number of passes so far, and the subscription. A call that never returns is \<open>None\<close>.\<close>

partial_function (option) next_event ::
    "(nat \<Rightarrow> answers) \<Rightarrow> nat \<Rightarrow> subscription \<Rightarrow> ((client_error + event) \<times> nat \<times> subscription) option" where
  "next_event world n su =
     (case pass (world n) su of
        (Some r, su') \<Rightarrow> Some (r, n + 1, su')
      | (None, su') \<Rightarrow> next_event world (n + 1) su')"

section \<open>Read your writes\<close>

text \<open>\<open>wait_for\<close>: the timeout in milliseconds is cut to an \<open>i32\<close>.\<close>

definition client_timeout :: "int \<Rightarrow> int" where
  "client_timeout timeout_ms = min timeout_ms (2 ^ 31 - 1)"

definition client_wait_for :: "(string \<Rightarrow> string \<Rightarrow> int \<Rightarrow> pg_error + bool) \<Rightarrow> string \<Rightarrow> int \<Rightarrow> subscription \<Rightarrow> client_error + bool" where
  "client_wait_for ask l timeout_ms su =
     (if \<not> su_connected su then Inl NotConnected
      else case ask (su_view su) l (client_timeout timeout_ms) of Inl e \<Rightarrow> Inl (Postgres e) | Inr b \<Rightarrow> Inr b)"

end
