(* ===== verification/Client_Facts.thy ===== *)
theory Client_Facts
  imports Client Api_Theorems
begin

text \<open>
  Facts on the client: reports as the client classifies them, grouping of rows, the chain of cursors
  through the pending events, and following a server whose log does not change.
\<close>

section \<open>Reports and failures\<close>

lemma last_word_append: "CHR '' '' \<notin> set w \<Longrightarrow> last_word (s @ CHR '' '' # w) = w"
proof -
  assume "CHR '' '' \<notin> set w"
  then have "takeWhile (\<lambda>c. c \<noteq> CHR '' '') (rev w @ CHR '' '' # rev s) = rev w"
    by (subst takeWhile_append2) auto
  then show ?thesis by (simp add: last_word_def)
qed

lemma c_string_id [simp]: "CHR 0x00 \<notin> set s \<Longrightarrow> c_string s = s"
  by (simp add: c_string_def)

lemma int_text_chars: "c \<in> set (int_text n) \<Longrightarrow> c = CHR ''-'' \<or> is_digit c"
  using nat_text_digits [of n c] nat_text_digits [of "- n" c] by (auto simp: int_text_def split: if_splits)

lemma int_text_no_NUL: "CHR 0x00 \<notin> set (int_text n)"
  using int_text_chars [of "CHR 0x00" n] by (auto simp: is_digit_def digit_value_def)

text \<open>The detail of \<open>epoch_changed\<close> ends with the new epoch.\<close>

lemma new_epoch_report:
  assumes "- (2 ^ 31) \<le> to1" and "to1 < 2 ^ 31"
  shows "new_epoch (epoch_changed name from1 to1) epoch = to1"
proof -
  let ?d = "(''epoch '' @ int_text from1 @ '' ->'') @ CHR '' '' # int_text to1"
  have d: "''epoch '' @ int_text from1 @ '' -> '' @ int_text to1 = ?d" by simp
  have "CHR 0x00 \<notin> set ?d" using int_text_no_NUL by auto
  then have "rp_detail (epoch_changed name from1 to1) = Some ?d"
    unfolding epoch_changed_def raise_sqlstate_def d by (simp del: append_Cons append_assoc)
  moreover have "last_word ?d = int_text to1" by (rule last_word_append) (rule int_text_no_space)
  moreover have "parse_int 32 (int_text to1) = Some to1" using assms by (intro parse_int_text) simp_all
  ultimately show ?thesis by (simp add: new_epoch_def)
qed

section \<open>Grouping\<close>

lemma tx_groups_snoc: "tx_groups (rows @ [r]) = add_row (tx_groups rows) r"
  by (simp add: tx_groups_def)

lemma tx_groups_Nil [simp]: "tx_groups [] = []"
  by (simp add: tx_groups_def)

lemma add_row_Nil: "add_row [] r = [[r]]"
  by (simp add: add_row_def)

lemma add_row_same: "same_transaction (hd g) r \<Longrightarrow> add_row (gs @ [g]) r = gs @ [g @ [r]]"
  by (simp add: add_row_def)

lemma add_row_other: "\<not> same_transaction (hd g) r \<Longrightarrow> add_row (gs @ [g]) r = (gs @ [g]) @ [[r]]"
  by (simp add: add_row_def)

text \<open>How one more row changes the groups.\<close>

lemma tx_groups_snocE:
  obtains "rows = []" "tx_groups (rows @ [r]) = [[r]]"
  | gs g where "tx_groups rows = gs @ [g]" "same_transaction (hd g) r" "tx_groups (rows @ [r]) = gs @ [g @ [r]]"
  | gs g where "tx_groups rows = gs @ [g]" "\<not> same_transaction (hd g) r" "tx_groups (rows @ [r]) = gs @ [g] @ [[r]]"
proof (cases "tx_groups rows" rule: rev_cases)
  case Nil
  have "rows = []"
  proof (rule ccontr)
    assume "rows \<noteq> []"
    then obtain ys y where "rows = ys @ [y]" by (cases rows rule: rev_cases) auto
    with Nil show False by (auto simp: tx_groups_snoc add_row_def split: if_splits)
  qed
  with that(1) show thesis by (simp add: tx_groups_def add_row_Nil)
next
  case (snoc gs g)
  with that(2,3) show thesis
    by (cases "same_transaction (hd g) r") (simp_all add: tx_groups_snoc add_row_same add_row_other)
qed

lemma tx_groups_eq_Nil [simp]: "tx_groups rows = [] \<longleftrightarrow> rows = []"
proof (cases rows rule: rev_cases)
  case (snoc ys y)
  then show ?thesis by (cases rule: tx_groups_snocE [of ys y]) auto
qed simp

lemma concat_tx_groups [simp]: "concat (tx_groups rows) = rows"
proof (induction rows rule: rev_induct)
  case Nil
  show ?case by simp
next
  case (snoc r rows)
  then show ?case by (cases rule: tx_groups_snocE [of rows r]) auto
qed

lemma tx_groups_uniform: "g \<in> set (tx_groups rows) \<Longrightarrow> g \<noteq> [] \<and> (\<forall>r \<in> set g. same_transaction (hd g) r)"
proof (induction rows arbitrary: g rule: rev_induct)
  case Nil
  then show ?case by simp
next
  case (snoc x rows)
  note IH = snoc.IH
  show ?case
  proof (cases rule: tx_groups_snocE [of rows x])
    case 1
    then show ?thesis using snoc.prems by (simp add: same_transaction_def)
  next
    case (2 gs h)
    then consider "g \<in> set (tx_groups rows)" | "g = h @ [x]" using snoc.prems by auto
    then show ?thesis
    proof cases
      case 1
      then show ?thesis by (rule IH)
    next
      case g: 2
      have "h \<noteq> [] \<and> (\<forall>r \<in> set h. same_transaction (hd h) r)" by (rule IH) (simp add: 2)
      with g 2(2) show ?thesis by simp
    qed
  next
    case (3 gs h)
    then consider "g \<in> set (tx_groups rows)" | "g = [x]" using snoc.prems by auto
    then show ?thesis by cases (use IH in \<open>auto simp: same_transaction_def\<close>)
  qed
qed

lemmas tx_groups_nonempty = tx_groups_uniform [THEN conjunct1]

text \<open>Grouping goes on from the last group.\<close>

lemma foldl_add_row: "foldl add_row (gs @ [g]) rows = gs @ foldl add_row [g] rows"
proof (induction rows arbitrary: gs g)
  case Nil
  show ?case by simp
next
  case (Cons r rows)
  show ?case
  proof (cases "same_transaction (hd g) r")
    case True
    then show ?thesis
      using Cons [of gs "g @ [r]"] add_row_same [of g r gs] add_row_same [of g r "[]"] by simp
  next
    case False
    then have "foldl add_row (gs @ [g]) (r # rows) = (gs @ [g]) @ foldl add_row [[r]] rows"
      using Cons [of "gs @ [g]" "[r]"] add_row_other [of g r gs] by simp
    moreover have "foldl add_row [g] (r # rows) = [g] @ foldl add_row [[r]] rows"
      using False Cons [of "[g]" "[r]"] add_row_other [of g r "[]"] by simp
    ultimately show ?thesis by simp
  qed
qed

text \<open>A group is its own grouping.\<close>

lemma foldl_same:
  "\<forall>r \<in> set rows. same_transaction (hd g) r \<Longrightarrow> g \<noteq> [] \<Longrightarrow> foldl add_row [g] rows = [g @ rows]"
proof (induction rows arbitrary: g)
  case Nil
  then show ?case by simp
next
  case (Cons r rows)
  then show ?case using Cons.IH [of "g @ [r]"] by (simp add: add_row_def)
qed

lemma group_of_group:
  assumes "g \<in> set (tx_groups rows)"
  shows "foldl add_row [g] xs = tx_groups (g @ xs)"
proof -
  have ne: "g \<noteq> []" by (rule tx_groups_nonempty [OF assms])
  then obtain r rs where g: "g = r # rs" by (cases g) auto
  have "foldl add_row [[r]] rs = [[r] @ rs]"
    by (rule foldl_same) (use tx_groups_uniform [OF assms] g in auto)
  then have "tx_groups g = [g]" by (simp add: tx_groups_def g add_row_def)
  then show ?thesis by (simp add: tx_groups_def)
qed

lemma tx_groups_append:
  assumes "tx_groups xs = gs @ [g]"
  shows "tx_groups (xs @ ys) = gs @ tx_groups (g @ ys)"
proof -
  have "tx_groups (xs @ ys) = foldl add_row (gs @ [g]) ys" using assms by (simp add: tx_groups_def)
  also have "\<dots> = gs @ foldl add_row [g] ys" by (rule foldl_add_row)
  also have "foldl add_row [g] ys = tx_groups (g @ ys)" by (rule group_of_group [of g xs]) (simp add: assms)
  finally show ?thesis .
qed

section \<open>Cursors\<close>

text \<open>
  The pending events lead from one cursor to another: a transaction goes on where the one before it
  ended, a snapshot sets the cursor, a resync leaves it.
\<close>

fun chain :: "int \<Rightarrow> (event \<times> int option) list \<Rightarrow> int \<Rightarrow> bool" where
  "chain c [] c' \<longleftrightarrow> c = c'"
| "chain c ((Transaction xid l epoch ds, cur) # es) c' \<longleftrightarrow>
     (\<exists>e. cur = Some e \<and> c < e \<and> map cd_seq ds = [c + 1 .. e] \<and> chain e es c')"
| "chain c ((Snapshot epoch f s rows, cur) # es) c' \<longleftrightarrow> cur = Some s \<and> chain s es c'"
| "chain c ((Resync reason, cur) # es) c' \<longleftrightarrow> cur = None \<and> chain c es c'"

lemma chain_append: "chain c (es @ fs) c' \<longleftrightarrow> (\<exists>m. chain c es m \<and> chain m fs c')"
  by (induction c es c' rule: chain.induct) auto

definition su_ok :: "subscription \<Rightarrow> bool" where
  "su_ok su \<longleftrightarrow> (\<exists>c. chain (su_cursor su) (su_pending su) c \<and>
     map cw_seq (su_tail su) = [c + 1 .. c + int (length (su_tail su))])"

lemma parse_rows_seqs:
  "parse_rows k rows = Inr ws \<Longrightarrow> map cw_seq ws = [k .. k + int (length ws) - 1] \<and> length ws = length rows"
proof (induction rows arbitrary: k ws)
  case Nil
  then show ?case by simp
next
  case (Cons r rs)
  from Cons.prems obtain w ws' where w: "parse_rows (k + 1) rs = Inr ws'" "ws = w # ws'" "cw_seq w = k"
    by (auto simp: rbind_Inr_iff split: if_splits)
  from Cons.IH [OF w(1)] w(2,3) show ?case by (simp add: upto_rec1 [of k])
qed

text \<open>Groups of consecutive rows are a chain.\<close>

lemma chain_groups:
  assumes "map cw_seq (concat gs) = [c + 1 .. c + int (length (concat gs))]" and "\<forall>g \<in> set gs. g \<noteq> []"
  shows "chain c (map (group_event epoch) gs) (c + int (length (concat gs)))"
  using assms
proof (induction gs arbitrary: c)
  case Nil
  then show ?case by simp
next
  case (Cons g gs)
  let ?m = "c + int (length g)"
  have ne: "g \<noteq> []" using Cons.prems(2) by simp
  have split: "[c + 1 .. c + int (length (concat (g # gs)))] = [c + 1 .. ?m] @ [?m + 1 .. ?m + int (length (concat gs))]"
    using upto_append [of "c + 1" ?m "?m + int (length (concat gs))"] by (simp add: add.assoc)
  have "length (map cw_seq g) = length [c + 1 .. ?m]" by simp
  then have s: "map cw_seq g = [c + 1 .. ?m]" "map cw_seq (concat gs) = [?m + 1 .. ?m + int (length (concat gs))]"
    using Cons.prems(1) unfolding split by (simp_all add: append_eq_append_conv)
  have "cw_seq (last g) = ?m"
  proof -
    have "cw_seq (last g) = last (map cw_seq g)" using ne by (simp add: last_map)
    also have "\<dots> = ?m" unfolding s(1) using ne by (subst upto_rec2) (auto simp: neq_Nil_conv)
    finally show ?thesis .
  qed
  moreover have "chain ?m (map (group_event epoch) gs) (?m + int (length (concat gs)))"
    using Cons.IH [OF s(2)] Cons.prems(2) by simp
  moreover have "\<exists>xid l ds. group_event epoch g = (Transaction xid l epoch ds, Some (cw_seq (last g))) \<and>
      map cd_seq ds = map cw_seq g"
    by (simp add: group_event_def comp_def)
  ultimately show ?case using s(1) ne by (auto simp: add.assoc)
qed

section \<open>Every pass keeps the chain\<close>

lemma su_ok_no_pending:
  assumes "su_ok su" and "su_pending su = []"
  shows "map cw_seq (su_tail su) = [su_cursor su + 1 .. su_cursor su + int (length (su_tail su))]"
    "fetch_after su = su_cursor su + int (length (su_tail su))"
proof -
  show s: "map cw_seq (su_tail su) = [su_cursor su + 1 .. su_cursor su + int (length (su_tail su))]"
    using assms by (simp add: su_ok_def)
  show "fetch_after su = su_cursor su + int (length (su_tail su))"
  proof (cases "su_tail su = []")
    case False
    then have "cw_seq (last (su_tail su)) = last (map cw_seq (su_tail su))" by (simp add: last_map)
    also have "\<dots> = su_cursor su + int (length (su_tail su))"
      unfolding s using False by (subst upto_rec2) (auto simp: neq_Nil_conv)
    finally show ?thesis using False by (simp add: fetch_after_def)
  qed (simp add: fetch_after_def)
qed

lemma upto_append_int:
  "[c + 1 .. c + int m] @ [c + int m + 1 .. c + int m + int n] = [c + 1 .. c + int m + int n]"
  using upto_append [of "c + 1" "c + int m" "c + int m + int n"] by simp

lemma su_ok_empty: "su_pending su = [] \<Longrightarrow> su_tail su = [] \<Longrightarrow> su_ok su"
  by (auto simp: su_ok_def)

lemma su_ok_push_resync: "su_ok su \<Longrightarrow> su_ok (push_event (Resync reason) None su)"
  by (fastforce simp: su_ok_def push_event_def chain_append)

lemma su_ok_drop_tail: "su_ok su \<Longrightarrow> su_ok (su\<lparr>su_tail := [], su_connected := b\<rparr>)"
  by (auto simp: su_ok_def)

lemma su_ok_fields:
  "su_ok (su\<lparr>su_connected := b\<rparr>) = su_ok su" "su_ok (su\<lparr>su_stale_backoff := k\<rparr>) = su_ok su"
  "su_ok (su\<lparr>su_view := name\<rparr>) = su_ok su" "su_ok (su\<lparr>su_state := st\<rparr>) = su_ok su"
  by (simp_all add: su_ok_def)

lemma su_ok_resync: "su_ok su \<Longrightarrow> su_ok (resync reason su)"
  using su_ok_push_resync [of su reason] by (auto simp: resync_def su_ok_def)

lemma su_ok_connect: "su_ok su \<Longrightarrow> connect an su = (r, su') \<Longrightarrow> su_ok su'"
  by (auto simp: connect_def Let_def su_ok_def split: sum.splits)

lemma su_ok_take_rows:
  assumes "su_ok su" and "su_pending su = []"
    and "map cw_seq ws = [fetch_after su + 1 .. fetch_after su + int (length ws)]"
  shows "su_ok (take_rows full ws su)"
proof -
  let ?all = "su_tail su @ ws" and ?c = "su_cursor su"
  define gs where "gs = tx_groups ?all"
  have cat: "concat gs = ?all" by (simp add: gs_def)
  have seqs: "map cw_seq ?all = [?c + 1 .. ?c + int (length ?all)]"
    using su_ok_no_pending [OF assms(1,2)] assms(3) upto_append_int [of ?c "length (su_tail su)" "length ws"]
    by (simp add: add.assoc)
  have ne: "\<forall>g \<in> set gs. g \<noteq> []" by (auto simp: gs_def dest: tx_groups_nonempty)
  show ?thesis
  proof (cases "full \<and> gs \<noteq> []")
    case True
    then obtain gs' g where g: "gs = gs' @ [g]" by (cases gs rule: rev_cases) auto
    let ?n = "length (concat gs')"
    have "length ?all = ?n + length g" using arg_cong [OF cat, of length] by (simp add: g)
    then have "[?c + 1 .. ?c + int (length ?all)] = [?c + 1 .. ?c + int ?n] @ [?c + int ?n + 1 .. ?c + int ?n + int (length g)]"
      by (simp only: upto_append_int of_nat_add add.assoc [symmetric])
    then have "map cw_seq (concat gs') @ map cw_seq g =
        [?c + 1 .. ?c + int ?n] @ [?c + int ?n + 1 .. ?c + int ?n + int (length g)]"
      using seqs unfolding cat [symmetric] by (simp add: g)
    moreover have "length (map cw_seq (concat gs')) = length [?c + 1 .. ?c + int ?n]" by simp
    ultimately have s: "map cw_seq (concat gs') = [?c + 1 .. ?c + int ?n]"
        "map cw_seq g = [?c + int ?n + 1 .. ?c + int ?n + int (length g)]"
      using append_eq_append_conv [OF disjI1] by blast+
    have "chain ?c (map (group_event (su_epoch su)) gs') (?c + int ?n)"
      by (rule chain_groups [OF s(1)]) (use ne g in auto)
    then show ?thesis
      using True s(2) g assms(2) by (auto simp: take_rows_def Let_def su_ok_def gs_def [symmetric])
  next
    case False
    have "chain ?c (map (group_event (su_epoch su)) gs) (?c + int (length (concat gs)))"
      by (rule chain_groups) (use ne seqs cat in auto)
    then show ?thesis
      using False assms(2) by (auto simp: take_rows_def Let_def su_ok_def gs_def [symmetric])
  qed
qed

lemma su_ok_fetch: "su_ok su \<Longrightarrow> su_pending su = [] \<Longrightarrow> fetch an su = (r, su') \<Longrightarrow> su_ok su'"
  by (auto simp: fetch_def split: if_splits sum.splits dest: parse_rows_seqs intro!: su_ok_take_rows)

lemma su_ok_follow_pass:
  "su_ok su \<Longrightarrow> su_pending su = [] \<Longrightarrow> follow_pass an su = (r, su') \<Longrightarrow> su_ok su'"
  by (auto simp: follow_pass_def su_ok_fields
      split: if_splits prod.splits sum.splits failure.splits
      intro: su_ok_fetch intro!: su_ok_resync su_ok_drop_tail)

lemma su_ok_bootstrap: "su_ok su \<Longrightarrow> su_pending su = [] \<Longrightarrow> bootstrap an su = (r, su') \<Longrightarrow> su_ok su'"
  by (auto simp: bootstrap_def push_event_def su_ok_def
      split: if_splits sum.splits prod.splits boot.splits option.splits event.splits)

lemma su_ok_bootstrap_pass:
  "su_ok su \<Longrightarrow> su_pending su = [] \<Longrightarrow> bootstrap_pass an su = (r, su') \<Longrightarrow> su_ok su'"
  using su_ok_bootstrap [of su an]
  by (auto simp: bootstrap_pass_def su_ok_fields
      split: prod.splits sum.splits failure.splits boot.splits
      intro!: su_ok_push_resync)

text \<open>What handing out an event does to the cursor.\<close>

fun delivers :: "int \<Rightarrow> event \<Rightarrow> int \<Rightarrow> bool" where
  "delivers c (Transaction xid l epoch ds) c' \<longleftrightarrow> c < c' \<and> map cd_seq ds = [c + 1 .. c']"
| "delivers c (Snapshot epoch f s rows) c' \<longleftrightarrow> c' = s"
| "delivers c (Resync reason) c' \<longleftrightarrow> c' = c"

lemma no_event_pass: "fst (follow_pass an su) \<noteq> Some (Inr evt)" "fst (bootstrap_pass an su) \<noteq> Some (Inr evt)"
  by (auto simp: follow_pass_def bootstrap_pass_def split: prod.splits sum.splits failure.splits boot.splits)

lemma pass_ok:
  assumes "su_ok su" and "pass an su = (r, su')"
  shows "su_ok su' \<and> (\<forall>evt. r = Some (Inr evt) \<longrightarrow> delivers (su_cursor su) evt (su_cursor su'))"
proof (cases "su_pending su")
  case Nil
  have "r \<noteq> Some (Inr evt)" for evt
    using assms(2) Nil no_event_pass [of an su evt]
    by (auto simp: pass_def split: if_splits prod.splits sum.splits client_state.splits)
  moreover have "su_ok su'"
    using assms Nil
    by (auto simp: pass_def split: if_splits prod.splits sum.splits client_state.splits
        intro: su_ok_follow_pass su_ok_bootstrap_pass su_ok_connect intro!: su_ok_push_resync)
  ultimately show ?thesis by blast
next
  case (Cons p rest)
  obtain evt cur where p: "p = (evt, cur)" by (cases p)
  have su': "su' = su\<lparr>su_pending := rest, su_cursor := (case cur of None \<Rightarrow> su_cursor su | Some c \<Rightarrow> c)\<rparr>"
    and r: "r = Some (Inr evt)"
    using assms(2) by (simp_all add: pass_def Cons p)
  have "delivers (su_cursor su) evt (su_cursor su') \<and> su_ok su'"
    using assms(1) by (cases evt) (auto simp: su_ok_def Cons p su')
  with r show ?thesis by simp
qed

section \<open>The loop\<close>

text \<open>A pass without an answer leaves the cursor, or takes a snapshot that is handed out next.\<close>

lemma fetch_cursor: "fetch an su = (r, su') \<Longrightarrow> su_cursor su' = su_cursor su"
  by (auto simp: fetch_def take_rows_def Let_def split: if_splits sum.splits)

lemma connect_cursor: "connect an su = (r, su') \<Longrightarrow> su_cursor su' = su_cursor su"
  by (auto simp: connect_def Let_def split: sum.splits)

lemma bootstrap_cursor:
  "bootstrap an su = (r, su') \<Longrightarrow> su_pending su = [] \<Longrightarrow> su_cursor su' = su_cursor su \<or>
    (r = Inr BootReady \<and> (\<exists>e f s rows. su_pending su' = [(Snapshot e f s rows, Some s)]))"
  by (auto simp: bootstrap_def push_event_def
      split: if_splits sum.splits prod.splits boot.splits option.splits event.splits)

lemma pass_cursor:
  assumes "pass an su = (None, su')"
  shows "su_cursor su' = su_cursor su \<or> (\<exists>e f s rows. su_pending su' = [(Snapshot e f s rows, Some s)])"
proof -
  have p: "su_pending su = []" using assms by (auto simp: pass_def split: list.splits)
  have "su_cursor su' = su_cursor su \<or> (\<exists>e f s rows. su_pending su' = [(Snapshot e f s rows, Some s)])"
    if "bootstrap_pass an su = (None, su')"
    using that bootstrap_cursor [OF _ p, of an]
    by (auto simp: bootstrap_pass_def push_event_def split: prod.splits sum.splits failure.splits boot.splits)
  moreover have "su_cursor su' = su_cursor su" if "follow_pass an su = (None, su')"
    using that fetch_cursor [of an su]
    by (auto simp: follow_pass_def resync_def push_event_def
        split: if_splits prod.splits sum.splits failure.splits)
  ultimately show ?thesis
    using assms connect_cursor [of an su]
    by (auto simp: pass_def p push_event_def split: if_splits prod.splits sum.splits client_state.splits)
qed

lemma next_event_ok:
  assumes "next_event world n su = Some y" and "su_ok su"
  shows "su_ok (snd (snd y)) \<and>
    (\<forall>evt. fst y = Inr evt \<longrightarrow> delivers (su_cursor su) evt (su_cursor (snd (snd y)))) \<and>
    (su_pending su \<noteq> [] \<longrightarrow> fst y = Inr (fst (hd (su_pending su))))"
  using assms
proof (induction world n su y rule: next_event.raw_induct [rotated, consumes 1, case_names step])
  case (step f world n su y)
  obtain r1 su1 where p: "pass (world n) su = (r1, su1)" by (cases "pass (world n) su")
  note ok = pass_ok [OF step.prems p]
  show ?case
  proof (cases r1)
    case None
    have pend: "su_pending su = []" using p None by (auto simp: pass_def split: list.splits)
    have "f world (n + 1) su1 = Some y" using step.hyps p None by simp
    from step.IH [OF this] ok
    have IH: "su_ok (snd (snd y))"
        "fst y = Inr evt \<Longrightarrow> delivers (su_cursor su1) evt (su_cursor (snd (snd y)))"
        "su_pending su1 \<noteq> [] \<Longrightarrow> fst y = Inr (fst (hd (su_pending su1)))" for evt
      by blast+
    have "delivers (su_cursor su) evt (su_cursor (snd (snd y)))" if "fst y = Inr evt" for evt
      using pass_cursor [OF p [unfolded None]] IH(2) [OF that] IH(3) that by auto
    with IH(1) pend show ?thesis by blast
  next
    case (Some r2)
    then have y: "y = (r2, n + 1, su1)" using step.hyps p by simp
    have "su_pending su \<noteq> [] \<longrightarrow> r2 = Inr (fst (hd (su_pending su)))"
      using p Some by (auto simp: pass_def split: list.splits)
    with ok y Some show ?thesis by simp
  qed
qed

text \<open>Neighbouring groups belong to different transactions.\<close>

lemma tx_groups_apart: "successively (\<lambda>g h. \<not> same_transaction (hd g) (hd h)) (tx_groups rows)"
proof (induction rows rule: rev_induct)
  case Nil
  show ?case by simp
next
  case (snoc r rows)
  show ?case
  proof (cases rule: tx_groups_snocE [of rows r])
    case 1
    then show ?thesis by simp
  next
    case (2 gs g)
    then have "g \<noteq> []" using tx_groups_nonempty [of g rows] by simp
    with 2 snoc show ?thesis by (auto simp: successively_append_iff)
  next
    case (3 gs g)
    with snoc show ?thesis by (auto simp: successively_append_iff)
  qed
qed

lemma take_rows_eq:
  "take_rows full rows su =
    su\<lparr>su_tail := (if full \<and> su_tail su @ rows \<noteq> [] then last (tx_groups (su_tail su @ rows)) else []),
       su_pending := su_pending su @ map (group_event (su_epoch su))
         (if full \<and> su_tail su @ rows \<noteq> [] then butlast (tx_groups (su_tail su @ rows))
          else tx_groups (su_tail su @ rows))\<rparr>"
  by (simp only: take_rows_def Let_def tx_groups_eq_Nil)

lemma chain_group_Cons:
  "chain c (group_event epoch g # es) m \<longleftrightarrow>
    c < cw_seq (last g) \<and> map cw_seq g = [c + 1 .. cw_seq (last g)] \<and> chain (cw_seq (last g)) es m"
  by (simp add: group_event_def comp_def)

lemma chain_events: "chain c (map (group_event epoch) gs) m \<Longrightarrow> m = c + int (length (concat gs))"
proof (induction gs arbitrary: c)
  case Nil
  then show ?case by simp
next
  case (Cons g gs)
  then obtain e where e: "c < e" "map cw_seq g = [c + 1 .. e]" "chain e (map (group_event epoch) gs) m"
    by (auto simp: chain_group_Cons)
  from arg_cong [OF e(2), of length] e(1) have "e = c + int (length g)" by simp
  with Cons.IH [OF e(3)] show ?case by simp
qed


section \<open>The log as the client reads it\<close>

text \<open>A delta of the log as the client reads it.\<close>

definition client_row_of :: "api \<Rightarrow> string list \<Rightarrow> delta_entry \<Rightarrow> client_row" where
  "client_row_of ap hidden e =
     \<lparr>cw_seq = de_seq e, cw_lsn = lsn_format (de_lsn e), cw_xid = Some (uint (de_xid e)),
      cw_op = (if de_op e = CHR ''I'' then InsertOp else DeleteOp), cw_row = minus_keys (ap_json ap (de_row e)) hidden\<rparr>"

lemma cw_seq_of [simp]: "cw_seq (client_row_of ap hidden e) = de_seq e"
  by (simp add: client_row_of_def)

lemma parse_rows_served:
  assumes "map de_seq es = [k .. b]" and "\<forall>e \<in> set es. de_op e \<in> {CHR ''I'', CHR ''D''}"
  shows "parse_rows k (map (change_row ap hidden) es) = Inr (map (client_row_of ap hidden) es)"
  using assms
proof (induction es arbitrary: k)
  case Nil
  show ?case by simp
next
  case (Cons e es)
  have "k \<le> b" using Cons.prems(1) by (cases "k \<le> b") auto
  with Cons.prems(1) have "de_seq e = k" "map de_seq es = [k + 1 .. b]" by (auto simp: upto_rec1 [of k b])
  with Cons.IH [of "k + 1"] Cons.prems(2) show ?case
    by (auto simp: change_row_def client_row_of_def)
qed

text \<open>The first \<open>k\<close> events a client hands out.\<close>

fun deliver :: "nat \<Rightarrow> (nat \<Rightarrow> answers) \<Rightarrow> nat \<Rightarrow> subscription \<Rightarrow> (event list \<times> nat \<times> subscription) option" where
  "deliver 0 world n su = Some ([], n, su)"
| "deliver (Suc k) world n su =
     (case next_event world n su of
        Some (Inr evt, n', su') \<Rightarrow> map_option (\<lambda>(es, m, su''). (evt # es, m, su'')) (deliver k world n' su')
      | _ \<Rightarrow> None)"

lemma after_seq_drop:
  assumes "map de_seq (after_seq p es) = [p + 1 .. b]" and "n \<le> length (after_seq p es)"
  shows "after_seq (p + int n) es = drop n (after_seq p es)"
proof -
  let ?l = "after_seq p es"
  have "after_seq (p + int n) es = filter (\<lambda>e. de_seq e > p + int n) ?l"
    by (auto simp: after_seq_def intro!: filter_cong)
  also have "\<dots> = filter (\<lambda>e. de_seq e > p + int n) (take n ?l) @ filter (\<lambda>e. de_seq e > p + int n) (drop n ?l)"
    by (metis append_take_drop_id filter_append)
  also have "filter (\<lambda>e. de_seq e > p + int n) (take n ?l) = []"
    using nth_seq [OF assms(1)] by (auto simp: filter_empty_conv in_set_conv_nth)
  also have "filter (\<lambda>e. de_seq e > p + int n) (drop n ?l) = drop n ?l"
    using nth_seq [OF assms(1)] by (auto simp: filter_id_conv in_set_conv_nth)
  finally show ?thesis by simp
qed

end
