(* ===== verification/Client_Source.thy ===== *)
theory Client_Source
  imports Client_Facts
begin

text \<open>
  The interface between the client and the server's delta log. The locale says what a following client
  relies on: an answer is a page of the log right after the number asked for, at least a batch long
  unless it is the rest. Inside it the client delivers the log. \<open>changes\<close> of \<open>src/src/api.rs\<close> provides it.
\<close>

section \<open>The interface\<close>

text \<open>
  \<open>s\<close> stands for the server's side of one subscription: \<open>ask s k batch\<close> is its answer, \<open>rows s k\<close> the log
  after number \<open>k\<close> as the client reads it, \<open>end_of s\<close> the last number, and \<open>serving s k\<close> says that it can
  answer from \<open>k\<close>.
\<close>

locale delta_source =
  fixes ask :: "'s \<Rightarrow> int \<Rightarrow> int \<Rightarrow> pg_error + change_row list"
    and rows :: "'s \<Rightarrow> int \<Rightarrow> client_row list"
    and end_of :: "'s \<Rightarrow> int"
    and serving :: "'s \<Rightarrow> int \<Rightarrow> bool"
  assumes seqs: "serving s k \<Longrightarrow> map cw_seq (rows s k) = [k + 1 .. end_of s]"
    and serving_later: "serving s k \<Longrightarrow> k \<le> k' \<Longrightarrow> k' \<le> end_of s \<Longrightarrow> serving s k'"
    and serving_end: "serving s k \<Longrightarrow> k \<le> end_of s"
    and rows_later: "serving s k \<Longrightarrow> n \<le> length (rows s k) \<Longrightarrow> rows s (k + int n) = drop n (rows s k)"
    and page: "serving s k \<Longrightarrow> \<exists>n answer. ask s k batch = Inr answer \<and>
      parse_rows (k + 1) answer = Inr (take n (rows s k)) \<and> n \<le> length (rows s k) \<and>
      (nat (max batch 1) \<le> n \<or> n = length (rows s k))"
begin

lemma rows_length: "serving s k \<Longrightarrow> int (length (rows s k)) = end_of s - k"
  using arg_cong [OF seqs, of s k length] serving_end [of s k] by simp

text \<open>The connection answers the requests of this subscription from \<open>s\<close>.\<close>

definition answered :: "'s \<Rightarrow> answers \<Rightarrow> subscription \<Rightarrow> bool" where
  "answered s an su \<longleftrightarrow> an_wakeup an \<noteq> Closed \<and>
     (\<forall>k batch. an_changes an (su_view su) k (su_epoch su) batch (op_keep_hidden (su_options su)) = ask s k batch)"

text \<open>
  A client with \<open>R\<close> the rows it has not asked for yet and \<open>gs\<close> the transactions it has still to hand out.
\<close>

definition awaiting :: "'s \<Rightarrow> subscription \<Rightarrow> client_row list \<Rightarrow> client_row list list \<Rightarrow> bool" where
  "awaiting s su R gs \<longleftrightarrow>
     su_connected su \<and> su_state su = Following \<and>
     (let p = end_of s - int (length R); m = p - int (length (su_tail su)) in
      serving s p \<and> R = rows s p \<and> map cw_seq (su_tail su) = [m + 1 .. p] \<and>
      chain (su_cursor su) (su_pending su) m \<and>
      (\<exists>gs1. su_pending su = map (group_event (su_epoch su)) gs1 \<and> gs = gs1 @ tx_groups (su_tail su @ R)))"

text \<open>What a following client never changes.\<close>

definition same_request :: "subscription \<Rightarrow> subscription \<Rightarrow> bool" where
  "same_request su su' \<longleftrightarrow> su_view su' = su_view su \<and> su_epoch su' = su_epoch su \<and> su_options su' = su_options su"

lemma answered_same: "same_request su su' \<Longrightarrow> answered s an su' = answered s an su"
  by (simp add: same_request_def answered_def)

lemma awaiting_start:
  assumes "serving s (su_cursor su)" and "su_connected su" and "su_state su = Following"
    and "su_pending su = []" and "su_tail su = []"
  shows "awaiting s su (rows s (su_cursor su)) (tx_groups (rows s (su_cursor su)))"
  using assms rows_length [OF assms(1)] by (simp add: awaiting_def Let_def)

lemma awaiting_end:
  assumes "awaiting s su R []"
  shows "su_pending su = []" "su_tail su = []" "su_cursor su = end_of s"
  using assms by (auto simp: awaiting_def Let_def)

section \<open>One pass\<close>

lemma fetch_answered:
  assumes "awaiting s su R gs" and "su_pending su = []" and "answered s an su"
  obtains n where "n \<le> length R" "nat (max (op_batch (su_options su)) 1) \<le> n \<or> n = length R"
    "fetch an su = (Inr (), take_rows (int n \<ge> op_batch (su_options su)) (take n R) su)"
    "su_ok su" "map cw_seq (take n R) = [fetch_after su + 1 .. fetch_after su + int n]"
proof -
  define p where "p = end_of s - int (length R)"
  note a = assms(1) [unfolded awaiting_def Let_def, folded p_def]
  have R: "R = rows s p" and sv: "serving s p" using a by blast+
  have ok: "su_ok su" using a assms(2) by (auto simp: su_ok_def)
  have after: "fetch_after su = p" using a assms(2) su_ok_no_pending(2) [OF ok assms(2)] by simp
  obtain n answer where n: "ask s p (op_batch (su_options su)) = Inr answer"
      "parse_rows (p + 1) answer = Inr (take n R)" "n \<le> length R"
      "nat (max (op_batch (su_options su)) 1) \<le> n \<or> n = length R"
    using page [OF sv] unfolding R by blast
  have l: "length answer = n" using parse_rows_seqs [OF n(2)] n(3) by simp
  have l': "map cw_seq (take n R) = [p + 1 .. p + int n]" using parse_rows_seqs [OF n(2), THEN conjunct1] n(3) by simp
  have "fetch an su = (Inr (), take_rows (int n \<ge> op_batch (su_options su)) (take n R) su)"
    using a assms(3) n(1,2) l by (simp add: fetch_def answered_def after)
  with that n(3,4) ok l' after show thesis by simp
qed

text \<open>What \<open>take_rows\<close> does to the transactions still to hand out.\<close>

lemma awaiting_take_rows:
  assumes "awaiting s su R gs" and "su_pending su = []" and "n \<le> length R" and "full \<or> n = length R"
    and "su_ok su" and "map cw_seq (take n R) = [fetch_after su + 1 .. fetch_after su + int n]"
  defines "su' \<equiv> take_rows full (take n R) su"
  shows "awaiting s su' (drop n R) gs"
proof -
  define p where "p = end_of s - int (length R)"
  define all where "all = su_tail su @ take n R"
  define out where "out = (if full \<and> all \<noteq> [] then butlast (tx_groups all) else tx_groups all)"
  define tl' where "tl' = (if full \<and> all \<noteq> [] then last (tx_groups all) else [])"
  note a = assms(1) [unfolded awaiting_def Let_def, folded p_def]
  have R: "R = rows s p" and sv: "serving s p" using a by blast+
  have gs: "gs = tx_groups (su_tail su @ R)" using a assms(2) by simp
  have cur: "su_cursor su = p - int (length (su_tail su))" using a assms(2) by simp
  have p': "end_of s - int (length (drop n R)) = p + int n" using assms(3) by (simp add: p_def)
  have sv': "serving s (p + int n)"
    by (rule serving_later [OF sv]) (use rows_length [OF sv] R assms(3) in auto)
  have R': "drop n R = rows s (p + int n)" using rows_later [OF sv, of n] R assms(3) by simp
  have split: "su_tail su @ R = all @ drop n R" by (simp add: all_def)
  have su': "su' = su\<lparr>su_tail := tl', su_pending := map (group_event (su_epoch su)) out\<rparr>"
    using assms(2) by (simp only: su'_def take_rows_eq all_def out_def tl'_def append_Nil)
  have "su_ok su'"
    unfolding su'_def using assms(2,3,5,6) by (intro su_ok_take_rows) (simp_all add: min_def)
  then obtain m where m: "chain (su_cursor su) (map (group_event (su_epoch su)) out) m"
      "map cw_seq tl' = [m + 1 .. m + int (length tl')]"
    by (auto simp: su_ok_def su')
  have gs': "gs = out @ tx_groups (tl' @ drop n R)"
  proof (cases "full \<and> all \<noteq> []")
    case True
    then have "tx_groups all = out @ [tl']" by (simp add: out_def tl'_def)
    then show ?thesis unfolding gs split by (rule tx_groups_append)
  next
    case False
    then show ?thesis using assms(4) unfolding gs split by (auto simp: out_def tl'_def)
  qed
  have "concat out @ tl' = all" using arg_cong [OF gs', of concat] unfolding gs split by simp
  from arg_cong [OF this, of length] have "length (concat out) + length tl' = length (su_tail su) + n"
    using assms(3) by (simp add: all_def)
  then have "m = p + int n - int (length tl')" using chain_events [OF m(1)] cur by linarith
  note m = m [unfolded this]
  have k: "su_epoch su' = su_epoch su" "su_connected su' = su_connected su" "su_state su' = su_state su"
      "su_cursor su' = su_cursor su" "su_tail su' = tl'" "su_pending su' = map (group_event (su_epoch su)) out"
    by (simp_all add: su')
  have "map cw_seq tl' = [p + int n - int (length tl') + 1 .. p + int n]" using m(2) by simp
  then show ?thesis
    unfolding awaiting_def Let_def p' k using m(1) a sv' R' gs'
    by (intro conjI exI [of _ out]) blast+
qed

lemma pass_awaiting:
  assumes "awaiting s su R gs" and "su_pending su = []" and "answered s an su"
  obtains n su' where "pass an su = (None, su')" "awaiting s su' (drop n R) gs" "n \<le> length R"
    "nat (max (op_batch (su_options su)) 1) \<le> n \<or> n = length R" "same_request su su'"
    "int n < op_batch (su_options su) \<longrightarrow> su_tail su' = []"
    "op_batch (su_options su) \<le> int n \<longrightarrow> su_tail su' \<noteq> [] \<or> su_pending su' = []"
proof -
  obtain n where n: "n \<le> length R" "nat (max (op_batch (su_options su)) 1) \<le> n \<or> n = length R"
    "fetch an su = (Inr (), take_rows (int n \<ge> op_batch (su_options su)) (take n R) su)"
    "su_ok su" "map cw_seq (take n R) = [fetch_after su + 1 .. fetch_after su + int n]"
    by (rule fetch_answered [OF assms])
  let ?su' = "take_rows (int n \<ge> op_batch (su_options su)) (take n R) su"
  have "int n \<ge> op_batch (su_options su) \<or> n = length R" using n(2) by auto
  from awaiting_take_rows [OF assms(1,2) n(1) this n(4,5)] have a: "awaiting s ?su' (drop n R) gs" .
  have "pass an su = (None, ?su')"
    using assms n(3)
    by (simp add: pass_def awaiting_def follow_pass_def answered_def wait_for_wakeup_def split: wakeup.split)
  then show thesis
    by (rule that [OF _ a n(1,2)])
      (use assms(2) in \<open>simp_all add: take_rows_eq same_request_def tx_groups_nonempty [OF last_in_set]\<close>)
qed

text \<open>A pending transaction is handed out.\<close>

lemma pass_pending:
  assumes "awaiting s su R (g # gs)" and "su_pending su \<noteq> []"
  obtains su' where "pass an su = (Some (Inr (fst (group_event (su_epoch su) g))), su')" "awaiting s su' R gs"
    "same_request su su'"
proof -
  obtain gs1 where gs1: "su_pending su = map (group_event (su_epoch su)) gs1" "g # gs = gs1 @ tx_groups (su_tail su @ R)"
    using assms(1) by (auto simp: awaiting_def Let_def)
  then obtain gs2 where gs2: "gs1 = g # gs2" using assms(2) by (cases gs1) auto
  let ?su' = "su\<lparr>su_pending := map (group_event (su_epoch su)) gs2, su_cursor := cw_seq (last g)\<rparr>"
  have "pass an su = (Some (Inr (fst (group_event (su_epoch su) g))), ?su')"
    by (simp add: pass_def gs1(1) gs2 group_event_def)
  moreover have "awaiting s ?su' R gs"
    using assms(1) gs1 gs2 by (auto simp: awaiting_def Let_def chain_group_Cons)
  ultimately show thesis by (rule that) (simp add: same_request_def)
qed

section \<open>Delivering the log\<close>

lemma next_awaiting:
  assumes "awaiting s su R (g # gs)" and "\<forall>n. answered s (world n) su" and "1 \<le> op_batch (su_options su)"
  shows "\<exists>n' su' R'. next_event world n su = Some (Inr (fst (group_event (su_epoch su) g)), n', su') \<and>
    awaiting s su' R' gs \<and> same_request su su'"
  using assms
proof (induction "2 * length R + (if su_tail su = [] then 0 else 1)" arbitrary: n su R rule: less_induct)
  case less
  show ?case
  proof (cases "su_pending su = []")
    case False
    obtain su' where p: "pass (world n) su = (Some (Inr (fst (group_event (su_epoch su) g))), su')"
        "awaiting s su' R gs" "same_request su su'"
      by (rule pass_pending [OF less.prems(1) False])
    from p(1) have "next_event world n su = Some (Inr (fst (group_event (su_epoch su) g)), n + 1, su')"
      by (simp add: next_event.simps [of world n su])
    with p(2,3) show ?thesis by blast
  next
    case True
    obtain m su' where p: "pass (world n) su = (None, su')" "awaiting s su' (drop m R) (g # gs)"
        "m \<le> length R" "nat (max (op_batch (su_options su)) 1) \<le> m \<or> m = length R"
        and same: "same_request su su'" and tl: "int m < op_batch (su_options su) \<longrightarrow> su_tail su' = []"
      by (rule pass_awaiting [OF less.prems(1) True less.prems(2) [rule_format, of n]]) (rule that, assumption+)
    have "su_tail su \<noteq> [] \<or> R \<noteq> []"
      using less.prems(1) True by (auto simp: awaiting_def Let_def)
    then have "2 * length (drop m R) + (if su_tail su' = [] then 0 else 1) <
        2 * length R + (if su_tail su = [] then 0 else 1)"
      using p(3,4) tl less.prems(3) by auto
    from less.hyps [OF this p(2)] same less.prems(2,3) answered_same [OF same] obtain n' su'' R' where
      "next_event world (n + 1) su' = Some (Inr (fst (group_event (su_epoch su') g)), n', su'')"
      "awaiting s su'' R' gs" "same_request su' su''"
      by (fastforce simp: same_request_def)
    moreover have "next_event world n su = next_event world (n + 1) su'"
      using p(1) by (simp add: next_event.simps [of world n su])
    ultimately show ?thesis using same by (auto simp: same_request_def)
  qed
qed

lemma deliver_awaiting:
  assumes "awaiting s su R gs" and "\<forall>n. answered s (world n) su" and "1 \<le> op_batch (su_options su)"
  shows "\<exists>m su' R'. deliver (length gs) world n su = Some (map (\<lambda>g. fst (group_event (su_epoch su) g)) gs, m, su') \<and>
    awaiting s su' R' []"
  using assms
proof (induction gs arbitrary: n su R)
  case Nil
  then show ?case by auto
next
  case (Cons g gs)
  obtain n' su' R' where s: "next_event world n su = Some (Inr (fst (group_event (su_epoch su) g)), n', su')"
      "awaiting s su' R' gs" "same_request su su'"
    using next_awaiting [OF Cons.prems, of n] by blast
  from Cons.IH [OF s(2), of n'] s(3) Cons.prems(2,3) answered_same [OF s(3)] obtain m su'' R'' where
    "deliver (length gs) world n' su' = Some (map (\<lambda>g. fst (group_event (su_epoch su) g)) gs, m, su'')"
    "awaiting s su'' R'' []" by (auto simp: same_request_def)
  with s(1) show ?case by auto
qed

section \<open>A batch of no rows\<close>

lemma pass_batch_zero:
  assumes "awaiting s su R gs" and "su_pending su = []" and "answered s an su"
    and "op_batch (su_options su) \<le> 0" and "length gs \<le> 1"
  shows "\<exists>su' R'. pass an su = (None, su') \<and> awaiting s su' R' gs \<and> su_pending su' = [] \<and> same_request su su'"
proof -
  obtain n su' where p: "pass an su = (None, su')" "awaiting s su' (drop n R) gs" "same_request su su'"
      "op_batch (su_options su) \<le> int n \<longrightarrow> su_tail su' \<noteq> [] \<or> su_pending su' = []"
    by (rule pass_awaiting [OF assms(1-3)]) (rule that, assumption+)
  have "su_pending su' = []"
  proof (rule ccontr)
    assume "su_pending su' \<noteq> []"
    moreover from this have "su_tail su' \<noteq> []" using p(4) assms(4) by simp
    moreover obtain gs1 and rest where "su_pending su' = map (group_event (su_epoch su')) gs1"
        "gs = gs1 @ tx_groups (su_tail su' @ rest)"
      using p(2) by (auto simp: awaiting_def Let_def)
    ultimately have "gs1 \<noteq> []" "tx_groups (su_tail su' @ rest) \<noteq> []" "gs = gs1 @ tx_groups (su_tail su' @ rest)"
      by auto
    then have "length gs1 \<noteq> 0" "length (tx_groups (su_tail su' @ rest)) \<noteq> 0" by simp_all
    with assms(5) \<open>gs = _\<close> show False by simp
  qed
  with p show ?thesis by blast
qed

lemma next_batch_zero:
  assumes "next_event world n su = Some y"
  shows "\<not> (awaiting s su R gs \<and> su_pending su = [] \<and> (\<forall>n. answered s (world n) su) \<and>
    op_batch (su_options su) \<le> 0 \<and> length gs \<le> 1)"
  using assms
proof (induction world n su y arbitrary: R rule: next_event.raw_induct [rotated, consumes 1, case_names step])
  case (step f world n su y)
  show ?case
  proof
    assume a: "awaiting s su R gs \<and> su_pending su = [] \<and> (\<forall>n. answered s (world n) su) \<and>
      op_batch (su_options su) \<le> 0 \<and> length gs \<le> 1"
    then have "answered s (world n) su" by blast
    from pass_batch_zero [of s su R gs, OF _ _ this] a obtain su' R' where
      p: "pass (world n) su = (None, su')" "awaiting s su' R' gs" "su_pending su' = []" "same_request su su'" by blast
    then have "f world (n + 1) su' = Some y" using step.hyps by simp
    from step.IH [OF this, of R'] a p answered_same [OF p(4)] show False by (simp add: same_request_def)
  qed
qed

end

section \<open>The server as a source\<close>

text \<open>The server's \<open>changes\<close> on a fixed catalog, and a wake-up whenever the client waits.\<close>

definition serves :: "api \<Rightarrow> db \<Rightarrow> answers \<Rightarrow> bool" where
  "serves ap d an \<longleftrightarrow> an_wakeup an \<noteq> Closed \<and> (\<forall>view k epoch batch keep. an_changes an view k epoch batch keep =
     (case changes ap d view k epoch batch keep of Inl e \<Rightarrow> Inl (Server e) | Inr rows \<Rightarrow> Inr rows))"

text \<open>The catalog such a server answers from.\<close>

definition log_served :: "db \<Rightarrow> bool" where
  "log_served d \<longleftrightarrow> catalog_ok d \<and>
     (\<forall>v \<in> set (db_views d). one_tx_per_lsn (deltas_of (vw_id v) d)) \<and>
     (\<forall>e \<in> set (db_deltas d). de_op e \<in> {CHR ''I'', CHR ''D''})"

text \<open>A request as the server sees it: the view's name, the epoch and whether hidden columns are kept.\<close>

type_synonym request = "api \<times> db \<times> string \<times> int \<times> bool"

fun rq_view :: "request \<Rightarrow> catalog_row" where
  "rq_view (ap, d, name, epoch, keep) = projr (find_view ap d name)"

fun rq_ask :: "request \<Rightarrow> int \<Rightarrow> int \<Rightarrow> pg_error + change_row list" where
  "rq_ask (ap, d, name, epoch, keep) k batch =
     (case changes ap d name k epoch batch keep of Inl e \<Rightarrow> Inl (Server e) | Inr rows \<Rightarrow> Inr rows)"

fun rq_rows :: "request \<Rightarrow> int \<Rightarrow> client_row list" where
  "rq_rows (ap, d, name, epoch, keep) k =
     (let view = rq_view (ap, d, name, epoch, keep) in
      map (client_row_of ap (if keep then [] else sp_hidden_columns (cr_spec view)))
        (after_seq k (deltas_of (cr_id view) d)))"

fun rq_serving :: "request \<Rightarrow> int \<Rightarrow> bool" where
  "rq_serving (ap, d, name, epoch, keep) k \<longleftrightarrow>
     (let view = rq_view (ap, d, name, epoch, keep) in
      log_served d \<and> find_view ap d name = Inr view \<and> changes_check d view k epoch = None \<and> k \<le> cr_last_seq view)"

lemma check_later:
  assumes "changes_check d view p epoch = None" and "p \<le> p'"
  shows "changes_check d view p' epoch = None"
  using assms by (auto simp: changes_check_def split: if_splits option.splits)

text \<open>\<open>changes\<close> keeps the interface; the numbers and the pages are those of \<open>changes_page\<close>.\<close>

lemma served_log:
  assumes "rq_serving (ap, d, name, epoch, keep) k"
  defines "view \<equiv> rq_view (ap, d, name, epoch, keep)"
  defines "es \<equiv> after_seq k (deltas_of (cr_id view) d)"
  shows "map de_seq es = [k + 1 .. cr_last_seq view]" "\<forall>e \<in> set es. de_op e \<in> {CHR ''I'', CHR ''D''}"
    "\<exists>n. changes ap d name k epoch batch keep =
        Inr (map (change_row ap (if keep then [] else sp_hidden_columns (cr_spec view))) (take n es)) \<and>
      (nat (max batch 1) \<le> n \<or> n = length es)"
proof -
  have a: "log_served d" "find_view ap d name = Inr view" "changes_check d view k epoch = None"
    using assms(1) by (simp_all add: view_def Let_def)
  obtain v where v: "v \<in> set (db_views d)" "load_row ap v = Inr view" using find_view_row [OF a(2)] by blast
  note r = load_rowD [OF v(2)]
  have ok: "catalog_ok d" "one_tx_per_lsn (deltas_of (vw_id v) d)" using a(1) v(1) by (auto simp: log_served_def)
  note page = changes_page [OF a(2) v(2,1) a(3) ok]
  show "map de_seq es = [k + 1 .. cr_last_seq view]" using page(1) by (simp add: es_def r)
  show "\<forall>e \<in> set es. de_op e \<in> {CHR ''I'', CHR ''D''}"
    using a(1) by (auto simp: log_served_def es_def after_seq_def deltas_of_def)
  show "\<exists>n. changes ap d name k epoch batch keep =
        Inr (map (change_row ap (if keep then [] else sp_hidden_columns (cr_spec view))) (take n es)) \<and>
      (nat (max batch 1) \<le> n \<or> n = length es)"
    using page(2) [of batch keep] unfolding es_def r by blast
qed

lemma take_seqs:
  assumes "map f xs = [a + 1 .. b]" and "n \<le> length xs"
  shows "map f (take n xs) = [a + 1 .. a + int n]"
proof (rule nth_equalityI)
  show "length (map f (take n xs)) = length [a + 1 .. a + int n]" using assms(2) by simp
  have len: "length xs = nat (b - a)" using arg_cong [OF assms(1), of length] by simp
  show "map f (take n xs) ! i = [a + 1 .. a + int n] ! i" if "i < length (map f (take n xs))" for i
  proof -
    have "f (xs ! i) = map f xs ! i" using that by simp
    also have "\<dots> = a + 1 + int i" unfolding assms(1) using that len by (intro nth_upto) (simp, arith)
    finally have "f (xs ! i) = a + 1 + int i" .
    moreover have "[a + 1 .. a + int n] ! i = a + 1 + int i" using that by (intro nth_upto) simp
    ultimately show ?thesis using that by simp
  qed
qed

interpretation api_source: delta_source rq_ask rq_rows "\<lambda>s. cr_last_seq (rq_view s)" rq_serving
proof
  fix s :: request and k k' batch :: int and n :: nat
  obtain ap d name epoch keep where s: "s = (ap, d, name, epoch, keep)" by (cases s)
  let ?view = "rq_view (ap, d, name, epoch, keep)"
  let ?es = "after_seq k (deltas_of (cr_id ?view) d)"
  assume sv: "rq_serving s k"
  note l = served_log [OF sv [unfolded s]]
  show seqs: "map cw_seq (rq_rows s k) = [k + 1 .. cr_last_seq (rq_view s)]"
    using l(1) by (simp add: s Let_def comp_def)
  show "k \<le> cr_last_seq (rq_view s)" using sv by (simp add: s Let_def)
  show "rq_serving s k'" if "k \<le> k'" "k' \<le> cr_last_seq (rq_view s)"
    using sv that check_later [of d ?view k epoch k'] by (simp add: s Let_def)
  show "rq_rows s (k + int n) = drop n (rq_rows s k)" if "n \<le> length (rq_rows s k)"
    using that after_seq_drop [OF l(1), of n] by (simp add: s Let_def drop_map)
  obtain n0 where n0: "changes ap d name k epoch batch keep =
      Inr (map (change_row ap (if keep then [] else sp_hidden_columns (cr_spec ?view))) (take n0 ?es))"
      "nat (max batch 1) \<le> n0 \<or> n0 = length ?es" using l(3) [of batch] by blast
  define m where "m = min n0 (length ?es)"
  have m: "m \<le> length ?es" "take n0 ?es = take m ?es" "nat (max batch 1) \<le> m \<or> m = length ?es"
    using n0(2) by (auto simp: m_def min_def)
  have "parse_rows (k + 1) (map (change_row ap (if keep then [] else sp_hidden_columns (cr_spec ?view))) (take m ?es)) =
      Inr (map (client_row_of ap (if keep then [] else sp_hidden_columns (cr_spec ?view))) (take m ?es))"
    by (rule parse_rows_served [OF take_seqs [OF l(1) m(1)]]) (use l(2) in \<open>auto dest: in_set_takeD\<close>)
  then show "\<exists>n answer. rq_ask s k batch = Inr answer \<and> parse_rows (k + 1) answer = Inr (take n (rq_rows s k)) \<and>
      n \<le> length (rq_rows s k) \<and> (nat (max batch 1) \<le> n \<or> n = length (rq_rows s k))"
    using n0(1) m by (intro exI [of _ m]) (auto simp: s Let_def take_map)
qed

text \<open>The request of a subscription.\<close>

definition request_of :: "api \<Rightarrow> db \<Rightarrow> subscription \<Rightarrow> request" where
  "request_of ap d su = (ap, d, su_view su, su_epoch su, op_keep_hidden (su_options su))"

lemma serves_answered: "serves ap d an \<Longrightarrow> api_source.answered (request_of ap d su) an su"
  by (simp add: serves_def api_source.answered_def request_of_def)

lemma request_view: "find_view ap d (su_view su) = Inr view \<Longrightarrow> rq_view (request_of ap d su) = view"
  by (simp add: request_of_def)

lemma request_serving:
  "log_served d \<Longrightarrow> find_view ap d (su_view su) = Inr view \<Longrightarrow> changes_check d view k (su_epoch su) = None \<Longrightarrow>
   k \<le> cr_last_seq view \<Longrightarrow> rq_serving (request_of ap d su) k"
  by (simp add: request_of_def Let_def)

end
