(* ===== verification/Client_Theorems.thy ===== *)
theory Client_Theorems
  imports Client_Source
begin

text \<open>
  The properties of the client: it tells the server's reports apart, hands out contiguous transactions
  whatever the server answers, and delivers the whole log of a server that answers with it.
\<close>

section \<open>Properties\<close>

text \<open>
  C34. The client tells the server's reports apart. The reports of a lagged subscriber, a stale view, a
  changed epoch and a failed view become the client's own failures, with the reason the server recorded
  (emptied when it holds a NUL byte) and with both epochs; every other report is handed to the caller.
\<close>

theorem classify_agrees:
  assumes "- (2 ^ 31) \<le> to1" and "to1 < 2 ^ 31"
  shows "classify (Server (lagged name s)) epoch = FLagged \<and>
    classify (Server (stale name reason)) epoch = FStale (c_string (or_unrecorded reason)) \<and>
    classify (Server (epoch_changed name from1 to1)) epoch = FEpochChanged epoch to1 \<and>
    classify (Server (failed name reason)) epoch = FOther (ViewFailed (c_string (or_unrecorded reason))) \<and>
    (\<forall>r \<in> {unsupported_definition m, invalid m h, prerequisite m h}. classify (Server r) epoch = FOther (Postgres (Server r)))"
proof -
  have "rp_detail (stale name reason) = Some (c_string (or_unrecorded reason))"
    "rp_detail (failed name reason) = Some (c_string (or_unrecorded reason))"
    by (simp_all add: stale_def failed_def raise_sqlstate_def)
  moreover have "rp_sqlstate (lagged name s) = ''NB001''" "rp_sqlstate (stale name reason) = ''NB002''"
    "rp_sqlstate (epoch_changed name from1 to1) = ''NB003''" "rp_sqlstate (failed name reason) = ''NB006''"
    "rp_sqlstate (unsupported_definition m) = ''NB004''" "rp_sqlstate (invalid m h) = ''22023''"
    "rp_sqlstate (prerequisite m h) = ''55000''"
    by (simp_all add: lagged_def stale_def epoch_changed_def failed_def unsupported_definition_def
        raise_sqlstate_def invalid_def prerequisite_def raise_error_def)
  ultimately show ?thesis
    by (simp add: classify_def reported_def or_unrecorded_def new_epoch_report [OF assms])
qed

theorem classify_agrees_witness:
  "classify (Server (epoch_changed ''public.v'' 3 4)) 3 = FEpochChanged 3 4"
  using classify_agrees [of 4 "''public.v''" 0 3 None 3 "''''" None] by simp

text \<open>
  C33. Whatever the server and the network answer, the client hands out contiguous events. A transaction
  carries at least one delta and the deltas that follow the cursor, numbered one by one, and moves the
  cursor to its last one; a snapshot moves the cursor to the number it was taken at; a resync leaves it.
  The state this rests on holds for a new subscription and after every event and error.
\<close>

theorem events_contiguous:
  "su_ok (new_subscription name opts) \<and>
   (su_ok su \<longrightarrow> next_event world n su = Some (r, m, su') \<longrightarrow>
     su_ok su' \<and> (\<forall>evt. r = Inr evt \<longrightarrow> delivers (su_cursor su) evt (su_cursor su')))"
  using next_event_ok [of world n su "(r, m, su')"] by (auto simp: new_subscription_def su_ok_def)

text \<open>
  C32. A client that follows a live view delivers its log. Against a server that answers \<open>changes\<close> from a
  log that does not change, with any batch of at least one row, the calls of \<open>next\<close> hand out the deltas
  after the cursor, all of them and in order, each event with the deltas of exactly one source
  transaction: within an event the transaction is the same, from one event to the next it is not. Every
  call returns, and at the end the cursor is the view's last number and nothing is held back.
\<close>

theorem follow_delivers_log:
  assumes "log_served d" and "\<forall>n. serves ap d (world n)"
    and "find_view ap d (su_view su) = Inr view" and "changes_check d view (su_cursor su) (su_epoch su) = None"
    and "su_connected su" and "su_state su = Following" and "su_pending su = []" and "su_tail su = []"
    and "1 \<le> op_batch (su_options su)" and "su_cursor su \<le> cr_last_seq view"
  shows "\<exists>gs m su'. concat gs = map (client_row_of ap (if op_keep_hidden (su_options su) then []
        else sp_hidden_columns (cr_spec view))) (after_seq (su_cursor su) (deltas_of (cr_id view) d)) \<and>
    (\<forall>g \<in> set gs. g \<noteq> [] \<and> (\<forall>r \<in> set g. same_transaction (hd g) r)) \<and>
    successively (\<lambda>g h. \<not> same_transaction (hd g) (hd h)) gs \<and>
    deliver (length gs) world n su = Some (map (\<lambda>g. fst (group_event (su_epoch su) g)) gs, m, su') \<and>
    su_cursor su' = cr_last_seq view \<and> su_pending su' = [] \<and> su_tail su' = []"
proof -
  let ?s = "request_of ap d su"
  let ?gs = "tx_groups (rq_rows ?s (su_cursor su))"
  note v = request_view [OF assms(3)]
  have "api_source.awaiting ?s su (rq_rows ?s (su_cursor su)) ?gs"
    using request_serving [OF assms(1,3,4,10)] assms(5-8) by (rule api_source.awaiting_start)
  from api_source.deliver_awaiting [OF this _ assms(9)] serves_answered assms(2) obtain m su' R' where
    d: "deliver (length ?gs) world n su = Some (map (\<lambda>g. fst (group_event (su_epoch su) g)) ?gs, m, su')"
      "api_source.awaiting ?s su' R' []" by blast
  have "concat ?gs = map (client_row_of ap (if op_keep_hidden (su_options su) then []
        else sp_hidden_columns (cr_spec view))) (after_seq (su_cursor su) (deltas_of (cr_id view) d))"
    using v by (simp add: request_of_def Let_def)
  moreover have "\<forall>g \<in> set ?gs. g \<noteq> [] \<and> (\<forall>r \<in> set g. same_transaction (hd g) r)"
    using tx_groups_uniform by blast
  ultimately show ?thesis
    using d(1) api_source.awaiting_end [OF d(2)] unfolding v
    by (intro exI [of _ ?gs] exI [of _ m] exI [of _ su'] conjI tx_groups_apart)
qed

text \<open>The log of three deltas and a client that saw the first one.\<close>

definition server_api :: api where
  "server_api = example_api\<lparr>ap_range_var := (\<lambda>s. case split_once (CHR ''.'') s of
     Some (schema, name) \<Rightarrow> Inr (None, Some schema, name) | None \<Rightarrow> Inr (None, None, s))\<rparr>"

definition example_answers :: answers where
  "example_answers = \<lparr>an_connect = Inr (), an_name = Inr, an_listen = (\<lambda>c. Inr ()), an_wakeup = Notified,
     an_begin = Inr (), an_status = (\<lambda>s. Inl (Transport ''closed'')), an_columns = (\<lambda>s. Inr []),
     an_rows = (\<lambda>s. Inr []), an_commit = Inr (),
     an_changes = (\<lambda>view k epoch batch keep. case changes server_api log_db view k epoch batch keep of
        Inl e \<Rightarrow> Inl (Server e) | Inr rows \<Rightarrow> Inr rows)\<rparr>"

definition example_following :: "int \<Rightarrow> subscription" where
  "example_following batch = (new_subscription ''public.p'' (default_options\<lparr>op_batch := batch\<rparr>))
     \<lparr>su_connected := True, su_state := Following, su_epoch := 1, su_cursor := 1\<rparr>"

lemma log_db_served: "log_served log_db"
  unfolding log_served_def by (intro conjI log_db_ok log_db_tx) code_simp

lemma example_serves: "serves server_api log_db example_answers"
  by (simp add: serves_def example_answers_def)

lemma trim_name: "trim ''public.p'' = ''public.p''"
  by code_simp

lemma example_following_simps [simp]:
  "su_view (example_following b) = ''public.p''" "su_connected (example_following b)"
  "su_state (example_following b) = Following" "su_pending (example_following b) = []"
  "su_tail (example_following b) = []" "su_cursor (example_following b) = 1" "su_epoch (example_following b) = 1"
  "op_batch (su_options (example_following b)) = b" "\<not> op_keep_hidden (su_options (example_following b))"
  by (simp_all add: example_following_def new_subscription_def default_options_def trim_name)

definition example_row :: catalog_row where
  "example_row = projr (find_view server_api log_db ''public.p'')"

lemma example_row:
  "find_view server_api log_db ''public.p'' = Inr example_row" "cr_last_seq example_row = 4" "cr_id example_row = 1"
  "changes_check log_db example_row 1 1 = None" "changes_check log_db example_row 3 1 = None"
proof -
  have "isl (find_view server_api log_db ''public.p'') = False" by code_simp
  then show "find_view server_api log_db ''public.p'' = Inr example_row"
    by (cases "find_view server_api log_db ''public.p''") (auto simp: example_row_def)
  show "cr_last_seq example_row = 4" "cr_id example_row = 1"
    "changes_check log_db example_row 1 1 = None" "changes_check log_db example_row 3 1 = None"
    by code_simp+
qed

lemma example_log: "map de_seq (after_seq 1 (deltas_of 1 log_db)) = [2, 3, 4]"
  by code_simp

theorem follow_delivers_log_witness:
  "\<exists>gs m su'. map cw_seq (concat gs) = [2, 3, 4] \<and>
    deliver (length gs) (\<lambda>n. example_answers) 0 (example_following 2) =
      Some (map (\<lambda>g. fst (group_event 1 g)) gs, m, su') \<and> su_cursor su' = 4"
proof -
  have "\<forall>n. serves server_api log_db ((\<lambda>n. example_answers) n)" using example_serves by simp
  from follow_delivers_log [OF log_db_served this, of "example_following 2" example_row 0] example_row
  obtain gs m su' where g:
    "concat gs = map (client_row_of server_api (sp_hidden_columns (cr_spec example_row))) (after_seq 1 (deltas_of 1 log_db))"
    "deliver (length gs) (\<lambda>n. example_answers) 0 (example_following 2) =
      Some (map (\<lambda>g. fst (group_event 1 g)) gs, m, su')" "su_cursor su' = 4"
    by (simp del: deliver.simps) blast
  have "map cw_seq (concat gs) = map de_seq (after_seq 1 (deltas_of 1 log_db))"
    unfolding g(1) by (simp add: comp_def)
  with g example_log show ?thesis by (intro exI [of _ gs] exI [of _ m] exI [of _ su']) simp
qed

lemma example_first_event:
  "\<exists>evt m su'. next_event (\<lambda>n. example_answers) 0 (example_following 2) = Some (Inr evt, m, su')"
proof -
  let ?s = "request_of server_api log_db (example_following 2)"
  have sv: "rq_serving ?s (su_cursor (example_following 2))"
    by (rule request_serving [OF log_db_served, of _ _ example_row]) (simp_all add: example_row)
  have "map cw_seq (rq_rows ?s 1) = map de_seq (after_seq 1 (deltas_of 1 log_db))"
    using example_row by (simp add: request_of_def Let_def comp_def)
  then have "rq_rows ?s 1 \<noteq> []" using example_log by auto
  then obtain g gs where g: "tx_groups (rq_rows ?s 1) = g # gs" by (cases "tx_groups (rq_rows ?s 1)") auto
  have "api_source.awaiting ?s (example_following 2) (rq_rows ?s 1) (g # gs)"
    using api_source.awaiting_start [OF sv] g by simp
  from api_source.next_awaiting [OF this, of "\<lambda>n. example_answers" 0] serves_answered [OF example_serves]
  show ?thesis by auto
qed

theorem events_contiguous_witness:
  "\<exists>evt m su'. next_event (\<lambda>n. example_answers) 0 (example_following 2) = Some (Inr evt, m, su') \<and>
    su_ok su' \<and> delivers 1 evt (su_cursor su')"
proof -
  obtain evt m su' where y: "next_event (\<lambda>n. example_answers) 0 (example_following 2) = Some (Inr evt, m, su')"
    using example_first_event by blast
  have "su_ok (example_following 2)" by (rule su_ok_empty) simp_all
  with events_contiguous [of "''''" default_options "example_following 2"] y show ?thesis by fastforce
qed

section \<open>A batch of no rows\<close>

text \<open>
  C35. With a batch of no rows the client keeps the last transaction back for ever. Every answer of the
  server then counts as full, so the group it ends with stays in the tail; while the log holds no later
  transaction, the call of \<open>next\<close> never returns, and asks the server again without waiting in between.
\<close>

theorem batch_zero_withholds:
  assumes "log_served d" and "\<forall>n. serves ap d (world n)"
    and "find_view ap d (su_view su) = Inr view" and "changes_check d view (su_cursor su) (su_epoch su) = None"
    and "su_connected su" and "su_state su = Following" and "su_pending su = []" and "su_tail su = []"
    and "op_batch (su_options su) \<le> 0" and "su_cursor su \<le> cr_last_seq view"
    and "after_seq (su_cursor su) (deltas_of (cr_id view) d) = e # es" and "\<forall>f \<in> set es. same_tx e f"
  shows "next_event world n su = None"
proof (cases "next_event world n su")
  case None
  then show ?thesis .
next
  case (Some y)
  let ?s = "request_of ap d su"
  let ?row = "client_row_of ap (if op_keep_hidden (su_options su) then [] else sp_hidden_columns (cr_spec view))"
  note v = request_view [OF assms(3)]
  have rows: "rq_rows ?s (su_cursor su) = ?row e # map ?row es"
    using v assms(11) by (simp add: request_of_def Let_def)
  have "foldl add_row [[?row e]] (map ?row es) = [[?row e] @ map ?row es]"
    by (rule foldl_same) (use assms(12) in \<open>auto simp: same_transaction_def client_row_of_def same_tx_def\<close>)
  then have "length (tx_groups (rq_rows ?s (su_cursor su))) \<le> 1"
    unfolding rows by (simp add: tx_groups_def add_row_def)
  moreover have "api_source.awaiting ?s su (rq_rows ?s (su_cursor su)) (tx_groups (rq_rows ?s (su_cursor su)))"
    using request_serving [OF assms(1,3,4,10)] assms(5-8) by (rule api_source.awaiting_start)
  moreover have "\<forall>n. api_source.answered ?s (world n) su" using assms(2) serves_answered by blast
  ultimately show ?thesis using api_source.next_batch_zero [OF Some] assms(7,9) by blast
qed

theorem batch_zero_withholds_witness:
  "next_event (\<lambda>n. example_answers) 0 ((example_following 0)\<lparr>su_cursor := 3\<rparr>) = None"
proof -
  let ?su = "(example_following 0)\<lparr>su_cursor := 3\<rparr>"
  have lg: "after_seq (su_cursor ?su) (deltas_of (cr_id example_row) log_db) = log_entry 4 30 701 (CHR ''I'') # []"
    by (simp add: example_row) code_simp
  have "\<forall>n. serves server_api log_db ((\<lambda>n. example_answers) n)" using example_serves by simp
  from batch_zero_withholds [OF log_db_served this _ _ _ _ _ _ _ _ lg] show ?thesis by (simp add: example_row)
qed

end
