(* ===== verification/Delta_Replay.thy ===== *)
theory Delta_Replay
  imports Maintain
begin

text \<open>
  What the deltas of an execution mean to a subscriber, whatever was planned: if executing planned
  operations on a storage table succeeds, replaying the deltas it returned on the old rows gives the
  new rows, and so does replaying their net effect on the visible columns. No assumption is made on
  which operations were planned, only that they are rows of the view's query or deletes by its key.
\<close>

section \<open>Texts of counts\<close>

lemma parse_digits_wider:
  "parse_digits w s acc cs = Some k \<Longrightarrow> w \<le> w' \<Longrightarrow> parse_digits w' s acc cs = Some k"
proof (induction cs arbitrary: acc)
  case Nil
  then show ?case by simp
next
  case (Cons c cs)
  have le: "(2 :: int) ^ (w - Suc 0) \<le> 2 ^ (w' - Suc 0)" using Cons.prems(2) by (intro power_increasing) auto
  from Cons.prems(1) obtain d where d: "digit_value c = Some d" by (auto split: option.splits)
  let ?v = "acc * 10 + s * d"
  have "- (2 ^ (w - Suc 0)) \<le> ?v" "?v < 2 ^ (w - Suc 0)" "parse_digits w s ?v cs = Some k"
    using Cons.prems(1) d by (auto simp: Let_def split: if_splits)
  moreover from this le have "- (2 ^ (w' - Suc 0)) \<le> ?v" "?v < 2 ^ (w' - Suc 0)" by linarith+
  ultimately show ?case using d Cons.IH [of ?v] Cons.prems(2) by (simp add: Let_def)
qed

lemma parse_int_text_sound:
  assumes "parse_int w (int_text n) = Some k"
  shows "k = n"
proof -
  let ?w = "w + Suc (nat \<bar>n\<bar>)"
  have "\<bar>n\<bar> < 2 ^ nat \<bar>n\<bar>"
    using less_exp [of "nat \<bar>n\<bar>"] by (metis abs_ge_zero int_nat_eq of_nat_less_iff of_nat_power of_nat_numeral)
  also have "(2 :: int) ^ nat \<bar>n\<bar> \<le> 2 ^ (?w - 1)" by (intro power_increasing) auto
  finally have "parse_int ?w (int_text n) = Some n" by (intro parse_int_text) auto
  moreover have "parse_int ?w (int_text n) = Some k"
    using assms by (auto simp: parse_int_def intro: parse_digits_wider split: if_splits)
  ultimately show ?thesis by simp
qed

section \<open>Replaying single rows\<close>

text \<open>Deleting rows that are held, and inserting a row whose key is free.\<close>

lemma replay_deletes:
  assumes "distinct (map key ws)" and "\<forall>w \<in> set ws. s (key w) = Some w"
  shows "replay id key (map (Pair (CHR ''D'')) ws) s = Some (\<lambda>k. if k \<in> key ` set ws then None else s k)"
  using assms
proof (induction ws arbitrary: s)
  case Nil
  then show ?case by simp
next
  case (Cons w ws)
  have "\<forall>v \<in> set ws. (s(key w := None)) (key v) = Some v"
    using Cons.prems by (auto simp: image_iff)
  with Cons.IH [of "s(key w := None)"] Cons.prems(1)
  have "replay id key (map (Pair (CHR ''D'')) ws) (s(key w := None)) =
    Some (\<lambda>k. if k \<in> key ` set ws then None else (s(key w := None)) k)"
    by (simp only: list.map distinct.simps)
  moreover have "(\<lambda>k. if k \<in> key ` set ws then None else (s(key w := None)) k) =
    (\<lambda>k. if k \<in> key ` set (w # ws) then None else s k)" by auto
  moreover have "replay_step id key (CHR ''D'', w) s = Some (s(key w := None))"
    using Cons.prems(2) by (simp add: replay_step_def)
  ultimately show ?case by (simp only: list.map replay.simps Option.bind.bind_lunit)
qed

lemma lookup_filter:
  assumes "distinct (map key V)"
  shows "lookup key (filter (\<lambda>v. \<not> p v) V) =
    (\<lambda>k. if k \<in> key ` set (filter p V) then None else lookup key V k)"
proof
  fix k
  have d: "distinct (map key (filter (\<lambda>v. \<not> p v) V))" using assms by (rule distinct_map_filter)
  show "lookup key (filter (\<lambda>v. \<not> p v) V) k = (if k \<in> key ` set (filter p V) then None else lookup key V k)"
  proof (cases "lookup key (filter (\<lambda>v. \<not> p v) V) k")
    case None
    then have out: "k \<notin> key ` set (filter (\<lambda>v. \<not> p v) V)" by (simp add: lookup_None_iff)
    show ?thesis
    proof (cases "k \<in> key ` set (filter p V)")
      case False
      with out have "lookup key V k = None" by (auto simp: lookup_None_iff)
      with None show ?thesis by simp
    qed (simp add: None)
  next
    case (Some v)
    then have v: "v \<in> set V" "\<not> p v" "key v = k" using d by (auto simp: lookup_Some_iff)
    then have "k \<notin> key ` set (filter p V)" using assms by (auto simp: distinct_map inj_on_def)
    moreover have "lookup key V k = Some v" using v assms by (simp add: lookup_Some_iff)
    ultimately show ?thesis using Some by simp
  qed
qed

lemma replay_delete_where:
  assumes "distinct (map key V)"
  shows "replay id key (map (Pair (CHR ''D'')) (filter p V)) (lookup key V) =
    Some (lookup key (filter (\<lambda>v. \<not> p v) V))"
proof -
  have "\<forall>w \<in> set (filter p V). lookup key V (key w) = Some w"
    using assms by (simp add: lookup_Some_iff)
  then show ?thesis
    using assms by (subst replay_deletes) (simp_all add: distinct_map_filter lookup_filter)
qed

lemma replay_insert:
  assumes "distinct (map key (xs @ v # ys))"
  shows "replay id key [(CHR ''I'', v)] (lookup key (xs @ ys)) = Some (lookup key (xs @ v # ys))"
proof -
  have "lookup key (xs @ ys) (key v) = None" using assms by (auto simp: lookup_None_iff)
  with lookup_split [OF assms] show ?thesis by (simp add: replay_step_def)
qed

section \<open>Tables, operations and JSON\<close>

definition typed_row :: "view_spec \<Rightarrow> row \<Rightarrow> bool" where
  "typed_row spec r \<longleftrightarrow> map fst r = table_columns spec"

text \<open>A NULL in an identity column of a projection: a primary key has none.\<close>

definition null_keyed :: "view_spec \<Rightarrow> row list \<Rightarrow> bool" where
  "null_keyed spec V \<longleftrightarrow> sp_shape spec = Projection \<and> (\<exists>r \<in> set V. Null \<in> set (row_ident spec r))"

text \<open>A storage table: rows of its columns with distinct identities, and groups that are not empty.\<close>

fun positive :: "datum \<Rightarrow> bool" where
  "positive (Num n) = (0 < n)"
| "positive d = False"

lemma positive_iff: "positive d \<longleftrightarrow> (\<exists>n > 0. d = Num n)"
  by (cases d) simp_all

definition table_ok :: "view_spec \<Rightarrow> row list \<Rightarrow> bool" where
  "table_ok spec V \<longleftrightarrow>
     list_all (typed_row spec) V \<and> distinct (map (row_ident spec) V) \<and> \<not> null_keyed spec V \<and>
     (case (sp_shape spec, sp_count_alias spec) of
        (Aggregate, Some cnt) \<Rightarrow> list_all (\<lambda>r. positive (col r cnt)) V
      | _ \<Rightarrow> True)"

definition spec_ok :: "view_spec \<Rightarrow> bool" where
  "spec_ok spec \<longleftrightarrow> (wf_aggregate spec \<or> wf_projection spec) \<and>
     set (identity_columns spec) \<subseteq> set (table_columns spec) \<and>
     (sp_shape spec = Projection \<and> \<not> is_join spec \<longrightarrow> length (sp_pk_columns spec) = length (sp_pk_view_columns spec))"

text \<open>The operations planning produces: rows of the view's query, and deletes by the whole key.\<close>

definition planned_op :: "pg \<Rightarrow> view_spec \<Rightarrow> op \<Rightarrow> bool" where
  "planned_op pg spec operation \<longleftrightarrow>
     (\<exists>s E. operation = row_op pg spec s E) \<or>
     (\<exists>conds vals. operation = DeleteByKey conds vals \<and>
        (sp_shape spec = Projection \<longrightarrow> set (sp_pk_view_columns spec) \<subseteq> fst ` set conds))"

text \<open>
  The rows as \<open>net\<close> and the subscribers read them: \<open>to_jsonb\<close> prints JSON that \<open>serde_json\<close> parses and
  prints back, and rows with equal identities in JSON have equal identities in SQL.
\<close>

definition json_of_row :: "pg \<Rightarrow> (string \<Rightarrow> json option) \<Rightarrow> row \<Rightarrow> json" where
  "json_of_row pg parse r = (case parse (pg_to_jsonb pg r) of None \<Rightarrow> JNull | Some j \<Rightarrow> j)"

definition json_faithful :: "pg \<Rightarrow> (string \<Rightarrow> json option) \<Rightarrow> (json \<Rightarrow> string) \<Rightarrow> view_spec \<Rightarrow> bool" where
  "json_faithful pg parse print spec \<longleftrightarrow>
     (\<forall>r. typed_row spec r \<longrightarrow> parse (pg_to_jsonb pg r) \<noteq> None \<and>
        parse (print (json_of_row pg parse r)) = Some (json_of_row pg parse r)) \<and>
     (\<forall>r r'. typed_row spec r \<and> typed_row spec r' \<and>
        net_key spec (json_of_row pg parse r) = net_key spec (json_of_row pg parse r') \<longrightarrow>
        row_ident spec r = row_ident spec r')"

lemma typed_group_row: "typed_row spec (group_row pg spec E)"
  by (simp add: typed_row_def group_row_def map_fst_out_row table_columns_def)

lemma row_ident_conflicts:
  "sp_shape spec = Aggregate \<Longrightarrow> conflicts spec v w \<longleftrightarrow> row_ident spec v = row_ident spec w"
  "sp_shape spec = Projection \<Longrightarrow> Null \<notin> set (row_ident spec v) \<Longrightarrow>
     conflicts spec v w \<longleftrightarrow> row_ident spec v = row_ident spec w"
  by (simp_all add: conflicts_def row_ident_def identity_columns_def not_distinct_def sql_eq_def)
    (metis image_eqI)

section \<open>Deletes\<close>

definition held :: "(row \<Rightarrow> 'k) \<Rightarrow> row list \<Rightarrow> (char \<times> row) list \<Rightarrow> row list \<Rightarrow> bool" where
  "held key V evs V' \<longleftrightarrow> replay id key evs (lookup key V) = Some (lookup key V')"

lemma held_trans: "held key U xs V \<Longrightarrow> held key V ys W \<Longrightarrow> held key U (xs @ ys) W"
  by (simp add: held_def replay_append)

text \<open>What is left of a table is a table.\<close>

lemma table_ok_filter: "table_ok spec V \<Longrightarrow> table_ok spec (filter p V)"
  by (auto simp: table_ok_def null_keyed_def list_all_iff distinct_map_filter split: shape.splits option.splits)

text \<open>Keys that tell rows apart at least as well as their identities do.\<close>

definition refines :: "view_spec \<Rightarrow> (row \<Rightarrow> 'k) \<Rightarrow> bool" where
  "refines spec key \<longleftrightarrow>
     (\<forall>r r'. typed_row spec r \<and> typed_row spec r' \<and> key r = key r' \<longrightarrow> row_ident spec r = row_ident spec r')"

lemma table_ok_keys:
  assumes "refines spec key" and "table_ok spec V"
  shows "distinct (map key V)"
proof -
  have "inj_on (row_ident spec) (set V)" "distinct V" "list_all (typed_row spec) V"
    using assms(2) by (simp_all add: table_ok_def distinct_map)
  then show ?thesis
    using assms(1) by (fastforce simp: distinct_map inj_on_def refines_def list_all_iff)
qed

text \<open>What a successful operation does: the table stays one, and its deltas replay on any such key.\<close>

definition replayed :: "pg \<Rightarrow> view_spec \<Rightarrow> (row \<Rightarrow> 'k) \<Rightarrow> row list \<Rightarrow> row list \<Rightarrow> delta list \<Rightarrow> bool" where
  "replayed pg spec key V V' ds \<longleftrightarrow>
     table_ok spec V' \<and> (\<exists>evs. ds = delta_texts pg evs \<and> (\<forall>ev \<in> set evs. typed_row spec (snd ev)) \<and> held key V evs V')"

lemma replayed_trans:
  assumes "replayed pg spec key U V ds" and "replayed pg spec key V W ds'"
  shows "replayed pg spec key U W (ds @ ds')"
proof -
  obtain xs ys where x: "ds = delta_texts pg xs" "\<forall>ev \<in> set xs. typed_row spec (snd ev)" "held key U xs V"
    and y: "ds' = delta_texts pg ys" "\<forall>ev \<in> set ys. typed_row spec (snd ev)" "held key V ys W"
    using assms by (auto simp: replayed_def)
  have "ds @ ds' = delta_texts pg (xs @ ys)" "\<forall>ev \<in> set (xs @ ys). typed_row spec (snd ev)"
    using x y by (auto simp: delta_texts_append)
  with held_trans [OF x(3) y(3)] assms(2) show ?thesis unfolding replayed_def by blast
qed

section \<open>Deletes\<close>

lemma delete_where_replay:
  assumes "refines spec key" and "table_ok spec V" and "delete_where pg p V = (V', ds)"
  shows "replayed pg spec key V V' ds"
proof -
  let ?evs = "map (Pair (CHR ''D'')) (filter p V)"
  have "V' = filter (\<lambda>v. \<not> p v) V" "ds = delta_texts pg ?evs"
    using assms(3) by (auto simp: delete_where_def delta_texts_def comp_def)
  moreover have "\<forall>ev \<in> set ?evs. typed_row spec (snd ev)"
    using assms(2) by (auto simp: table_ok_def list_all_iff)
  ultimately show ?thesis
    using table_ok_filter [OF assms(2)] replay_delete_where [OF table_ok_keys [OF assms(1,2)]]
    unfolding held_def replayed_def by blast
qed

lemma delete_where_nulls:
  assumes "null_keyed spec V" and "delete_where pg p V = (V', ds)"
    and "\<And>v. v \<in> set V \<Longrightarrow> Null \<in> set (row_ident spec v) \<Longrightarrow> \<not> p v"
  shows "null_keyed spec V'"
  using assms by (auto simp: null_keyed_def delete_where_def)

lemma key_datums_fst: "key_datums pg conds vals = Inr ks \<Longrightarrow> map fst ks = map fst conds"
  by (induction pg conds vals arbitrary: ks rule: key_datums.induct) (auto simp: rbind_Inr_iff)

section \<open>Rows of a projection\<close>

lemma projection_replay:
  assumes "sp_shape spec = Projection" and "json_ok pg (table_columns spec)" and "refines spec key"
    and "table_ok spec V" and "projection_row pg spec s (pg_to_jsonb pg (group_row pg spec E)) V = Inr (V', ds)"
  shows "null_keyed spec V' \<or> replayed pg spec key V V' ds"
proof (cases "s > 0")
  case True
  let ?r = "group_row pg spec E"
  have V': "V' = V @ [?r]" "ds = delta_texts pg [(CHR ''I'', ?r)]" and free: "\<forall>v \<in> set V. \<not> conflicts spec v ?r"
    using assms(5) True by (auto simp: projection_row_def json_group_row [OF assms(2)] delta_texts_def split: if_splits)
  show ?thesis
  proof (cases "null_keyed spec V'")
    case nn: False
    then have "\<forall>v \<in> set V. row_ident spec v \<noteq> row_ident spec ?r"
      using free assms(1) by (force simp: row_ident_conflicts null_keyed_def V')
    then have ok: "table_ok spec V'"
      using assms(1,4) nn by (auto simp: table_ok_def V' typed_group_row)
    have "held key V [(CHR ''I'', ?r)] V'"
      using replay_insert [of key V ?r "[]"] table_ok_keys [OF assms(3) ok] by (simp add: held_def V')
    with ok have "replayed pg spec key V V' ds"
      unfolding replayed_def V'(2) by (intro conjI exI [of _ "[(CHR ''I'', ?r)]"]) (simp_all add: typed_group_row)
    then show ?thesis ..
  qed simp
next
  case False
  then show ?thesis
    using assms(5) delete_where_replay [OF assms(3,4)]
    by (auto simp: projection_row_def json_group_row [OF assms(2)] split: if_splits)
qed

text \<open>A NULL key stays: no delete matches it.\<close>

lemma projection_nulls:
  assumes "null_keyed spec V" and "planned_op pg spec operation" and "run_row pg spec operation V = Inr (V', ds)"
  shows "null_keyed spec V'"
proof -
  have shape: "sp_shape spec = Projection" using assms(1) by (simp add: null_keyed_def)
  have keep: "\<not> (\<forall>(c, d) \<in> set ks. sql_eq (col v c) d)"
    if "Null \<in> set (row_ident spec v)" "set (sp_pk_view_columns spec) \<subseteq> fst ` set ks" for v ks
    using that shape by (force simp: row_ident_def identity_columns_def sql_eq_def)
  show ?thesis
    using assms(2) unfolding planned_op_def
  proof (elim disjE exE conjE)
    fix s E
    assume o1: "operation = row_op pg spec s E"
    show ?thesis
    proof (cases "s > 0")
      case True
      with assms(3) o1 shape obtain r where "V' = V @ [r]"
        by (auto simp: run_row_def execute_op_def row_op_def projection_row_def rbind_Inr_iff split: if_splits)
      with assms(1) show ?thesis by (auto simp: null_keyed_def)
    next
      case False
      with assms(3) o1 shape obtain r where
        "delete_where pg (\<lambda>v. \<forall>c \<in> set (sp_pk_view_columns spec). sql_eq (col v c) (col r c)) V = (V', ds)"
        by (auto simp: run_row_def execute_op_def row_op_def projection_row_def rbind_Inr_iff split: if_splits prod.splits)
      then show ?thesis
        by (rule delete_where_nulls [OF assms(1)])
          (use shape in \<open>force simp: row_ident_def identity_columns_def sql_eq_def\<close>)
    qed
  next
    fix conds vals
    assume o1: "operation = DeleteByKey conds vals"
      and cover: "sp_shape spec = Projection \<longrightarrow> set (sp_pk_view_columns spec) \<subseteq> fst ` set conds"
    obtain ks where ks: "key_datums pg conds vals = Inr ks"
      "delete_where pg (\<lambda>v. \<forall>(c, d) \<in> set ks. sql_eq (col v c) d) V = (V', ds)"
      using assms(3) o1
      by (auto simp: run_row_def execute_op_def delete_by_key_def rbind_Inr_iff split: if_splits prod.splits)
    have "fst ` set ks = fst ` set conds" using arg_cong [OF key_datums_fst [OF ks(1)], of set] by simp
    with cover shape keep show ?thesis
      by (intro delete_where_nulls [OF assms(1) ks(2)]) auto
  qed
qed

section \<open>Rows of an aggregate\<close>

text \<open>The group a row is merged into: at most one row has its key, and its place is kept.\<close>

lemma vkey_excluded_src:
  assumes wf: "wf_aggregate spec" "sp_count_alias spec = Some cnt"
  shows "vkey spec (excluded spec cnt s (group_row pg spec E)) = vkey spec (group_row pg spec E)"
    and "col (excluded spec cnt s (group_row pg spec E)) cnt = Num (s * int (length E))"
proof -
  note spec = wf_aggregateD [OF wf]
  have "col (excluded spec cnt s (group_row pg spec E)) (oc_alias c) = col (group_row pg spec E) (oc_alias c)"
    if "c \<in> set (sp_columns spec)" for c
  proof -
    have "(TExpr (oc_expr c), oc_alias c) \<in> set (agg_items spec cnt)"
      using that by (auto simp: in_agg_items)
    with col_excluded [OF spec this] col_out_row [OF spec(2), of "TExpr (oc_expr c)" "oc_alias c"] spec(1)
    show ?thesis by (simp add: group_row_def signed_item_def del: item.simps)
  qed
  then show "vkey spec (excluded spec cnt s (group_row pg spec E)) = vkey spec (group_row pg spec E)"
    by (simp add: vkey_def)
  have "(TCountStar, cnt) \<in> set (agg_items spec cnt)" by (simp add: in_agg_items)
  from col_excluded [OF spec this] show "col (excluded spec cnt s (group_row pg spec E)) cnt = Num (s * int (length E))"
    by (simp add: group_row_def signed_item_def)
qed

lemma table_row_facts:
  assumes wf: "wf_aggregate spec" "sp_count_alias spec = Some cnt"
  shows "typed_row spec (table_row spec e)" and "vkey spec (table_row spec e) = vkey spec e"
    and "col (table_row spec e) cnt = col e cnt"
proof -
  note spec = wf_aggregateD [OF wf]
  have c: "col (table_row spec e) a = col e a" if "a \<in> set (table_columns spec)" for a
    using that col_map [of "\<lambda>c. c" "table_columns spec" a "col e"] spec(2)
    by (simp add: table_row_def table_columns_def)
  have "(TExpr (oc_expr k), oc_alias k) \<in> set (sp_select_list spec)" if "k \<in> set (sp_columns spec)" for k
    using that spec(1) by (auto simp: in_agg_items)
  then have "oc_alias k \<in> set (table_columns spec)" if "k \<in> set (sp_columns spec)" for k
    using that by (force simp: table_columns_def)
  then show "vkey spec (table_row spec e) = vkey spec e" by (simp add: vkey_def c)
  have "(TCountStar, cnt) \<in> set (sp_select_list spec)" using spec(1) by (simp add: in_agg_items)
  then show "col (table_row spec e) cnt = col e cnt" by (intro c) (force simp: table_columns_def)
  show "typed_row spec (table_row spec e)" by (simp add: typed_row_def table_row_def comp_def)
qed

lemma col_set_columns:
  assumes "a \<in> set (map fst w)"
  shows "col (set_columns w ups) a = (case map_of ups a of None \<Rightarrow> col w a | Some d \<Rightarrow> d)"
proof -
  have "map_of (map (\<lambda>(c, d). (c, f c d)) w) a = map_option (f a) (map_of w a)" for f :: "string \<Rightarrow> datum \<Rightarrow> datum"
    by (induction w) auto
  moreover obtain d where "map_of w a = Some d" using assms by (cases "map_of w a") (auto simp: map_of_eq_None_iff)
  ultimately show ?thesis by (simp add: set_columns_def col_def split: option.split)
qed

lemma updated_row_facts:
  fixes e :: row
  assumes wf: "wf_aggregate spec" "sp_count_alias spec = Some cnt" and w: "typed_row spec w"
  defines "v \<equiv> set_columns w (updates spec cnt w e)"
  shows "typed_row spec v" and "vkey spec v = vkey spec w" and "col v cnt = sql_add (col w cnt) (col e cnt)"
proof -
  note spec = wf_aggregateD [OF wf]
  show "typed_row spec v"
    using w by (simp add: typed_row_def v_def set_columns_def comp_def case_prod_unfold)
  have mem: "a \<in> set (map fst w)" if "(t, a) \<in> set (agg_items spec cnt)" for t a
    using that spec(1) w by (force simp: typed_row_def table_columns_def)
  have "col v (oc_alias c) = col w (oc_alias c)" if "c \<in> set (sp_columns spec)" for c
  proof -
    have "oc_alias c \<in> set (map fst w)" using that by (intro mem [of "TExpr (oc_expr c)"]) (auto simp: in_agg_items)
    then show ?thesis using keys_not_updated [OF spec(3) that] by (simp only: v_def col_set_columns option.case)
  qed
  then show "vkey spec v = vkey spec w" by (simp add: vkey_def)
  have "cnt \<in> set (map fst w)" by (rule mem [of TCountStar]) (simp add: in_agg_items)
  then show "col v cnt = sql_add (col w cnt) (col e cnt)"
    by (simp add: v_def col_set_columns updates_def)
qed

lemma upsert_row:
  assumes wf: "wf_aggregate spec" "sp_count_alias spec = Some cnt" and V: "table_ok spec V"
    and up: "upsert spec cnt s (group_row pg spec E) V = (V', v)"
  obtains xs old ys n where "V = xs @ old @ ys" and "V' = xs @ v # ys" and "typed_row spec v"
    and "filter (\<lambda>w. vkey spec w = vkey spec (group_row pg spec E)) V = old"
    and "vkey spec v = vkey spec (group_row pg spec E)" and "col v cnt = Num n"
    and "\<forall>w \<in> set (xs @ ys). vkey spec w \<noteq> vkey spec v"
proof -
  let ?src = "group_row pg spec E" and ?e = "excluded spec cnt s (group_row pg spec E)"
  have shape: "sp_shape spec = Aggregate" using wf(1) by (simp add: wf_aggregate_iff)
  have key: "vkey spec ?e = vkey spec ?src" and cnt: "col ?e cnt = Num (s * int (length E))"
    using vkey_excluded_src [OF wf] by auto
  have dist: "distinct (map (vkey spec) V)" and typed: "\<forall>w \<in> set V. typed_row spec w"
    and counts: "\<forall>w \<in> set V. \<exists>n. col w cnt = Num n"
    using V shape wf(2) row_ident_agg [OF wf(1)]
    by (auto simp: table_ok_def list_all_iff positive_iff)
  show thesis
  proof (cases "\<exists>w \<in> set V. vkey spec w = vkey spec ?src")
    case False
    then have "\<forall>w \<in> set V. \<not> conflicts spec w ?e" by (simp add: conflicts_vkey [OF shape] key)
    from upsert_new [OF this] up have r: "V' = V @ [v]" "v = table_row spec ?e" by auto
    show thesis
      by (rule that [of V "[]" "[]" "s * int (length E)"])
        (use False r key cnt table_row_facts [OF wf] in \<open>auto simp: filter_empty_conv\<close>)
  next
    case True
    then obtain w where "w \<in> set V" "conflicts spec w ?e" by (auto simp: conflicts_vkey [OF shape] key)
    then obtain xs u ys where u: "V = xs @ u # ys" "conflicts spec u ?e"
      "upsert spec cnt s ?src V = (xs @ set_columns u (updates spec cnt u ?e) # ys, set_columns u (updates spec cnt u ?e))"
      by (rule upsert_old)
    have ku: "vkey spec u = vkey spec ?src" using u(2) by (simp add: conflicts_vkey [OF shape] key)
    obtain n where n: "col u cnt = Num n" using counts u(1) by auto
    have v: "V' = xs @ v # ys" "v = set_columns u (updates spec cnt u ?e)" using up u(3) by auto
    have facts: "typed_row spec v" "vkey spec v = vkey spec ?src" "col v cnt = Num (n + s * int (length E))"
      using updated_row_facts [OF wf, of u ?e] typed u(1) ku n cnt by (auto simp: v(2))
    have others: "\<forall>w \<in> set (xs @ ys). vkey spec w \<noteq> vkey spec ?src"
      using dist u(1) ku by (auto simp: image_iff)
    then have "filter (\<lambda>w. vkey spec w = vkey spec ?src) V = [u]"
      using u(1) ku by (auto simp: filter_empty_conv)
    with facts others u(1) v(1) show thesis by (intro that [of xs "[u]" ys]) auto
  qed
qed

lemma aggregate_row_outcome:
  assumes wf: "sp_count_alias spec = Some cnt"
    and src: "pg_populate pg (table_columns spec) row_json = Inr src"
    and up: "upsert spec cnt s src V = (rows, v)" and n: "col v cnt = Num n"
    and run: "aggregate_row pg spec s row_json V = Inr (V', ds)"
  defines "dels \<equiv> map (Pair (CHR ''D'')) (filter (\<lambda>w. vkey spec w = vkey spec src) V)"
  shows "(0 < n \<and> V' = rows \<and> ds = delta_texts pg (dels @ [(CHR ''I'', v)])) \<or>
    (n \<le> 0 \<and> V' = filter (\<lambda>v. \<not> not_positive (col v cnt)) rows \<and> ds = delta_texts pg dels)"
proof -
  have same: "(\<forall>c \<in> set (sp_columns spec). not_distinct (col w (oc_alias c)) (col src (oc_alias c))) \<longleftrightarrow>
    vkey spec w = vkey spec src" for w
    by (auto simp: not_distinct_def vkey_def)
  have returned: "rsplit_space (pg_to_jsonb pg v @ '' '' @ int_text n) = Some (pg_to_jsonb pg v, int_text n)"
    by (rule rsplit_space_append) (rule int_text_no_space)
  have texts: "delta_texts pg dels =
    map (\<lambda>v. \<lparr>d_op = CHR ''D'', d_row_json = pg_to_jsonb pg v\<rparr>) (filter (\<lambda>w. vkey spec w = vkey spec src) V)"
    by (simp add: dels_def delta_texts_def comp_def)
  obtain k where k: "parse_int 64 (int_text n) = Some k"
    using run wf src up n returned by (auto simp: aggregate_row_def returned_text_def rbind_Inr_iff Let_def)
  then have "k = n" by (rule parse_int_text_sound)
  with run wf src up n returned k show ?thesis
    by (auto simp: aggregate_row_def returned_text_def same texts delta_texts_append Let_def split: if_splits)
      (simp_all add: delta_texts_def)
qed

lemma aggregate_replay:
  assumes wf: "wf_aggregate spec" and json: "json_ok pg (table_columns spec)" and key: "refines spec key"
    and V: "table_ok spec V"
    and run: "aggregate_row pg spec s (pg_to_jsonb pg (group_row pg spec E)) V = Inr (V', ds)"
  shows "replayed pg spec key V V' ds"
proof -
  let ?src = "group_row pg spec E"
  have shape: "sp_shape spec = Aggregate" using wf by (simp add: wf_aggregate_iff)
  obtain cnt where cnt: "sp_count_alias spec = Some cnt" using wf by (auto simp: wf_aggregate_iff)
  note ident = row_ident_agg [OF wf]
  obtain rows v where up: "upsert spec cnt s ?src V = (rows, v)" by (cases "upsert spec cnt s ?src V")
  obtain xs old ys n where r: "V = xs @ old @ ys" "rows = xs @ v # ys" "typed_row spec v"
    "filter (\<lambda>w. vkey spec w = vkey spec ?src) V = old" "vkey spec v = vkey spec ?src" "col v cnt = Num n"
    "\<forall>w \<in> set (xs @ ys). vkey spec w \<noteq> vkey spec v"
    by (rule upsert_row [OF wf cnt V up])
  have table: "list_all (typed_row spec) V" "distinct (map (vkey spec) V)" "list_all (\<lambda>r. positive (col r cnt)) V"
    using V shape cnt by (simp_all add: table_ok_def ident)
  have others: "filter (\<lambda>w. \<not> vkey spec w = vkey spec ?src) V = xs @ ys"
    using r(1,4,5,7) by (auto simp: filter_empty_conv filter_id_conv)
  let ?dels = "map (Pair (CHR ''D'')) old"
  have dels: "held key V ?dels (xs @ ys)"
    using replay_delete_where [OF table_ok_keys [OF key V], of "\<lambda>w. vkey spec w = vkey spec ?src"]
    by (simp add: held_def r(4) others)
  have rest: "table_ok spec (xs @ ys)"
    using table_ok_filter [OF V, of "\<lambda>w. \<not> vkey spec w = vkey spec ?src"] by (simp add: others)
  have ins: "table_ok spec rows \<and> held key (xs @ ys) [(CHR ''I'', v)] rows" if "0 < n"
  proof
    show ok: "table_ok spec rows"
      using rest r(3,6,7) that shape cnt
      by (auto simp: table_ok_def r(2) ident null_keyed_def image_iff)
    show "held key (xs @ ys) [(CHR ''I'', v)] rows"
      using replay_insert [of key xs v ys] table_ok_keys [OF key ok] by (simp add: held_def r(2))
  qed
  have typed: "\<forall>ev \<in> set ?dels. typed_row spec (snd ev)" using table(1) r(1) by (auto simp: list_all_iff)
  from aggregate_row_outcome [OF cnt json_group_row [OF json] up r(6) run] show ?thesis
    unfolding r(4)
  proof (elim disjE conjE)
    assume "0 < n" "V' = rows" "ds = delta_texts pg (?dels @ [(CHR ''I'', v)])"
    with ins held_trans [OF dels] typed r(3) show ?thesis
      unfolding replayed_def by (intro conjI exI [of _ "?dels @ [(CHR ''I'', v)]"]) auto
  next
    assume n: "n \<le> 0" and V': "V' = filter (\<lambda>v. \<not> not_positive (col v cnt)) rows" "ds = delta_texts pg ?dels"
    have "\<not> not_positive (col w cnt)" if "w \<in> set (xs @ ys)" for w
    proof -
      have "positive (col w cnt)" using table(3) r(1) that by (auto simp: list_all_iff)
      then show ?thesis by (auto simp: positive_iff)
    qed
    then have "filter (\<lambda>v. \<not> not_positive (col v cnt)) zs = zs" if "set zs \<subseteq> set (xs @ ys)" for zs
      using that by (intro filter_True) blast
    from this [of xs] this [of ys] have "V' = xs @ ys" using n r(6) by (simp add: V'(1) r(2) del: not_positive_iff)
        (simp add: not_positive_def)
    with V'(2) rest dels typed show ?thesis
      unfolding replayed_def by (intro conjI exI [of _ ?dels]) auto
  qed
qed

section \<open>Whole executions\<close>

lemma run_row_replay:
  assumes "spec_ok spec" and "json_ok pg (table_columns spec)" and "refines spec key"
    and "table_ok spec V" and "planned_op pg spec operation" and "run_row pg spec operation V = Inr (V', ds)"
  shows "null_keyed spec V' \<or> replayed pg spec key V V' ds"
  using assms(5) unfolding planned_op_def
proof (elim disjE exE conjE)
  fix s E
  assume o1: "operation = row_op pg spec s E"
  show ?thesis
  proof (cases "sp_shape spec")
    case Aggregate
    then have "wf_aggregate spec" using assms(1) by (auto simp: spec_ok_def wf_projection_def)
    moreover have "aggregate_row pg spec s (pg_to_jsonb pg (group_row pg spec E)) V = Inr (V', ds)"
      using assms(6) o1 Aggregate by (auto simp: run_row_def execute_op_def row_op_def rbind_Inr_iff)
    ultimately show ?thesis using aggregate_replay assms(2-4) by blast
  next
    case Projection
    moreover from this have "projection_row pg spec s (pg_to_jsonb pg (group_row pg spec E)) V = Inr (V', ds)"
      using assms(6) o1 by (auto simp: run_row_def execute_op_def row_op_def rbind_Inr_iff)
    ultimately show ?thesis using projection_replay assms(2-4) by blast
  qed
next
  fix conds vals
  assume "operation = DeleteByKey conds vals"
  with assms(6) obtain p where "delete_where pg p V = (V', ds)"
    by (auto simp: run_row_def execute_op_def delete_by_key_def rbind_Inr_iff split: if_splits prod.splits)
  then show ?thesis using delete_where_replay [OF assms(3,4)] by blast
qed

lemma execute_op_run:
  "execute_op pg spec operation (V, ds) = rbind (run_row pg spec operation V) (\<lambda>(V', ds'). Inr (V', ds @ ds'))"
  by (auto simp: run_row_def execute_op_def rbind_def split: sum.splits prod.splits)

lemma execute_replay:
  assumes "spec_ok spec" and "json_ok pg (table_columns spec)" and "refines spec key"
    and "table_ok spec V" and "\<forall>operation \<in> set ops. planned_op pg spec operation"
    and "execute pg spec ops V = Inr (V', ds)"
  shows "null_keyed spec V' \<or> replayed pg spec key V V' ds"
proof -
  let ?P = "\<lambda>(W, es). null_keyed spec W \<or> replayed pg spec key V W es"
  have "?P (V', ds)"
  proof (rule rfold_invariant [of "execute_op pg spec" ops "(V, [])"])
    show "rfold (execute_op pg spec) ops (V, []) = Inr (V', ds)" using assms(6) by (simp add: execute_def)
    have "held key V [] V" by (simp add: held_def)
    with assms(4) show "?P (V, [])" by (simp add: replayed_def delta_texts_def)
  next
    fix operation s t
    assume o1: "operation \<in> set ops" and s: "?P s" and t: "execute_op pg spec operation s = Inr t"
    obtain W es W' es' where st: "s = (W, es)" "run_row pg spec operation W = Inr (W', es')" "t = (W', es @ es')"
      using t by (cases s) (auto simp: execute_op_run rbind_Inr_iff)
    have planned: "planned_op pg spec operation" using assms(5) o1 by blast
    show "?P t"
    proof (cases "null_keyed spec W")
      case True
      then show ?thesis using projection_nulls [OF _ planned st(2)] st(3) by simp
    next
      case False
      then have 1: "replayed pg spec key V W es" using s st(1) by simp
      then have "table_ok spec W" by (simp add: replayed_def)
      from run_row_replay [OF assms(1-3) this planned st(2)] replayed_trans [OF 1] show ?thesis
        using st(3) by auto
    qed
  qed
  then show ?thesis by simp
qed

lemma execute_nulls:
  assumes "null_keyed spec V" and "\<forall>operation \<in> set ops. planned_op pg spec operation"
    and "execute pg spec ops V = Inr (V', ds)"
  shows "null_keyed spec V'"
proof -
  have "null_keyed spec (fst (V', ds))"
  proof (rule rfold_invariant [of "execute_op pg spec" ops "(V, [])" _ "\<lambda>s. null_keyed spec (fst s)"])
    show "rfold (execute_op pg spec) ops (V, []) = Inr (V', ds)" using assms(3) by (simp add: execute_def)
    show "null_keyed spec (fst (V, []))" using assms(1) by simp
    show "null_keyed spec (fst t)"
      if "operation \<in> set ops" "null_keyed spec (fst s)" "execute_op pg spec operation s = Inr t" for operation s t
      using that assms(2) projection_nulls by (cases s) (force simp: execute_op_run rbind_Inr_iff)
  qed
  then show ?thesis by simp
qed

section \<open>What planning produces\<close>

lemma rmap_eval: "rmap (pg_eval pg e) envs = Inr ds \<Longrightarrow> ds = map (ev pg e) envs"
  by (induction envs arbitrary: ds) (auto simp: rbind_Inr_iff ev_def)

lemma item_value_item: "item_value pg t envs = Inr d \<Longrightarrow> d = item pg t envs"
  by (cases t) (auto simp: rbind_Inr_iff ev_def dest: rmap_eval split: list.splits)

lemma select_row_group: "select_row pg items envs = Inr r \<Longrightarrow> r = out_row pg items envs"
  unfolding select_row_def out_row_def
  by (induction items arbitrary: r) (auto simp: rbind_Inr_iff dest: item_value_item)

lemma delta_rows_planned:
  assumes "delta_rows pg spec envs s = Inr ops"
  shows "\<forall>operation \<in> set ops. planned_op pg spec operation"
proof -
  obtain gs rows where g: "rmap (select_row pg (sp_select_list spec)) gs = Inr rows"
    and ops: "ops = map (\<lambda>r. Row s (pg_to_jsonb pg r)) rows"
    using assms by (auto simp: delta_rows_def sql_select_def rbind_Inr_iff)
  have "\<exists>E. r = group_row pg spec E" if mem: "r \<in> set rows" for r
  proof -
    obtain i where "i < length rows" "rows ! i = r" using mem unfolding in_set_conv_nth by blast
    then show ?thesis
      using g select_row_group [of pg "sp_select_list spec" "gs ! i" r]
      by (auto simp: rmap_Inr_iff list_all2_conv_all_nth group_row_def)
  qed
  then show ?thesis by (fastforce simp: ops planned_op_def row_op_def)
qed

lemma key_conditions_columns:
  "key_conditions rel old pks = Inr (Inr (conds, vals)) \<Longrightarrow> map fst conds = map snd pks"
proof (induction rel old pks arbitrary: conds vals rule: key_conditions.induct)
  case (2 rel old pk view_col pks)
  obtain idx ty v where i: "rel_column_index rel pk = Some idx" "rc_type_name (rel_columns rel ! idx) = Some ty"
    "nth_opt old idx = Some v"
    using "2.prems" by (auto simp: rbind_Inr_iff)
  then obtain t where t: "v = CText t" using "2.prems" by (cases v) auto
  then obtain rest where rest: "key_conditions rel old pks = Inr rest"
    using "2.prems" i by (auto simp: rbind_Inr_iff)
  then obtain cs vs where "rest = Inr (cs, vs)" using "2.prems" i t by (cases rest) auto
  with "2.IH" [of idx ty v t] rest "2.prems" i t show ?case by auto
qed simp

lemma plan_single_planned:
  "plan_single_insert pg spec rel new = Inr ops \<Longrightarrow> \<forall>operation \<in> set ops. planned_op pg spec operation"
  "spec_ok spec \<Longrightarrow> \<not> is_join spec \<Longrightarrow> plan_single_delete pg spec rel kind old = Inr (Ops ops) \<Longrightarrow>
    \<forall>operation \<in> set ops. planned_op pg spec operation"
proof -
  show "plan_single_insert pg spec rel new = Inr ops \<Longrightarrow> \<forall>operation \<in> set ops. planned_op pg spec operation"
    by (auto simp: plan_single_insert_def dest: delta_rows_planned)
  assume spec: "spec_ok spec" "\<not> is_join spec" and plan: "plan_single_delete pg spec rel kind old = Inr (Ops ops)"
  show "\<forall>operation \<in> set ops. planned_op pg spec operation"
  proof (cases "sp_shape spec")
    case Projection
    with plan obtain res where res: "key_conditions rel old (zip (sp_pk_columns spec) (sp_pk_view_columns spec)) = Inr res"
      by (auto simp: plan_single_delete_def rbind_Inr_iff)
    with plan Projection obtain conds vals where k: "ops = [DeleteByKey conds vals]" "res = Inr (conds, vals)"
      by (cases res) (auto simp: plan_single_delete_def)
    have "map fst conds = sp_pk_view_columns spec"
      using key_conditions_columns [OF res [unfolded k(2)]] spec Projection by (simp add: spec_ok_def)
    then have "set (sp_pk_view_columns spec) \<subseteq> fst ` set conds" by (metis order_refl set_map)
    then show ?thesis by (auto simp: k(1) planned_op_def)
  next
    case Aggregate
    with plan show ?thesis
      by (auto simp: plan_single_delete_def rbind_Inr_iff dest: delta_rows_planned split: if_splits)
  qed
qed

lemma plan_join_planned:
  "plan_join pg shadows spec i rel t s = Inr ops \<Longrightarrow> \<forall>operation \<in> set ops. planned_op pg spec operation"
  by (auto simp: plan_join_def dest: delta_rows_planned)

section \<open>The subscriber's view of a table\<close>

definition json_key :: "pg \<Rightarrow> (string \<Rightarrow> json option) \<Rightarrow> view_spec \<Rightarrow> row \<Rightarrow> json list" where
  "json_key pg parse spec r = net_key spec (json_of_row pg parse r)"

text \<open>The visible columns of a table's rows by their identity, as JSON.\<close>

definition shown :: "pg \<Rightarrow> (string \<Rightarrow> json option) \<Rightarrow> view_spec \<Rightarrow> row list \<Rightarrow> json list \<rightharpoonup> json" where
  "shown pg parse spec V = map_option (\<lambda>r. visible spec (json_of_row pg parse r)) \<circ> lookup (json_key pg parse spec) V"

lemma json_faithful_refines: "json_faithful pg parse print spec \<Longrightarrow> refines spec (json_key pg parse spec)"
  by (auto simp: json_faithful_def refines_def json_key_def)

lemma replay_map:
  "replay id (\<lambda>r. key (g r)) evs s = Some t \<Longrightarrow>
   replay id key (map (\<lambda>(o1, r). (o1, g r)) evs) (map_option g \<circ> s) = Some (map_option g \<circ> t)"
proof (induction evs arbitrary: s)
  case Nil
  then show ?case by simp
next
  case (Cons ev evs)
  then obtain u where u: "replay_step id (\<lambda>r. key (g r)) ev s = Some u" "replay id (\<lambda>r. key (g r)) evs u = Some t"
    by (auto simp only: replay.simps bind_eq_Some_conv)
  obtain c r where ev: "ev = (c, r)" by (cases ev)
  have "replay_step id key (c, g r) (map_option g \<circ> s) = Some (map_option g \<circ> u)"
    using u(1) unfolding replay_step_def ev
    by (auto split: if_splits intro!: ext)
  then have "replay_step id key (case ev of (o1, r) \<Rightarrow> (o1, g r)) (map_option g \<circ> s) = Some (map_option g \<circ> u)"
    by (simp add: ev)
  with Cons.IH [OF u(2)] show ?case by (simp only: list.map replay.simps Option.bind.bind_lunit)
qed

lemma parsed_texts:
  assumes "json_faithful pg parse print spec" and "\<forall>ev \<in> set evs. typed_row spec (snd ev)"
  shows "parsed parse (delta_texts pg evs) = map (\<lambda>(o1, r). (o1, json_of_row pg parse r)) evs"
  using assms(2)
proof (induction evs)
  case Nil
  show ?case by (simp add: parsed_def delta_texts_def List.map_filter_simps)
next
  case (Cons ev evs)
  then have "parse (pg_to_jsonb pg (snd ev)) = Some (json_of_row pg parse (snd ev))"
    using assms(1) by (auto simp: json_faithful_def json_of_row_def)
  with Cons show ?case by (auto simp: parsed_def delta_texts_def List.map_filter_simps split: prod.splits)
qed

lemma replayed_shown:
  assumes "json_faithful pg parse print spec" and "replayed pg spec (json_key pg parse spec) V V' ds"
  shows "replay (visible spec) (net_key spec) (parsed parse (net parse print spec ds)) (shown pg parse spec V) =
      Some (shown pg parse spec V')"
    and "\<forall>d \<in> set (net parse print spec ds). parse (d_row_json d) \<noteq> None"
proof -
  let ?g = "json_of_row pg parse"
  obtain evs where ds: "ds = delta_texts pg evs" and typed: "\<forall>ev \<in> set evs. typed_row spec (snd ev)"
    and r: "replay id (\<lambda>r. net_key spec (?g r)) evs (lookup (json_key pg parse spec) V) =
      Some (lookup (json_key pg parse spec) V')"
    using assms(2) by (auto simp: replayed_def held_def json_key_def [abs_def])
  have prs: "parsed parse ds = map (\<lambda>(o1, r). (o1, ?g r)) evs"
    unfolding ds by (rule parsed_texts [OF assms(1) typed])
  have evs_back: "\<forall>ev \<in> set (parsed parse ds). parse (print (snd ev)) = Some (snd ev)"
    using typed assms(1) by (fastforce simp: prs json_faithful_def)
  have n: "parsed parse (net parse print spec ds) = net_events spec (parsed parse ds)"
    using evs_back by (rule parsed_net)
  have s: "shown pg parse spec W = map_option (visible spec) \<circ> (map_option ?g \<circ> lookup (json_key pg parse spec) W)" for W
    by (auto simp: shown_def option.map_comp comp_def)
  have "parse (print (snd ev)) \<noteq> None" if "ev \<in> set (net_events spec (parsed parse ds))" for ev
  proof -
    have "snd ev \<in> snd ` set (parsed parse ds)" using that net_events_rows by fast
    with evs_back show ?thesis by auto
  qed
  then show "\<forall>d \<in> set (net parse print spec ds). parse (d_row_json d) \<noteq> None"
    by (auto simp: net_def)
  show "replay (visible spec) (net_key spec) (parsed parse (net parse print spec ds)) (shown pg parse spec V) =
      Some (shown pg parse spec V')"
    unfolding n s by (rule replay_net_events) (use replay_map [where g = ?g and key = "net_key spec", OF r] in \<open>simp add: prs\<close>)
qed

end
