(* ===== verification/Round_Replay.thy ===== *)
theory Round_Replay
  imports Round_Properties Delta_Replay
begin

text \<open>
  A round keeps the log true to the storage tables: whatever transactions it applies, the deltas it
  appends to a view's log take a subscriber from the rows the storage table showed before the round to
  the rows it shows after.
\<close>

section \<open>Planning for a view\<close>

lemma with_resolved_Ops:
  assumes "with_resolved r k = Inr (Ops ops)"
  obtains t where "r = Inr t" and "k t = Inr (Ops ops)"
proof (cases r)
  case (Inl e)
  with assms show thesis by (cases e) (simp_all add: with_resolved_def)
next
  case (Inr t)
  with assms that show thesis by (simp add: with_resolved_def)
qed

lemma plan_change_join_planned:
  assumes "plan_change_join h shadows view rel ch old = Inr (Ops ops)"
  shows "\<forall>operation \<in> set ops. planned_op (h_pg h) (lv_spec view) operation"
proof (cases ch)
  case (ChUpdate relid old' new)
  then obtain i full where f: "relation_index view (rel_id rel) = Some i" "old = Some full"
    using assms by (cases old) (auto simp: plan_change_join_def rbind_Inr_iff Let_def)
  show ?thesis
  proof (cases "touches_used_columns view (rel_id rel) rel (Some full) new")
    case True
    with assms f ChUpdate show ?thesis
      by (auto simp: plan_change_join_def rbind_Inr_iff Let_def elim!: with_resolved_Ops dest!: plan_join_planned)
  qed (use assms f ChUpdate in \<open>simp add: plan_change_join_def\<close>)
qed (use assms in \<open>cases old; auto simp: plan_change_join_def rbind_Inr_iff Let_def elim!: with_resolved_Ops
      dest!: plan_join_planned\<close>)+

lemma plan_change_single_planned:
  assumes "plan_change_single h view rel ch = Inr (Ops ops)" and "spec_ok (lv_spec view)" and "\<not> is_join (lv_spec view)"
  shows "\<forall>operation \<in> set ops. planned_op (h_pg h) (lv_spec view) operation"
proof (cases ch)
  case (ChInsert relid new)
  with assms show ?thesis
    by (auto simp: plan_change_single_def rbind_Inr_iff elim!: with_resolved_Ops dest!: plan_single_planned(1))
next
  case (ChUpdate relid old new)
  show ?thesis
  proof (cases "ops = []")
    case False
    define kt where "kt = (case old of None \<Rightarrow> (0x4B, new) | Some kt \<Rightarrow> kt)"
    obtain res where res: "plan_single_delete (h_pg h) (lv_spec view) rel (fst kt) (snd kt) = Inr res"
      "(case res of PlannedStale s \<Rightarrow> Inr (PlannedStale s) | Ops dels \<Rightarrow>
        with_resolved (resolve_unchanged rel new (map_option snd old) (mentions view)) (\<lambda>new.
        rbind (plan_single_insert (h_pg h) (lv_spec view) rel new) (\<lambda>ins. Inr (Ops (dels @ ins))))) = Inr (Ops ops)"
      using assms(1) False
      by (auto simp: plan_change_single_def ChUpdate rbind_Inr_iff Let_def kt_def [symmetric] case_prod_unfold
          split: if_splits)
    then obtain dels ins t where d: "plan_single_delete (h_pg h) (lv_spec view) rel (fst kt) (snd kt) = Inr (Ops dels)"
      and i: "plan_single_insert (h_pg h) (lv_spec view) rel t = Inr ins" and ops: "ops = dels @ ins"
      by (cases res) (auto simp: rbind_Inr_iff elim!: with_resolved_Ops)
    show ?thesis
      using plan_single_planned(1) [OF i] plan_single_planned(2) [OF assms(2,3) d] by (auto simp: ops)
  qed simp
next
  case (ChDelete relid kind old)
  with assms plan_single_planned(2) [OF assms(2,3)] show ?thesis by (auto simp: plan_change_single_def)
next
  case (ChTruncate relids)
  with assms show ?thesis by (auto simp: plan_change_single_def)
qed

definition ops_planned :: "host \<Rightarrow> view_entry \<Rightarrow> live_view \<Rightarrow> bool" where
  "ops_planned h e v \<longleftrightarrow>
     (spec_ok (lv_spec v) \<longrightarrow> (\<forall>operation \<in> set (lv_ops v). planned_op (h_pg h) (lv_spec v) operation))"

interpretation planned_ops: view_invariant h "ops_planned h" for h
proof unfold_locales
  show "loaded e \<Longrightarrow> ops_planned h e (the (load_live_view e))" for e
    by (auto simp: loaded_def ops_planned_def load_live_view_def)
  show "ops_planned h e v \<Longrightarrow> ops_planned h e (view_drift end_lsn relid rel v)" for e v end_lsn relid rel
    by (simp add: ops_planned_def view_drift_def split: option.splits)
  show "ops_planned h e v \<Longrightarrow> ops_planned h e (shadow_failure_for_view relid rel message v)" for e v relid rel message
    by (simp add: ops_planned_def shadow_failure_for_view_def)
  show "ops_planned h e (plan_view h shadows end_lsn rel ch relid old v)"
    if "ops_planned h e v" for e v shadows end_lsn rel ch relid old
  proof -
    have "\<forall>operation \<in> set ops. planned_op (h_pg h) (lv_spec v) operation"
      if "plan_change h shadows v rel ch (old_full old) = Inr (Ops ops)" "spec_ok (lv_spec v)" for ops
      using that plan_change_join_planned plan_change_single_planned
      by (auto simp: plan_change_def split: if_splits)
    with that show ?thesis
      by (auto simp: ops_planned_def plan_view_def split: sum.splits planned.splits option.splits bool.splits)
  qed
  show "ops_planned h e v'" if "ops_planned h e v" "execute_view h ti tx v (d, b) = (v', d', b')"
    for e v ti tx d b v' d' b'
  proof -
    have fail: "lv_ops v'' = lv_ops w \<and> lv_spec v'' = lv_spec w"
      if "fail_view h ti w m s = (v'', d'', b'')" for w m s v'' d'' b''
      using that by (cases s) (auto simp: fail_view_def record_failure_def Let_def split: if_splits)
    from that show ?thesis
      by (auto simp: execute_view_def ops_planned_def absorb_def dest!: fail split: if_splits option.splits sum.splits)
  qed
qed

section \<open>One view through a round\<close>

definition pending_delta_of :: "pending_delta \<Rightarrow> delta" where
  "pending_delta_of p = \<lparr>d_op = pd_op p, d_row_json = pd_row_json p\<rparr>"

definition log_delta :: "delta_entry \<Rightarrow> delta" where
  "log_delta e = \<lparr>d_op = de_op e, d_row_json = de_row e\<rparr>"

text \<open>Deltas that can be parsed, and that lead a subscriber from the visible rows of one table to those of another.\<close>

definition leads :: "host \<Rightarrow> view_spec \<Rightarrow> row list \<Rightarrow> delta list \<Rightarrow> row list \<Rightarrow> bool" where
  "leads h spec V ds W \<longleftrightarrow>
     (\<forall>d \<in> set ds. h_parse h (d_row_json d) \<noteq> None) \<and>
     replay (visible spec) (net_key spec) (parsed (h_parse h) ds) (shown (h_pg h) (h_parse h) spec V) =
       Some (shown (h_pg h) (h_parse h) spec W)"

lemma leads_refl: "leads h spec V [] V"
  by (simp add: leads_def parsed_def List.map_filter_simps)

lemma parsed_append: "parsed parse (xs @ ys) = parsed parse xs @ parsed parse ys"
  unfolding parsed_def by (induction xs) (simp_all add: List.map_filter_simps split: option.split)

lemma leads_trans: "leads h spec U ds V \<Longrightarrow> leads h spec V ds' W \<Longrightarrow> leads h spec U (ds @ ds') W"
  by (auto simp: leads_def parsed_append replay_append)

text \<open>
  The storage table stays a table and the pending deltas lead from its rows before the round to its
  rows now; unless a row with a NULL key got into it, which then stays.
\<close>

definition follows :: "host \<Rightarrow> view_spec \<Rightarrow> row list \<Rightarrow> live_view \<Rightarrow> row list \<Rightarrow> bool" where
  "follows h spec V v W \<longleftrightarrow>
     null_keyed spec W \<or> (table_ok spec W \<and> leads h spec V (map pending_delta_of (lv_pending v)) W)"

text \<open>What is assumed of PostgreSQL's and \<open>serde_json\<close>'s JSON for the rows of a view.\<close>

definition json_laws :: "host \<Rightarrow> view_spec \<Rightarrow> bool" where
  "json_laws h spec \<longleftrightarrow>
     json_ok (h_pg h) (table_columns spec) \<and> json_faithful (h_pg h) (h_parse h) (h_print h) spec"

lemma numbered_deltas: "map pending_delta_of (number_deltas tx n ds) = ds"
  by (rule nth_equalityI) (simp_all add: number_deltas_def pending_delta_of_def nth_enumerate_eq)

lemma execute_view_follows:
  assumes ex: "execute_view h ti tx v (d, b) = (v', d', b')" and spec: "lv_spec v = spec"
    and laws: "spec_ok spec" "json_laws h spec"
    and ops: "\<forall>operation \<in> set (lv_ops v). planned_op (h_pg h) spec operation"
    and f: "follows h spec V v (storage d (lv_id v))"
  shows "follows h spec V v' (storage d' (lv_id v))"
proof -
  have json: "json_ok (h_pg h) (table_columns spec)" "json_faithful (h_pg h) (h_parse h) (h_print h) spec"
    using laws(2) by (simp_all add: json_laws_def)
  have fail: "follows h spec V v' (storage d' (lv_id v))"
    if r: "fail_view h ti w m (d, b) = (v', d', b')" and p: "lv_pending w = lv_pending v" for w m
  proof -
    have "lv_pending v' = lv_pending v" using same_track_fail [OF r] p by (simp add: same_track_def)
    with f fail_view_others(4) [OF r] show ?thesis by (simp add: follows_def storage_def)
  qed
  show ?thesis
  proof (cases "lv_dead v \<or> tx_end_lsn tx \<le> lv_frontier v \<or> lv_stale v \<noteq> None \<or> lv_failed v \<noteq> None \<or>
      (\<exists>m. execute (h_pg h) spec (lv_ops v) (storage d (lv_id v)) = Inl m)")
    case True
    have stale: "storage (mark_stale v r d) (lv_id v) = storage d (lv_id v)" for r
      by (simp add: storage_def mark_stale_def update_view_def)
    from True ex f fail spec stale show ?thesis
      by (auto simp: execute_view_def follows_def split: if_splits option.splits sum.splits)
  next
    case False
    then obtain rows ds where run: "execute (h_pg h) spec (lv_ops v) (storage d (lv_id v)) = Inr (rows, ds)"
      by (cases "execute (h_pg h) spec (lv_ops v) (storage d (lv_id v))") auto
    let ?net = "net (h_parse h) (h_print h) spec ds"
    have v': "lv_pending v' = lv_pending v @ number_deltas tx (lv_last_seq v) ?net"
      and d': "storage d' (lv_id v) = rows"
      using ex False run spec by (auto simp: execute_view_def absorb_def storage_def)
    show ?thesis
    proof (cases "null_keyed spec (storage d (lv_id v))")
      case True
      then show ?thesis using execute_nulls [OF True ops run] by (simp add: follows_def d')
    next
      case False
      then have t: "table_ok spec (storage d (lv_id v))"
        and l: "leads h spec V (map pending_delta_of (lv_pending v)) (storage d (lv_id v))"
        using f by (simp_all add: follows_def)
      from execute_replay [OF laws(1) json(1) json_faithful_refines [OF json(2)] t ops run] show ?thesis
      proof
        assume r: "replayed (h_pg h) spec (json_key (h_pg h) (h_parse h) spec) (storage d (lv_id v)) rows ds"
        then have "leads h spec (storage d (lv_id v)) ?net rows"
          using replayed_shown [OF json(2)] by (simp add: leads_def)
        with leads_trans [OF l] r show ?thesis
          by (simp add: follows_def d' v' numbered_deltas replayed_def)
      qed (simp add: follows_def d')
    qed
  qed
qed

text \<open>The view of one catalog row in a round.\<close>

definition row_follows :: "host \<Rightarrow> view_entry \<Rightarrow> row list \<Rightarrow> round \<Rightarrow> bool" where
  "row_follows h e V rn \<longleftrightarrow>
     (\<forall>v \<in> set (rn_views rn). lv_id v = vw_id e \<longrightarrow> follows h (the (vw_spec e)) V v (storage (rn_db rn) (vw_id e)))"

lemma tracked_spec:
  assumes "list_all2 tracks (loaded_entries d) vs" and "unique_ids d" and "e \<in> set (loaded_entries d)"
    and "v \<in> set vs" and "lv_id v = vw_id e"
  shows "tracks e v"
proof -
  obtain f where f: "f \<in> set (loaded_entries d)" "tracks f v"
    using assms(1,4) by (metis in_set_conv_nth list_all2_conv_all_nth)
  have "distinct (map vw_id (loaded_entries d))"
    using assms(2) by (simp add: unique_ids_def loaded_entries_def distinct_map_filter)
  moreover have "vw_id f = vw_id e" using f(2) assms(5) by (simp add: tracks_def)
  ultimately show ?thesis using f assms(3) by (metis distinct_map inj_onD)
qed

lemma row_follows_step:
  assumes tx: "apply_tx h rels (ti, tx) rn = Inr rn'"
    and inv: "list_all2 tracks (loaded_entries d) (rn_views rn)" "list_all2 (ops_planned h) (loaded_entries d) (rn_views rn)"
    and e: "unique_ids d" "e \<in> set (loaded_entries d)" "spec_ok (the (vw_spec e))" "json_laws h (the (vw_spec e))"
    and f: "row_follows h e V rn"
  shows "row_follows h e V rn'"
  unfolding row_follows_def
proof (intro ballI impI)
  fix v'
  assume v': "v' \<in> set (rn_views rn')" "lv_id v' = vw_id e"
  have dist: "distinct (map lv_id (rn_views rn))"
    using e(1) tracked_ids [OF inv(1)] by (simp add: unique_ids_def loaded_entries_def distinct_map_filter)
  note ids = apply_tx_ids [OF tx]
  obtain j where j': "j < length (rn_views rn')" "v' = rn_views rn' ! j" using v'(1) unfolding in_set_conv_nth by blast
  then have j: "j < length (rn_views rn)" using arg_cong [OF ids, of length] by simp
  obtain mid d0 b0 d1 b1 where m: "plan_tx h rels tx rn = Inr mid" "planned_from (rn_views rn ! j) (rn_views mid ! j)"
    "execute_view h ti tx (rn_views mid ! j) (d0, b0) = (v', d1, b1)"
    "same_slice (lv_id (rn_views mid ! j)) (rn_db rn) d0" "same_slice (lv_id (rn_views mid ! j)) d1 (rn_db rn')"
    unfolding j'(2) by (rule apply_tx_mid [OF tx dist j])
  let ?v = "rn_views rn ! j" and ?w = "rn_views mid ! j"
  have same: "lv_id ?w = lv_id ?v" "lv_spec ?w = lv_spec ?v" "lv_pending ?w = lv_pending ?v"
    using m(2) by (simp_all add: planned_from_def same_track_def)
  have id: "lv_id ?w = vw_id e" using execute_view_others(3) [OF m(3)] v'(2) by simp
  have "tracks e ?v" using tracked_spec [OF inv(1) e(1,2)] j id same(1) by simp
  then have spec: "lv_spec ?w = the (vw_spec e)" using same(2) by (simp add: tracks_def)
  have "list_all2 (ops_planned h) (loaded_entries d) (rn_views mid)" by (rule planned_ops.plan_tx [OF m(1) inv(2)])
  moreover have "j < length (rn_views mid)" using list_all2_lengthD [OF plan_tx_views [OF m(1)]] j by simp
  ultimately have "\<exists>f. ops_planned h f ?w" by (auto simp: list_all2_conv_all_nth)
  then have ops: "\<forall>operation \<in> set (lv_ops ?w). planned_op (h_pg h) (the (vw_spec e)) operation"
    using e(3) spec by (auto simp: ops_planned_def)
  have "follows h (the (vw_spec e)) V ?v (storage (rn_db rn) (vw_id e))"
    using f j id same(1) by (simp add: row_follows_def)
  then have "follows h (the (vw_spec e)) V ?w (storage d0 (lv_id ?w))"
    using m(4) same(3) id by (simp add: follows_def same_slice_def storage_def)
  from execute_view_follows [OF m(3) spec e(3,4) ops this] m(5) id
  show "follows h (the (vw_spec e)) V v' (storage (rn_db rn') (vw_id e))"
    by (simp add: same_slice_def storage_def)
qed

lemma row_follows_start:
  assumes "table_ok (the (vw_spec e)) (storage d (vw_id e))"
  shows "row_follows h e (storage d (vw_id e)) (start_round d end_lsn rels)"
  unfolding row_follows_def
proof (intro ballI impI)
  fix v
  assume "v \<in> set (rn_views (start_round d end_lsn rels))"
  then obtain u where "u \<in> set (load_live_views d)" "planned_from u v"
    using start_views by (metis in_set_conv_nth list_all2_conv_all_nth)
  moreover have "\<forall>u \<in> set (load_live_views d). lv_pending u = []"
    by (auto simp: load_live_views_map loaded_entries_def loaded_def load_live_view_def)
  ultimately have "lv_pending v = []" by (simp add: planned_from_def same_track_def)
  with assms show "follows h (the (vw_spec e)) (storage d (vw_id e)) v
      (storage (rn_db (start_round d end_lsn rels)) (vw_id e))"
    by (simp add: follows_def leads_refl storage_def start_round_tables)
qed

lemma row_follows_round:
  assumes run: "rfold (apply_tx h rels) itxs (start_round d end_lsn rels) = Inr rn"
    and e: "unique_ids d" "e \<in> set (loaded_entries d)" "spec_ok (the (vw_spec e))" "json_laws h (the (vw_spec e))"
    and table: "table_ok (the (vw_spec e)) (storage d (vw_id e))"
  shows "row_follows h e (storage d (vw_id e)) rn"
proof -
  let ?P = "\<lambda>rn. list_all2 tracks (loaded_entries d) (rn_views rn) \<and>
    list_all2 (ops_planned h) (loaded_entries d) (rn_views rn) \<and> row_follows h e (storage d (vw_id e)) rn"
  have "?P rn"
  proof (rule rfold_invariant [OF run])
    show "?P (start_round d end_lsn rels)"
      using tracked.start planned_ops.start row_follows_start [OF table] by blast
    fix itx s t
    assume s: "?P s" and t: "apply_tx h rels itx s = Inr t"
    obtain ti tx where itx: "itx = (ti, tx)" by (cases itx)
    show "?P t"
      using tracked.apply_tx [OF t] planned_ops.apply_tx [OF t] row_follows_step [OF t [unfolded itx] _ _ e] s by blast
  qed
  then show ?thesis by blast
qed

section \<open>The log of a round\<close>

lemma log_after:
  assumes "tracks e v" and "log_ok e es"
    and "vw_last_seq (finish_entry v c) - vw_last_seq e \<le> st_retain_deltas (h_settings h)" and "status_only e c"
  shows "filter (\<lambda>x. de_seq x > vw_last_seq e) (finish_deltas h v es) = map (delta_entry v) (lv_pending v)"
proof -
  have "de_seq x \<in> de_seq ` set es" if "x \<in> set es" for x using that by blast
  then have old: "de_seq x \<le> vw_last_seq e" if "x \<in> set es" for x
    using that arg_cong [of _ _ set, OF conjunct1 [OF assms(2) [unfolded log_ok_def]]] by auto
  then have none: "filter (\<lambda>x. de_seq x > vw_last_seq e) es = []" by (auto simp: filter_empty_conv not_less)
  show ?thesis
  proof (cases "lv_absorbed v = None \<or> lv_pending v = []")
    case True
    then have "lv_pending v = []" using assms(1) by (auto simp: tracks_def)
    with none show ?thesis by (simp add: finish_deltas_def)
  next
    case False
    then obtain l where l: "lv_absorbed v = Some l" by (cases "lv_absorbed v") auto
    have seqs: "map pd_seq (lv_pending v) = [vw_last_seq e + 1 .. lv_last_seq v]"
      using assms(1) l by (simp add: tracks_def)
    have retain: "lv_last_seq v - vw_last_seq e \<le> st_retain_deltas (h_settings h)"
      using assms(3) l by (simp add: finish_entry_def split: if_splits)
    have new: "de_seq x > vw_last_seq e" if "x \<in> set (map (delta_entry v) (lv_pending v))" for x
    proof -
      have "de_seq x \<in> set (map pd_seq (lv_pending v))" using that by (auto simp: delta_entry_def)
      then show ?thesis unfolding seqs by simp
    qed
    have "filter (\<lambda>x. de_seq x > vw_last_seq e) (finish_deltas h v es) =
      filter (\<lambda>x. de_seq x > vw_last_seq e) (es @ map (delta_entry v) (lv_pending v))"
    proof -
      have both: "(\<lambda>x. de_seq x > lv_last_seq v - st_retain_deltas (h_settings h) \<and> de_seq x > vw_last_seq e) =
        (\<lambda>x. de_seq x > vw_last_seq e)"
        using retain by auto
      show ?thesis using False unfolding finish_deltas_def by (simp only: if_False filter_filter both)
    qed
    moreover have "filter (\<lambda>x. de_seq x > vw_last_seq e) (map (delta_entry v) (lv_pending v)) = map (delta_entry v) (lv_pending v)"
      using new by (intro filter_True ballI)
    ultimately show ?thesis using none by (simp only: filter_append append_Nil)
  qed
qed

text \<open>
  The storage table and the log of one row after a round that committed. The premises are the ones of the
  properties on subscribers.
\<close>

lemma round_leads:
  assumes round: "apply_round h dec txs d = Inr (Inr (dec', st), d')" and cat: "catalog_ok d"
    and e: "find_id i d = Some e" "loaded e" and e': "find_id i d' = Some e'"
    and spec: "vw_spec e = Some spec" "spec_ok spec" "json_laws h spec"
    and table: "table_ok spec (storage d i)" "\<not> null_keyed spec (storage d' i)"
    and retain: "vw_last_seq e' - vw_last_seq e \<le> st_retain_deltas (h_settings h)"
  shows "table_ok spec (storage d' i)"
    and "leads h spec (storage d i) (map log_delta (filter (\<lambda>x. de_seq x > vw_last_seq e) (deltas_of i d'))) (storage d' i)"
proof -
  obtain rels rn where rn: "rfold (apply_tx h rels) (enumerate 0 txs) (start_round d (round_end txs) rels) = Inr rn"
    and d': "d' = finish_round h rn"
    using round by (rule apply_roundE)
  have ids: "unique_ids d" using cat by (simp add: catalog_ok_def)
  have i: "vw_id e = i" "e \<in> set (loaded_entries d)" using find_idD [OF e(1)] e(2) by (simp_all add: loaded_entries_def)
  have log: "log_ok e (deltas_of i d)" using cat i by (auto simp: catalog_ok_def loaded_entries_def)
  obtain v c where v: "v \<in> set (rn_views rn)" "tracks e v" "status_only e c"
    and fin: "find_id i d' = Some (finish_entry v c)" and del: "deltas_of i d' = finish_deltas h v (deltas_of i d)"
    using round_view [OF rn ids i(2)] unfolding i(1) d' by metis
  have "storage d' i = storage (rn_db rn) i" by (simp add: d' finish_round_def storage_def)
  moreover have "row_follows h e (storage d i) rn"
    using row_follows_round [OF rn ids i(2)] spec table(1) i(1) by simp
  ultimately have "follows h spec (storage d i) v (storage d' i)"
    using v(1,2) i(1) spec(1) by (simp add: row_follows_def tracks_def)
  then have f: "table_ok spec (storage d' i)" "leads h spec (storage d i) (map pending_delta_of (lv_pending v)) (storage d' i)"
    using table(2) by (simp_all add: follows_def)
  have "filter (\<lambda>x. de_seq x > vw_last_seq e) (deltas_of i d') = map (delta_entry v) (lv_pending v)"
    unfolding del by (rule log_after [OF v(2) log _ v(3)]) (use retain e' fin in simp)
  then have "map log_delta (filter (\<lambda>x. de_seq x > vw_last_seq e) (deltas_of i d')) = map pending_delta_of (lv_pending v)"
    by (simp add: comp_def log_delta_def delta_entry_def pending_delta_of_def)
  with f show "table_ok spec (storage d' i)"
    and "leads h spec (storage d i) (map log_delta (filter (\<lambda>x. de_seq x > vw_last_seq e) (deltas_of i d'))) (storage d' i)"
    by simp_all
qed

end
