(* ===== verification/Subscription.thy ===== *)
theory Subscription
  imports Round_Replay Api_Theorems Populate_Theorems Validator_Theorems
begin

text \<open>
  From the base tables' changes to the subscriber: a round of the worker keeps the log true to the
  storage table, and a subscriber that reads the table, remembers the number of the last delta, and asks
  \<open>changes\<close> for what came after holds the visible rows of the table after the round.
\<close>

section \<open>Rows a subscriber reads\<close>

text \<open>What a row of \<open>changes\<close> tells a subscriber to do.\<close>

definition row_event :: "change_row \<Rightarrow> char \<times> json" where
  "row_event r = (hd (ch_op r), ch_row r)"

lemma minus_no_keys [simp]: "minus_keys j [] = j"
  by (cases j) simp_all

lemma row_events_parsed:
  assumes "\<forall>t j. parse t = Some j \<longrightarrow> ap_json ap t = j"
    and "\<forall>x \<in> set es. parse (de_row x) \<noteq> None"
  shows "map row_event (map (change_row ap []) es) = parsed parse (map log_delta es)"
  using assms(2)
proof (induction es)
  case Nil
  show ?case by (simp add: parsed_def List.map_filter_simps)
next
  case (Cons x es)
  then obtain j where "parse (de_row x) = Some j" by auto
  with Cons assms(1) show ?case
    by (simp add: row_event_def change_row_def parsed_def log_delta_def List.map_filter_simps)
qed

section \<open>Where a view starts\<close>






section \<open>Properties\<close>

text \<open>
  C2. The log of a round is exact. Whatever transactions a round applies, if it commits, then for every
  live view, maintained, failing or stale alike, the storage table keeps distinct identities and no empty
  groups, and replaying the deltas the round appended to the view's log on the visible rows of the table
  before the round gives the visible rows after it: every delete names a row that is there and every
  insert a free identity. Assumed: no more deltas were appended than the log retains; a primary key has no
  NULL; and \<open>to_jsonb\<close> and \<open>serde_json\<close> keep rows apart that have different identities.
\<close>

theorem round_log_replays_view:
  assumes "apply_round h dec txs d = Inr (Inr (dec', st), d')" and "catalog_ok d"
    and "find_id i d = Some e" and "loaded e" and "find_id i d' = Some e'"
    and "vw_spec e = Some spec" and "spec_ok spec" and "json_laws h spec"
    and "table_ok spec (storage d i)" and "\<not> null_keyed spec (storage d' i)"
    and "vw_last_seq e' - vw_last_seq e \<le> st_retain_deltas (h_settings h)"
  shows "table_ok spec (storage d' i) \<and>
    replay (visible spec) (net_key spec)
      (parsed (h_parse h) (map log_delta (after_seq (vw_last_seq e) (deltas_of i d'))))
      (shown (h_pg h) (h_parse h) spec (storage d i)) =
    Some (shown (h_pg h) (h_parse h) spec (storage d' i))"
  using round_leads [OF assms] by (simp add: leads_def after_seq_def)

lemma example_json_laws: "json_laws example_host proj_spec"
proof -
  have j: "json_of_row example_pg (h_parse example_host) r =
    JObject [(''_nabla_pk1_k'', JString (enc_row r)), (''id'', JString (enc_row r)), (''k'', JString (enc_row r))]" for r
    by (simp add: json_of_row_def example_host_def example_pg_def)
  have k: "net_key proj_spec (json_of_row example_pg (h_parse example_host) r) = [JString (enc_row r)]" for r
    by (simp add: j net_key_def identity_columns_def proj_spec_def)
  have "r = r'" if t: "typed_row proj_spec r" "typed_row proj_spec r'" and e: "enc_row r = enc_row r'" for r r'
  proof -
    have "dec_row (table_columns proj_spec) (enc_row r) = Inr r"
      by (rule dec_enc_row) (rule t(1) [unfolded typed_row_def])
    moreover have "dec_row (table_columns proj_spec) (enc_row r') = Inr r'"
      by (rule dec_enc_row) (rule t(2) [unfolded typed_row_def])
    ultimately show ?thesis unfolding e by (simp only: sum.inject)
  qed
  moreover have "h_parse example_host (h_print example_host (json_of_row example_pg (h_parse example_host) r)) =
    Some (json_of_row example_pg (h_parse example_host) r)" for r
    unfolding j by (simp add: example_host_def example_print_def)
  moreover have "h_parse example_host t \<noteq> None" for t by (simp add: example_host_def)
  ultimately have "json_faithful example_pg (h_parse example_host) (h_print example_host) proj_spec"
    unfolding json_faithful_def k by blast
  then show ?thesis by (simp add: json_laws_def example_json_ok) (simp add: example_host_def example_json_ok)
qed

lemma spec_ok_proj: "spec_ok proj_spec"
  using wf_proj_spec by (simp add: spec_ok_def) (code_simp)

text \<open>A round of one transaction on a projection: two rows inserted, the first one deleted again.\<close>

definition one_view_db :: db where
  "one_view_db = example_db\<lparr>db_views := [example_entry 1 ''public.p'' proj_spec], db_shadows := [],
     db_relations := [(1, 16)]\<rparr>"

definition one_tx :: "source_transaction list" where
  "one_tx = [\<lparr>tx_xid = 700, tx_commit_lsn = 19, tx_end_lsn = 20,
     tx_changes = [ChInsert 16 [CText ''1'', CText ''2''], ChInsert 16 [CText ''2'', CText ''3''],
       ChDelete 16 0x4F [CText ''1'', CText ''2'']]\<rparr>]"

definition one_view_round :: "string + (string + decoder \<times> round_stats) \<times> db" where
  "one_view_round = apply_round example_host round_decoder one_tx one_view_db"

text \<open>The API on the example database, reading JSON as the worker does.\<close>

definition subscriber_api :: api where
  "subscriber_api = example_api\<lparr>ap_json := (\<lambda>t. case h_parse example_host t of None \<Rightarrow> JNull | Some j \<Rightarrow> j)\<rparr>"

definition one_row :: row where
  "one_row = [(''id'', Num 2), (''v'', Num 3)]"

definition after_round :: "db \<Rightarrow> bool" where
  "after_round d \<longleftrightarrow>
     find_id 1 d = Some ((example_entry 1 ''public.p'' proj_spec)\<lparr>vw_frontier := 20, vw_last_seq := 1\<rparr>) \<and>
     storage d 1 = [one_row] \<and> length (deltas_of 1 d) = 1 \<and>
     (case (find_view subscriber_api d ''p'', changes subscriber_api d ''p'' 0 1 100 True) of
        (Inr view, Inr rows) \<Rightarrow> cr_id view = 1 \<and> length rows = 1 | _ \<Rightarrow> False)"

lemma one_view_round_runs:
  "committed one_view_round \<and> after_round (round_db_of one_view_round)"
  by code_simp

lemma one_view_facts:
  "catalog_ok one_view_db" "find_id 1 one_view_db = Some (example_entry 1 ''public.p'' proj_spec)"
  "table_ok proj_spec (storage one_view_db 1)"
  by code_simp+

lemma loaded_example: "loaded (example_entry i name spec)"
  by (simp add: loaded_def example_entry_def live_def)

lemma no_null_row: "\<not> null_keyed proj_spec [one_row]"
  by code_simp

lemma one_view_round_result:
  obtains dec st d rows view where "apply_round example_host round_decoder one_tx one_view_db = Inr (Inr (dec, st), d)"
    and "find_id 1 d = Some ((example_entry 1 ''public.p'' proj_spec)\<lparr>vw_frontier := 20, vw_last_seq := 1\<rparr>)"
    and "storage d 1 = [one_row]" and "length (deltas_of 1 d) = 1"
    and "changes subscriber_api d ''p'' 0 1 100 True = Inr rows" and "length rows = 1"
    and "find_view subscriber_api d ''p'' = Inr view" and "cr_id view = 1"
proof -
  obtain dec where r: "one_view_round = Inr (Inr (dec, round_stats_of one_view_round), round_db_of one_view_round)"
    using committedD one_view_round_runs by blast
  let ?d = "round_db_of one_view_round"
  have a: "after_round ?d" using one_view_round_runs by blast
  obtain view where view: "find_view subscriber_api ?d ''p'' = Inr view"
    using a by (cases "find_view subscriber_api ?d ''p''") (simp_all add: after_round_def)
  obtain rows where rows: "changes subscriber_api ?d ''p'' 0 1 100 True = Inr rows"
    using a view by (cases "changes subscriber_api ?d ''p'' 0 1 100 True") (simp_all add: after_round_def)
  have r': "apply_round example_host round_decoder one_tx one_view_db =
      Inr (Inr (dec, round_stats_of one_view_round), ?d)"
    using r by (simp only: one_view_round_def [symmetric])
  show thesis
    by (rule that [OF r' _ _ _ rows _ view])
      (use a view rows in \<open>simp_all add: after_round_def\<close>)
qed

lemma one_view_nothing_shown: "shown example_pg (h_parse example_host) proj_spec (storage one_view_db 1) = Map.empty"
  by (simp add: shown_def storage_def one_view_db_def example_db_def comp_def)

theorem round_log_replays_view_witness:
  "\<exists>d. length (deltas_of 1 d) = 1 \<and> storage d 1 = [one_row] \<and>
    replay (visible proj_spec) (net_key proj_spec)
      (parsed (h_parse example_host) (map log_delta (after_seq 0 (deltas_of 1 d)))) Map.empty =
    Some (shown example_pg (h_parse example_host) proj_spec [one_row])"
proof -
  obtain dec st d where r: "apply_round example_host round_decoder one_tx one_view_db = Inr (Inr (dec, st), d)"
    and d: "find_id 1 d = Some ((example_entry 1 ''public.p'' proj_spec)\<lparr>vw_frontier := 20, vw_last_seq := 1\<rparr>)"
      "storage d 1 = [one_row]" "length (deltas_of 1 d) = 1"
    by (rule one_view_round_result)
  have pg: "h_pg example_host = example_pg" by (simp add: example_host_def)
  have seq: "vw_last_seq (example_entry 1 ''public.p'' proj_spec) = 0" by (simp add: example_entry_def)
  from round_log_replays_view [OF r one_view_facts(1,2) loaded_example d(1) _ spec_ok_proj example_json_laws
      one_view_facts(3), unfolded seq] no_null_row d(3)
  show ?thesis
    unfolding d(2) pg one_view_nothing_shown
    by (intro exI [of _ d]) (simp add: d(2) example_entry_def example_host_def default_settings_def)
qed

text \<open>
  C1. A subscriber holds the view. A subscriber that read the view's visible rows when its last delta was
  number \<open>n\<close>, and that after a round of the worker asks \<open>changes\<close> for the deltas after \<open>n\<close>, hidden columns
  included, and gets a page that is not full, holds the visible rows of the view's table after the round
  once it has replayed the page, without a delete or insert that does not fit what it holds.
\<close>

theorem subscriber_holds_view:
  assumes "apply_round h dec txs d = Inr (Inr (dec', st), d')" and "catalog_ok d"
    and "find_id i d = Some e" and "loaded e" and "find_id i d' = Some e'"
    and "vw_spec e = Some spec" and "spec_ok spec" and "json_laws h spec"
    and "table_ok spec (storage d i)" and "\<not> null_keyed spec (storage d' i)"
    and "vw_last_seq e' - vw_last_seq e \<le> st_retain_deltas (h_settings h)"
    and "changes ap d' name (vw_last_seq e) epoch max_rows True = Inr rows"
    and "find_view ap d' name = Inr view" and "cr_id view = i" and "int (length rows) < max max_rows 1"
    and "one_tx_per_lsn (deltas_of i d')" and "\<forall>t j. h_parse h t = Some j \<longrightarrow> ap_json ap t = j"
  shows "replay (visible spec) (net_key spec) (map row_event rows)
      (shown (h_pg h) (h_parse h) spec (storage d i)) =
    Some (shown (h_pg h) (h_parse h) spec (storage d' i))"
proof -
  have cat: "catalog_ok d'" using assms(1,2) log_round by (metis apply_roundE)
  obtain v where v: "v \<in> set (db_views d')" "load_row ap v = Inr view" using find_view_row [OF assms(13)] by blast
  have id: "vw_id v = i" using load_rowD [OF v(2)] assms(14) by simp
  let ?lg = "after_seq (vw_last_seq e) (deltas_of i d')"
  have check: "changes_check d' view (vw_last_seq e) epoch = None"
    using assms(12,13) by (auto simp: changes_def rbind_Inr_iff Let_def split: option.splits)
  note page = changes_page(2) [OF assms(13) v(2,1) check cat, unfolded id, OF assms(16), of max_rows True]
  obtain n where n: "rows = map (change_row ap []) (take n ?lg)" "tx_boundary ?lg n"
    "nat (max max_rows 1) \<le> n \<or> n = length ?lg"
    using page assms(12) by auto
  have "n = length ?lg" using page_short [OF n(2,3)] assms(15) unfolding n(1) by simp
  then have rows: "rows = map (change_row ap []) ?lg" using n(1) by simp
  have l: "leads h spec (storage d i) (map log_delta ?lg) (storage d' i)"
    using round_leads(2) [OF assms(1-11)] by (simp add: after_seq_def)
  then have "\<forall>x \<in> set ?lg. h_parse h (de_row x) \<noteq> None" by (simp add: leads_def log_delta_def)
  from row_events_parsed [OF assms(17) this] l show ?thesis by (simp add: rows leads_def)
qed

theorem subscriber_holds_view_witness:
  "\<exists>d rows. changes subscriber_api d ''p'' 0 1 100 True = Inr rows \<and> length rows = 1 \<and> storage d 1 = [one_row] \<and>
    replay (visible proj_spec) (net_key proj_spec) (map row_event rows) Map.empty =
    Some (shown example_pg (h_parse example_host) proj_spec [one_row])"
proof -
  obtain dec st d rows view where r: "apply_round example_host round_decoder one_tx one_view_db = Inr (Inr (dec, st), d)"
    and d: "find_id 1 d = Some ((example_entry 1 ''public.p'' proj_spec)\<lparr>vw_frontier := 20, vw_last_seq := 1\<rparr>)"
      "storage d 1 = [one_row]" "length (deltas_of 1 d) = 1"
    and page: "changes subscriber_api d ''p'' 0 1 100 True = Inr rows" "length rows = 1"
    and view: "find_view subscriber_api d ''p'' = Inr view" "cr_id view = 1"
    by (rule one_view_round_result)
  have pg: "h_pg example_host = example_pg" by (simp add: example_host_def)
  have seq: "vw_last_seq (example_entry 1 ''public.p'' proj_spec) = 0" by (simp add: example_entry_def)
  have tx: "one_tx_per_lsn (deltas_of 1 d)" using d(3) by (cases "deltas_of 1 d") (simp_all add: one_tx_per_lsn_def)
  have json: "\<forall>t j. h_parse example_host t = Some j \<longrightarrow> ap_json subscriber_api t = j"
    by (simp add: subscriber_api_def)
  from subscriber_holds_view [OF r one_view_facts(1,2) loaded_example d(1) _ spec_ok_proj example_json_laws
      one_view_facts(3) _ _ _ view _ tx json, unfolded seq, OF _ _ _ page(1)] no_null_row page(2)
  have "replay (visible proj_spec) (net_key proj_spec) (map row_event rows) Map.empty =
    Some (shown example_pg (h_parse example_host) proj_spec [one_row])"
    unfolding d(2) pg one_view_nothing_shown by (simp add: example_entry_def example_host_def default_settings_def)
  with page d(2) show ?thesis by blast
qed






end
