(* ===== verification/Spec2Isabelle.thy ===== *)
theory Spec2Isabelle
  imports Row_Changes View_Maintenance Errors Round_Theorems Worker_Theorems Populate_Theorems Validator_Theorems Api_Write_Theorems
    Client_Theorems Subscription
begin

text \<open>
  A verification development of nabla, a PostgreSQL extension that keeps materialized views up to date
  from the logical replication stream and offers every view's changes to subscribers as a log of deltas.

  \<^bold>\<open>The program.\<close> A user calls \<open>nabla.create_view(name, definition)\<close> (\<open>src/src/api.rs\<close>). The definition is
  validated (\<open>src/src/definition.rs\<close>): it is a projection, an aggregate, or a join of base tables. The view
  becomes a row of \<open>nabla.views\<close> and its tables join a publication. A background worker
  (\<open>src/src/worker.rs\<close>) builds pending views from a snapshot (\<open>src/src/populate.rs\<close>), for joins beside private
  copies of the base tables, the shadows (\<open>src/src/shadow.rs\<close>). Each poll of the worker then peeks at the
  replication slot, decodes the pgoutput messages into source transactions (\<open>src/src/pgoutput.rs\<close>), plans
  every change as operations on the views' storage tables, executes them, reduces the deltas of a
  transaction to their net effect (\<open>src/src/apply.rs\<close>), appends them to \<open>nabla.deltas\<close>, moves the views'
  frontiers and advances the slot. Idle stretches of the log are published in shared memory
  (\<open>src/src/idle.rs\<close>), so that \<open>wait_for\<close> need not wait for writes that concern no view. The client
  (\<open>src/clients/rust/nabla-client/src/lib.rs\<close>) bootstraps from a view and then follows its log, one event per
  source transaction, and starts over when the server says that it lagged or that the epoch changed.

  \<^bold>\<open>Theories and sources.\<close>
  \<^item> \<^theory_text>\<open>Prelude\<close>: machine words, the result type \<open>error + 'a\<close> with its bind \<open>rbind\<close> (the \<open>?\<close> of Rust) and
    \<open>mapM\<close>, slice and iterator operations, their lemmas and the hint collections.
  \<^item> \<^theory_text>\<open>Lsn\<close>: \<open>lsn.rs\<close>, \<open>parse\<close> and \<open>format\<close> of log positions, with \<open>trim\<close>, \<open>from_str_radix\<close> and \<open>{:X}\<close>.
  \<^item> \<^theory_text>\<open>Pgoutput\<close>, \<^theory_text>\<open>Pgoutput_Facts\<close>, \<^theory_text>\<open>Decoder\<close>: \<open>pgoutput.rs\<close>. The byte reader (a state-passing parser that
    carries the buffer and the position), \<open>decode\<close>, and the \<open>Decoder\<close> record with \<open>feed\<close> and its relation cache.
  \<^item> \<^theory_text>\<open>Errors\<close>: \<open>errors.rs\<close>, SQLSTATEs, the reports, what a message keeps of text with NUL bytes.
  \<^item> \<^theory_text>\<open>Idle\<close>: \<open>idle.rs\<close>, the shared idle window.
  \<^item> \<^theory_text>\<open>View_Spec\<close>, \<^theory_text>\<open>Query_Tree\<close>, \<^theory_text>\<open>Validator\<close> with \<^theory_text>\<open>Validator_Facts\<close> and \<^theory_text>\<open>Validator_Theorems\<close>: \<open>definition.rs\<close>. The
    specification types, the analysed query with the walks over it, and \<open>validate\<close> with all its rejections.
  \<^item> \<^theory_text>\<open>Sql\<close>: the meaning of the SQL the code builds, over a parameter \<open>pg\<close> for PostgreSQL's expressions,
    casts and JSON.
  \<^item> \<^theory_text>\<open>Net\<close>, \<^theory_text>\<open>Apply\<close>, \<^theory_text>\<open>Apply_Facts\<close>, \<^theory_text>\<open>Maintain\<close>, \<^theory_text>\<open>View_Maintenance\<close>, \<^theory_text>\<open>Row_Changes\<close>: \<open>apply.rs\<close>. Netting, planning
    (\<open>plan_change\<close> and what it calls), execution (\<open>execute\<close>), and the proofs that they maintain the view.
  \<^item> \<^theory_text>\<open>Catalog\<close>: the settings of \<open>guc.rs\<close> and the database state, a record \<open>db\<close> with a field for each table of
    \<open>src/sql/bootstrap.sql\<close>, the storage and shadow tables, and the slot; the record \<open>host\<close> holds the parameters.
  \<^item> \<^theory_text>\<open>Shadow_Rows\<close>, \<^theory_text>\<open>Live_View\<close>, \<^theory_text>\<open>Round\<close>: \<open>worker.rs\<close> up to \<open>apply_round\<close>. Loading the live views and shadows,
    drift, planning for one view, shadow maintenance, execution in subtransactions, the failure counters, the
    end of a round. \<^theory_text>\<open>Round_Facts\<close>, \<^theory_text>\<open>Round_Log\<close>, \<^theory_text>\<open>Round_Properties\<close>, \<^theory_text>\<open>Round_Isolation\<close> and \<^theory_text>\<open>Round_Theorems\<close> prove
    what a round guarantees.
  \<^item> \<^theory_text>\<open>Worker\<close>, \<^theory_text>\<open>Worker_Facts\<close>, \<^theory_text>\<open>Worker_Theorems\<close>: \<open>run_round\<close>, the lag check, the idle advance and one poll of the
    loop of \<open>worker_main\<close>.
  \<^item> \<^theory_text>\<open>Shadow_Tables\<close>: \<open>shadow.rs\<close>, creating, extending and rebuilding shadows, their reference counts.
  \<^item> \<^theory_text>\<open>Populate\<close>, \<^theory_text>\<open>Populate_Facts\<close>, \<^theory_text>\<open>Populate_Theorems\<close>: \<open>populate.rs\<close>, grouping, building and rebuilding of views.
  \<^item> \<^theory_text>\<open>Api\<close>, \<^theory_text>\<open>Api_Facts\<close>, \<^theory_text>\<open>Api_Theorems\<close>: the reading half of \<open>api.rs\<close> (name lookup, \<open>status\<close>, \<open>changes\<close>,
    \<open>wait_for\<close>, the refresh set). \<^theory_text>\<open>Api_Write\<close>, \<^theory_text>\<open>Api_Write_Facts\<close>, \<^theory_text>\<open>Api_Write_Theorems\<close>: the writing half
    (\<open>create_view\<close>, \<open>refresh\<close>, \<open>drop_view\<close>) and the functions and triggers of \<open>bootstrap.sql\<close>.
  \<^item> \<^theory_text>\<open>Client\<close>, \<^theory_text>\<open>Client_Facts\<close>, \<^theory_text>\<open>Client_Source\<close>, \<^theory_text>\<open>Client_Theorems\<close>: the reference client.
  \<^item> \<^theory_text>\<open>Delta_Replay\<close>, \<^theory_text>\<open>Round_Replay\<close>, \<^theory_text>\<open>Subscription\<close>: the components together. What any execution's deltas
    mean to a subscriber, a whole round seen so, and a subscriber that reads \<open>changes\<close> after it.
  \<^item> \<^theory_text>\<open>Example_Pg\<close>, \<^theory_text>\<open>Example_Round\<close>, \<^theory_text>\<open>Example_Catalog\<close>: a small concrete PostgreSQL, database and catalog, on
    which the witnesses evaluate.

  \<^bold>\<open>How state and effects are modelled.\<close> A struct is a record, an enum a datatype, an LSN and an OID a word of
  its width; counters the code keeps in \<open>bigint\<close> columns are \<open>int\<close>. A Rust \<open>String\<close> is the list of its UTF-8
  bytes. Code that writes to the database takes a \<open>db\<close> and returns it updated; a subtransaction that fails
  returns the state it began with. Errors are the left side of a sum. Maps whose order the code relies on
  are association lists. The order in which a loop meets views, shadows and changes is the order of the code.

  \<^bold>\<open>Locales.\<close> \<open>codec\<close> (\<^theory_text>\<open>Pgoutput_Facts\<close>) is an encoding with a reader that inverts it; it is interpreted on
  integers, strings, columns, tuples and relation columns. \<open>maintained\<close> (\<^theory_text>\<open>Maintain\<close>) is the contract between a
  storage table and the rows it is computed from; aggregates and projections interpret it. \<open>view_invariant\<close>
  (\<^theory_text>\<open>Round_Facts\<close>) lifts an invariant of one view through every step of a round; the bookkeeping invariant
  \<open>tracks\<close> interprets it. \<open>delta_source\<close> (\<^theory_text>\<open>Client_Source\<close>) is what a following client needs of a server; the
  model of \<open>changes\<close> interprets it.

  \<^bold>\<open>What the lemmas show.\<close>
  \<^item> Incremental maintenance (\<^theory_text>\<open>Row_Changes\<close>): planning a change and executing the plan takes the storage table from
    the view's query over the old tables to its query over the new ones, and the deltas replay the difference.
    Single-table aggregates and projections and joins are covered. Netting (\<^theory_text>\<open>Net\<close>) keeps what a replay leads to.
  \<^item> The wire format (\<^theory_text>\<open>Pgoutput_Facts\<close>, \<^theory_text>\<open>Decoder\<close>): \<open>decode\<close> inverts the encoding, never reads outside the
    buffer, and \<open>feed\<close> recovers the transactions of a log however it is cut.
  \<^item> The worker (\<^theory_text>\<open>Round_Theorems\<close>, \<^theory_text>\<open>Worker_Theorems\<close>): logs stay contiguous, sorted and covered by the
    frontier; the slot never passes a live view; one view's failure does not touch another; replay after a
    crash is the identity; the idle window is sound; a drained poll catches up.
  \<^item> From end to end (\<^theory_text>\<open>Subscription\<close>): a view populated from an accepted definition starts with a table of
    distinct rows; whatever a round then applies to it, replaying what the round appended to its log takes
    the visible rows of the table before the round to those after it; and so a subscriber that replays the
    page \<open>changes\<close> serves holds exactly what the view shows. These do not assume that planning is right: they
    relate the log to the storage table. That the storage table is the view is the business of the first item.
  \<^item> Population (\<^theory_text>\<open>Populate_Theorems\<close>): a committed group shows its queries under its snapshot; the groups
    partition the pending views.
  \<^item> The validator (\<^theory_text>\<open>Validator_Theorems\<close>): what it accepts has the shape the maintenance proofs assume, refers
    to noted columns only and evaluates no mutable function.
  \<^item> The API and the client: \<open>changes\<close> serves whole transactions without gaps, its errors mean what they say,
    waiting ends, the writing functions keep the catalog consistent, and a client that follows the log hands
    out every delta once and in order.
  \<^item> Some properties state where the code departs from its own comments: an unchanged TOAST value under a
    key-only old tuple, the grouping of refreshed join views, the reference count of a shadow under a view that
    was never built, and a client batch of zero rows.

  \<^bold>\<open>Loops and bounds.\<close> The readers of \<^theory_text>\<open>Pgoutput\<close> loop as often as the count they have read, a list of that
  length. The fixpoint of the refresh set (\<open>closure_loop\<close>) ends because its sets only grow inside the
  catalog. The insertion of deltas in chunks (\<open>insert_deltas\<close>), hexadecimal and decimal printing, trimming, UTF-8
  repair and the expansion of expression trees each have a termination proof by a measure. Two loops may run
  for ever and are \<open>partial_function (option)\<close>, where \<open>None\<close> is not returning: \<open>poll_loop\<close> of \<^theory_text>\<open>Api\<close>, over a
  sequence of what each pass sees, shown to end when the clock moves; and \<open>next_event\<close> of \<^theory_text>\<open>Client\<close>, over a
  sequence of what the network answers, shown to return against a server that answers and, with a batch of
  zero rows, shown not to. No definition uses fuel. The loop of \<open>worker_main\<close> has no end; the properties hold
  for any sequence of polls. Counts are assumed below \<open>2 ^ 63\<close> where the SQL stores them as \<open>bigint\<close>.

  \<^bold>\<open>Parameters.\<close> PostgreSQL is not part of the repository: the evaluation of expressions, casts, \<open>to_jsonb\<close>, the
  parser and the catalogs behind \<open>validate\<close>, snapshots, the messages of a peek, the clock and what a \<open>DROP\<close>
  removes are arguments of the model. What a proof needs of them is a named hypothesis (\<open>json_ok\<close>: JSON of a
  row reads back; \<open>json_faithful\<close>: \<open>serde_json\<close> prints back what it parsed and keeps identities apart, which
  fails for numeric keys beyond the precision of a double, where the rows shown are rounded too; a primary key has no NULL), and the witnesses show
  on \<^theory_text>\<open>Example_Pg\<close> that these hypotheses hold together.

  \<^bold>\<open>Not modelled.\<close> \<open>src/src/lib.rs\<close>, \<open>src/src/bin/pgrx_embed.rs\<close> and the client's \<open>examples/follow.rs\<close>:
  registration, module lists and an example that prints, without logic of their own. In the modelled files: the cache of
  prepared plans (\<open>with_plan\<close>) and the SPI wrappers, which only change when a statement is parsed; raw pointer helpers
  and \<open>serde\<close> derivations; the secondary indexes, statistics, dependency entries and the \<open>VIEW\<close> created beside a storage table,
  which do not change what the tables hold; how the slot reaches its consistent point; latches, signals,
  sleeping and log messages; the client's connection task. Statements under one transaction are executed as
  if alone: the locks the code takes are what makes that so, and concurrent sessions meet only between transactions.
  The unit tests and the SQL tests of the repository are not modelled.
\<close>

end
